(* ===== verification/WG_Prelude.thy ===== *)
theory WG_Prelude
  imports Main "HOL-Library.Word" "HOL-Library.Multiset"
begin

text \<open>
  The parts of C and of its standard library that the wireguard-tools sources rely on, and the
  generic lemmas the component theories share.

  \<^item> Machine integers: \<open>uint8_t\<close>, \<open>uint16_t\<close>, \<open>uint32_t\<close> and \<open>uint64_t\<close> are words of that
    width. A signed \<open>int\<close> whose values the code keeps small is an \<open>int\<close>: \<open>&\<close> on two's complement
    is the bitwise conjunction of integers and \<open>>>\<close> of a negative value is the arithmetic shift
    (\<open>asr\<close>).
  \<^item> A C string is the list of its characters before the terminating NUL, so reading \<open>*p\<close> as
    \<open>'\0'\<close> is finding the list empty. A suffix of a string stands for a pointer into it.
  \<^item> \<open>strcasecmp\<close>, \<open>strncasecmp\<close>, \<open>strchr\<close>, \<open>strrchr\<close>, \<open>strsep\<close>, \<open>strtoul\<close> and the conversions
    \<open>%u\<close>, \<open>%d\<close> and \<open>%x\<close> of \<open>printf\<close> as the C library documents them in the C locale, with a 64-bit
    \<open>unsigned long\<close>.
  \<^item> Flag words: testing, setting and clearing bits of a \<open>uint32_t\<close>.
  \<^item> The interface \<open>codec\<close> (an encoder and a partial decoder that invert each other) and the
    interface \<open>guarded_step\<close> (a fallible step that keeps an invariant), which the components
    provide and their clients use.
\<close>

unbundle bit_operations_syntax

section \<open>Machine integers\<close>

type_synonym u8 = "8 word"
type_synonym u16 = "16 word"
type_synonym u32 = "32 word"
type_synonym u64 = "64 word"

named_theorems flag_simps \<open>evaluation of tests on flag words\<close>
named_theorems libc_simps \<open>evaluation of the C library's string functions\<close>

text \<open>The arithmetic shift of a signed \<open>int\<close> and its use as an all-ones or all-zeros mask.\<close>

definition asr :: "int \<Rightarrow> nat \<Rightarrow> int" where
  "asr x n = drop_bit n x"

lemma asr_8_mask:
  assumes "- 256 \<le> x" and "x < 256"
  shows "asr x 8 = (if x < 0 then - 1 else 0)"
proof (cases "x < 0")
  case True
  with assms(1) have "x div 256 = - 1"
    by (intro int_div_pos_eq [where r = "x + 256"]) auto
  with True show ?thesis
    by (simp add: asr_def drop_bit_eq_div)
next
  case False
  with assms(2) show ?thesis
    by (simp add: asr_def drop_bit_eq_div)
qed

lemma int_and_bounds:
  fixes a b :: int
  assumes "- 256 \<le> a" "a < 256" "- 256 \<le> b" "b < 256"
  shows "- 256 \<le> a AND b" and "a AND b < 256"
proof -
  have *: "drop_bit 8 (a AND b) \<in> {- 1, 0}"
  proof -
    have "drop_bit 8 a \<in> {- 1, 0}" "drop_bit 8 b \<in> {- 1, 0}"
      using asr_8_mask [of a] asr_8_mask [of b] assms by (auto simp: asr_def)
    then show ?thesis by (auto simp: drop_bit_and)
  qed
  then have "(a AND b) div 256 = - 1 \<or> (a AND b) div 256 = 0"
    by (auto simp: drop_bit_eq_div)
  then show "- 256 \<le> a AND b" and "a AND b < 256"
    by auto
qed

lemma asr_8_and_mask:
  fixes a b :: int
  assumes "- 256 \<le> a" "a < 256" "- 256 \<le> b" "b < 256"
  shows "asr (a AND b) 8 = (if a < 0 \<and> b < 0 then - 1 else 0)"
  using asr_8_mask [OF int_and_bounds [OF assms]] by simp

section \<open>Lists in blocks of a fixed width\<close>

lemma length_concat_blocks:
  "(\<And>i. i < n \<Longrightarrow> length (f i) = w) \<Longrightarrow> length (concat (map f [0..<n])) = n * w"
  by (induction n) auto

lemma nth_concat_blocks:
  assumes "\<And>i. i < n \<Longrightarrow> length (f i) = w" and "i < n" and "j < w"
  shows "concat (map f [0..<n]) ! (i * w + j) = f i ! j"
  using assms
proof (induction n)
  case 0
  then show ?case by simp
next
  case (Suc n)
  have len: "length (concat (map f [0..<n])) = n * w"
    using Suc.prems(1) by (intro length_concat_blocks) simp
  show ?case
  proof (cases "i = n")
    case True
    with len show ?thesis by (simp add: nth_append)
  next
    case False
    with Suc.prems have "i < n" by simp
    then have "Suc i * w \<le> n * w" by (intro mult_le_mono1) simp
    with Suc.prems(3) have "i * w + j < n * w" by simp
    with len \<open>i < n\<close> show ?thesis
      using Suc.IH Suc.prems by (simp add: nth_append)
  qed
qed

lemma blocks_take:
  "n * w \<le> length xs \<Longrightarrow> concat (map (\<lambda>i. map (\<lambda>j. xs ! (i * w + j)) [0..<w]) [0..<n]) = take (n * w) xs"
proof (induction n)
  case 0
  then show ?case by simp
next
  case (Suc n)
  have "map (\<lambda>j. xs ! (n * w + j)) [0..<w] = take w (drop (n * w) xs)"
    using Suc.prems by (intro nth_equalityI) auto
  with Suc show ?case by (simp add: take_add add.commute [of w])
qed

section \<open>Flag words\<close>

definition flag_set :: "u32 \<Rightarrow> u32 \<Rightarrow> bool" where
  "flag_set f b \<longleftrightarrow> f AND b \<noteq> 0"

lemma flag_set_zero [simp, flag_simps]: "\<not> flag_set 0 b"
  by (simp add: flag_set_def)

lemma flag_set_or [flag_simps]: "flag_set (f OR g) b \<longleftrightarrow> flag_set f b \<or> flag_set g b"
  by (simp add: flag_set_def bit.conj_disj_distrib2 or_eq_0_iff)

lemma flag_set_clear_other [flag_simps]:
  "NOT g AND b = b \<Longrightarrow> flag_set (f AND NOT g) b \<longleftrightarrow> flag_set f b"
  by (simp add: flag_set_def and.assoc)

lemma flag_set_clear_same [flag_simps]: "NOT g AND b = 0 \<Longrightarrow> \<not> flag_set (f AND NOT g) b"
  by (simp add: flag_set_def and.assoc)

section \<open>Characters\<close>

text \<open>
  A \<open>char\<close> promoted to \<open>int\<close>: signed, as on the ABIs the tools are built for most. The NUL byte
  ends a string, and \<open>c_str\<close> is the string a buffer holds.
\<close>

definition c_int :: "char \<Rightarrow> int" where
  "c_int c = (if of_char c < (128 :: int) then of_char c else of_char c - 256)"

lemma of_char_nat_bound: "(of_char c :: nat) < 256"
  using of_char_mod_256 [of c, where 'a = nat] by (metis mod_less_divisor zero_less_numeral)

lemma of_char_int: "(of_char c :: int) = int (of_char c)"
  by (rule of_nat_of_char [symmetric])

lemma of_char_int_bounds: "0 \<le> (of_char c :: int)" "(of_char c :: int) < 256"
  using of_char_nat_bound [of c] by (simp_all only: of_char_int)

lemma c_int_bounds: "- 128 \<le> c_int c" "c_int c < 128"
  using of_char_int_bounds [of c] by (auto simp: c_int_def)

lemma c_int_inj: "c_int c = c_int d \<Longrightarrow> c = d"
  using of_char_int_bounds [of c] of_char_int_bounds [of d]
  by (auto simp: c_int_def of_char_eq_iff split: if_splits)

lemma c_int_eq_iff: "c_int c = c_int d \<longleftrightarrow> c = d"
  using c_int_inj by blast

definition NUL :: char where
  "NUL = CHR 0x00"

definition newline :: char where
  "newline = CHR 0x0A"

definition c_str :: "string \<Rightarrow> string" where
  "c_str buf = takeWhile (\<lambda>c. c \<noteq> NUL) buf"

definition no_nul :: "string \<Rightarrow> bool" where
  "no_nul s \<longleftrightarrow> NUL \<notin> set s"

lemma no_nul_c_str: "no_nul (c_str buf)"
  by (auto simp: no_nul_def c_str_def dest: set_takeWhileD)

lemma c_str_id: "no_nul s \<Longrightarrow> c_str s = s"
  by (auto simp: no_nul_def c_str_def takeWhile_eq_all_conv)

section \<open>Comparing and searching strings\<close>

definition tolower_c :: "char \<Rightarrow> char" where
  "tolower_c c = (if (65 :: nat) \<le> of_char c \<and> of_char c \<le> (90 :: nat)
                  then char_of (of_char c + 32 :: nat) else c)"

text \<open>\<open>!strcasecmp(s, t)\<close>, and \<open>!strncasecmp(s, t, n)\<close> by the loop that stops at a NUL.\<close>

definition strcaseeq :: "string \<Rightarrow> string \<Rightarrow> bool" where
  "strcaseeq s t \<longleftrightarrow> map tolower_c s = map tolower_c t"

fun strncaseeq :: "string \<Rightarrow> string \<Rightarrow> nat \<Rightarrow> bool" where
  "strncaseeq s t 0 = True"
| "strncaseeq [] [] (Suc n) = True"
| "strncaseeq (c # s) (d # t) (Suc n) = (tolower_c c = tolower_c d \<and> strncaseeq s t n)"
| "strncaseeq _ _ (Suc n) = False"

lemma strncaseeq_prefix:
  "strncaseeq s t (length t) \<longleftrightarrow> length t \<le> length s \<and> map tolower_c (take (length t) s) = map tolower_c t"
proof (induction t arbitrary: s)
  case Nil
  then show ?case by simp
next
  case (Cons d t)
  then show ?case by (cases s) auto
qed

lemma strncaseeq_append [simp]: "strncaseeq (t @ s) t (length t)"
  by (simp add: strncaseeq_prefix)

text \<open>The suffix that starts at the first occurrence of a character, if there is one.\<close>

definition strchr :: "string \<Rightarrow> char \<Rightarrow> string option" where
  "strchr s c = (let t = dropWhile (\<lambda>d. d \<noteq> c) s in if t = [] then None else Some t)"

lemma strchr_None_iff: "strchr s c = None \<longleftrightarrow> c \<notin> set s"
  by (auto simp: strchr_def Let_def dropWhile_eq_Nil_conv)

lemma strchr_first:
  "c \<notin> set pre \<Longrightarrow> strchr (pre @ c # rest) c = Some (c # rest)"
  by (simp add: strchr_def Let_def dropWhile_append)

lemma strchr_Some:
  assumes "strchr s c = Some t"
  shows "\<exists>pre rest. s = pre @ c # rest \<and> t = c # rest \<and> c \<notin> set pre"
proof -
  from assms have "c \<in> set s"
    using strchr_None_iff [of s c] by auto
  then obtain pre rest where "s = pre @ c # rest" "c \<notin> set pre"
    by (meson split_list_first)
  with assms show ?thesis by (auto simp: strchr_first)
qed

text \<open>
  \<open>strrchr\<close>: the text before the last occurrence and the text after it, since the code
  overwrites the character itself with NUL or skips it.
\<close>

definition strrchr :: "string \<Rightarrow> char \<Rightarrow> (string \<times> string) option" where
  "strrchr s c =
     (if c \<in> set s
      then Some (rev (tl (dropWhile (\<lambda>d. d \<noteq> c) (rev s))), rev (takeWhile (\<lambda>d. d \<noteq> c) (rev s)))
      else None)"

lemma strrchr_None_iff: "strrchr s c = None \<longleftrightarrow> c \<notin> set s"
  by (simp add: strrchr_def)

lemma strrchr_last:
  "c \<notin> set rest \<Longrightarrow> strrchr (pre @ c # rest) c = Some (pre, rest)"
  by (simp add: strrchr_def dropWhile_append takeWhile_append)

lemma strrchr_Some:
  assumes "strrchr s c = Some (pre, rest)"
  shows "s = pre @ c # rest" and "c \<notin> set rest"
proof -
  from assms have "c \<in> set s" by (auto simp: strrchr_def split: if_splits)
  then obtain p q where pq: "s = p @ c # q" "c \<notin> set q"
    by (meson split_list_last)
  then have "strrchr s c = Some (p, q)" by (simp add: strrchr_last)
  with assms pq show "s = pre @ c # rest" and "c \<notin> set rest" by auto
qed

text \<open>\<open>strsep(&s, d)\<close>: the token before the first delimiter, and what is left of \<open>s\<close> (NULL at the end).\<close>

definition strsep :: "string \<Rightarrow> char \<Rightarrow> string \<times> string option" where
  "strsep s d =
     (takeWhile (\<lambda>c. c \<noteq> d) s,
      (case dropWhile (\<lambda>c. c \<noteq> d) s of [] \<Rightarrow> None | _ # rest \<Rightarrow> Some rest))"

lemma strsep_shorter:
  assumes "strsep s d = (tok, Some rest)"
  shows "length rest < length s"
proof -
  from assms obtain c where "dropWhile (\<lambda>c. c \<noteq> d) s = c # rest"
    by (auto simp: strsep_def split: list.splits)
  then show ?thesis
    using length_dropWhile_le [of "\<lambda>c. c \<noteq> d" s] by simp
qed

lemma strsep_no_delim:
  assumes "d \<notin> set s"
  shows "strsep s d = (s, None)"
proof -
  from assms have "dropWhile (\<lambda>c. c \<noteq> d) s = []" "takeWhile (\<lambda>c. c \<noteq> d) s = s"
    by (auto simp: dropWhile_eq_Nil_conv takeWhile_eq_all_conv)
  then show ?thesis by (simp only: strsep_def list.case)
qed

lemma strsep_delim: "d \<notin> set tok \<Longrightarrow> strsep (tok @ d # rest) d = (tok, Some rest)"
  by (simp add: strsep_def takeWhile_append dropWhile_append)

section \<open>Printing and reading numbers\<close>

definition digit_char :: "nat \<Rightarrow> char" where
  "digit_char d = (if d < 10 then char_of (48 + d) else char_of (87 + d))"

text \<open>\<open>%u\<close>, \<open>%d\<close> of a non-negative value and \<open>%llu\<close> are \<open>print_radix 10\<close>, \<open>%x\<close> is \<open>print_radix 16\<close>.\<close>

fun print_radix :: "nat \<Rightarrow> nat \<Rightarrow> string" where
  "print_radix b n =
     (if n < b \<or> b < 2 then [digit_char n] else print_radix b (n div b) @ [digit_char (n mod b)])"

declare print_radix.simps [simp del]

abbreviation print_u :: "nat \<Rightarrow> string" where
  "print_u \<equiv> print_radix 10"

abbreviation print_x :: "nat \<Rightarrow> string" where
  "print_x \<equiv> print_radix 16"

definition digit_val :: "char \<Rightarrow> nat" where
  "digit_val c =
     (let n = of_char c in
      if 48 \<le> n \<and> n \<le> 57 then n - 48
      else if 97 \<le> n \<and> n \<le> 102 then n - 87
      else if 65 \<le> n \<and> n \<le> 70 then n - 55
      else 255)"

definition is_digit_of :: "nat \<Rightarrow> char \<Rightarrow> bool" where
  "is_digit_of b c \<longleftrightarrow> digit_val c < b"

definition digits_val :: "nat \<Rightarrow> string \<Rightarrow> nat" where
  "digits_val b ds = foldl (\<lambda>v c. b * v + digit_val c) 0 ds"

definition isspace_c :: "char \<Rightarrow> bool" where
  "isspace_c c \<longleftrightarrow> c = CHR '' '' \<or> (9 \<le> (of_char c :: nat) \<and> of_char c \<le> (13 :: nat))"

text \<open>
  The common part of \<open>strtoul\<close>, \<open>strtoull\<close> and \<open>strtoll\<close> in base 10 or 16: leading white space,
  an optional sign, an optional \<open>0x\<close> in base 16 when a hexadecimal digit follows it, and the
  digits. The result is the sign, the unbounded value and the rest of the string; with no digit
  nothing is consumed.
\<close>

definition strto_sign :: "string \<Rightarrow> bool \<times> string" where
  "strto_sign s =
     (case s of
        [] \<Rightarrow> (False, [])
      | c # cs \<Rightarrow> if c = CHR ''-'' then (True, cs) else if c = CHR ''+'' then (False, cs) else (False, s))"

definition strto_prefix :: "nat \<Rightarrow> string \<Rightarrow> string" where
  "strto_prefix b s =
     (case s of
        z # x # d # ds \<Rightarrow>
          if b = 16 \<and> z = CHR ''0'' \<and> (x = CHR ''x'' \<or> x = CHR ''X'') \<and> is_digit_of 16 d
          then d # ds else s
      | _ \<Rightarrow> s)"

definition strto_scan :: "nat \<Rightarrow> string \<Rightarrow> bool \<times> nat \<times> string" where
  "strto_scan b s =
     (let (neg, s2) = strto_sign (dropWhile isspace_c s);
          s3 = strto_prefix b s2;
          ds = takeWhile (is_digit_of b) s3
      in if ds = [] then (False, 0, s)
         else (neg, digits_val b ds, dropWhile (is_digit_of b) s3))"

definition ULONG_MAX :: nat where
  "ULONG_MAX = 18446744073709551615"

definition strtoul :: "nat \<Rightarrow> string \<Rightarrow> nat \<times> string" where
  "strtoul b s =
     (let (neg, v, rest) = strto_scan b s
      in (if v > ULONG_MAX then ULONG_MAX else if neg \<and> v > 0 then Suc ULONG_MAX - v else v, rest))"

definition strtoll :: "nat \<Rightarrow> string \<Rightarrow> int \<times> string" where
  "strtoll b s =
     (let (neg, v, rest) = strto_scan b s
      in (if neg then (if v > 9223372036854775808 then - 9223372036854775808 else - int v)
          else (if v > 9223372036854775807 then 9223372036854775807 else int v), rest))"

subsection \<open>What the readers do on digit strings\<close>

lemma digit_val_digit_char: "d < 16 \<Longrightarrow> digit_val (digit_char d) = d"
  by (auto simp: digit_val_def digit_char_def Let_def)

lemma digit_val_bound_16: "digit_val c < 16 \<or> digit_val c = 255"
  by (auto simp: digit_val_def Let_def)

lemma digits_val_append: "digits_val b (ds @ [c]) = b * digits_val b ds + digit_val c"
  by (simp add: digits_val_def)

lemma print_radix_nonempty [simp]: "print_radix b n \<noteq> []"
  by (subst print_radix.simps) simp

lemma takeWhile_all_id [simp]: "\<forall>c \<in> set s. P c \<Longrightarrow> takeWhile P s = s"
  by simp

lemma digit_char_mod:
  assumes "2 \<le> b" and "b \<le> 16"
  shows "digit_val (digit_char (n mod b)) = n mod b" and "n mod b < b"
proof -
  show "n mod b < b" using assms by simp
  then show "digit_val (digit_char (n mod b)) = n mod b"
    using assms by (intro digit_val_digit_char) linarith
qed

lemma print_radix_digits:
  assumes "2 \<le> b" and "b \<le> 16"
  shows "\<forall>c \<in> set (print_radix b n). is_digit_of b c"
  using assms
proof (induction b n rule: print_radix.induct)
  case (1 b n)
  have last: "is_digit_of b (digit_char (n mod b))"
    using digit_char_mod [OF "1.prems"] by (simp add: is_digit_of_def)
  show ?case
  proof (cases "n < b \<or> b < 2")
    case True
    with "1.prems" have "n < b" by simp
    then show ?thesis
      using True last by (subst print_radix.simps) simp
  next
    case False
    with 1 have "\<forall>c \<in> set (print_radix b (n div b)). is_digit_of b c" by blast
    with False last show ?thesis by (subst print_radix.simps) auto
  qed
qed

lemma digits_val_print_radix:
  assumes "2 \<le> b" and "b \<le> 16"
  shows "digits_val b (print_radix b n) = n"
  using assms
proof (induction b n rule: print_radix.induct)
  case (1 b n)
  have dv: "digit_val (digit_char (n mod b)) = n mod b"
    using "1.prems" by (rule digit_char_mod)
  show ?case
  proof (cases "n < b \<or> b < 2")
    case True
    with "1.prems" have "n < b" by simp
    then show ?thesis
      using True dv by (subst print_radix.simps) (simp add: digits_val_def)
  next
    case False
    with 1 have "digits_val b (print_radix b (n div b)) = n div b" by blast
    with False dv show ?thesis
      by (subst print_radix.simps) (simp add: digits_val_append)
  qed
qed

lemma is_digit_of_10: "is_digit_of 10 c \<longleftrightarrow> (48 :: nat) \<le> of_char c \<and> of_char c \<le> (57 :: nat)"
  by (auto simp: is_digit_of_def digit_val_def Let_def)

lemma digit_not_space_or_sign:
  assumes "is_digit_of b c" and "b \<le> 16"
  shows "\<not> isspace_c c" "c \<noteq> CHR ''-''" "c \<noteq> CHR ''+''" "c \<noteq> CHR ''x''" "c \<noteq> CHR ''X''" "c \<noteq> NUL"
    "c \<noteq> CHR '',''" "c \<noteq> CHR ''/''" "c \<noteq> CHR '':''" "c \<noteq> CHR ''#''" "c \<noteq> newline" "c \<noteq> CHR ''=''"
  using assms
  by (auto simp: is_digit_of_def digit_val_def isspace_c_def NUL_def newline_def Let_def split: if_splits)

lemma takeWhile_digits:
  "\<forall>c \<in> set ds. P c \<Longrightarrow> rest = [] \<or> \<not> P (hd rest) \<Longrightarrow> takeWhile P (ds @ rest) = ds"
  by (induction ds) (cases rest; auto)+

lemma dropWhile_digits:
  "\<forall>c \<in> set ds. P c \<Longrightarrow> rest = [] \<or> \<not> P (hd rest) \<Longrightarrow> dropWhile P (ds @ rest) = rest"
  by (induction ds) (cases rest; auto)+

lemma strto_scan_digit_head:
  assumes "is_digit_of b c" and "b \<le> 16"
  shows "strto_scan b (c # cs) =
    (let s3 = strto_prefix b (c # cs) in
     (False, digits_val b (takeWhile (is_digit_of b) s3), dropWhile (is_digit_of b) s3))"
proof -
  have "takeWhile (is_digit_of b) (strto_prefix b (c # cs)) \<noteq> []"
    using assms by (auto simp: strto_prefix_def split: list.splits)
  then show ?thesis
    using digit_not_space_or_sign [OF assms]
    by (simp add: strto_scan_def strto_sign_def Let_def)
qed

text \<open>Reading back what \<open>printf\<close> printed.\<close>

lemma strto_scan_print_radix_10:
  assumes "rest = [] \<or> \<not> is_digit_of 10 (hd rest)"
  shows "strto_scan 10 (print_u n @ rest) = (False, n, rest)"
proof -
  obtain c cs where c: "print_u n = c # cs"
    using print_radix_nonempty by (meson neq_Nil_conv)
  have "strto_prefix 10 (print_u n @ rest) = print_u n @ rest"
    by (auto simp: strto_prefix_def split: list.splits)
  moreover have "is_digit_of 10 c"
    using print_radix_digits [of 10 n] c by auto
  ultimately show ?thesis
    using strto_scan_digit_head [of 10 c "cs @ rest"] c
      takeWhile_digits [OF print_radix_digits [of 10 n] assms]
      dropWhile_digits [OF print_radix_digits [of 10 n] assms]
      digits_val_print_radix [of 10 n]
    by (simp add: Let_def)
qed

lemma strtoul_print_u:
  assumes "rest = [] \<or> \<not> is_digit_of 10 (hd rest)" and "n \<le> ULONG_MAX"
  shows "strtoul 10 (print_u n @ rest) = (n, rest)"
  using strto_scan_print_radix_10 [OF assms(1)] assms(2) by (simp add: strtoul_def)

lemma strtoul_print_u' [simp]: "n \<le> ULONG_MAX \<Longrightarrow> strtoul 10 (print_u n) = (n, [])"
  using strtoul_print_u [of "[]" n] by simp

lemma strtoul_0x_print_x:
  assumes "n \<le> ULONG_MAX"
  shows "strtoul 16 (''0x'' @ print_x n) = (n, [])"
proof -
  obtain c cs where c: "print_x n = c # cs"
    using print_radix_nonempty by (meson neq_Nil_conv)
  have "is_digit_of 16 c"
    using print_radix_digits [of 16 n] c by auto
  then have "strto_prefix 16 (''0x'' @ print_x n) = print_x n"
    by (simp add: strto_prefix_def c)
  moreover have "is_digit_of 16 (CHR ''0'')"
    by (simp add: is_digit_of_def digit_val_def)
  ultimately have "strto_scan 16 (''0x'' @ print_x n) = (False, n, [])"
    using strto_scan_digit_head [of 16 "CHR ''0''" "CHR ''x'' # print_x n"]
      takeWhile_digits [OF print_radix_digits [of 16 n], of "[]"]
      dropWhile_digits [OF print_radix_digits [of 16 n], of "[]"]
      digits_val_print_radix [of 16 n]
    by (simp add: Let_def)
  with assms show ?thesis by (simp add: strtoul_def)
qed

text \<open>A fully consumed string that starts with a digit is a digit string.\<close>

lemma strtoul_10_complete:
  assumes "is_digit_of 10 (hd s)" and "s \<noteq> []"
  shows "strtoul 10 s = (v, []) \<longleftrightarrow> list_all (is_digit_of 10) s \<and> v = min (digits_val 10 s) ULONG_MAX"
proof -
  obtain c cs where s: "s = c # cs" "is_digit_of 10 c" using assms by (cases s) auto
  have "strto_prefix 10 s = s"
    by (auto simp: strto_prefix_def split: list.splits)
  with s have scan: "strto_scan 10 s =
      (False, digits_val 10 (takeWhile (is_digit_of 10) s), dropWhile (is_digit_of 10) s)"
    using strto_scan_digit_head [of 10 c cs] by (simp add: Let_def)
  have "dropWhile (is_digit_of 10) s = [] \<longleftrightarrow> list_all (is_digit_of 10) s"
    by (simp add: dropWhile_eq_Nil_conv list_all_iff)
  then show ?thesis
    by (auto simp: strtoul_def scan min_def list_all_iff)
qed

section \<open>Interfaces\<close>

text \<open>
  An encoder with a partial decoder: what is encoded from a valid value decodes to it. The
  canonical kind also refuses every string that is not an encoding.
\<close>

locale codec =
  fixes enc :: "'a \<Rightarrow> 'b"
    and dec :: "'b \<Rightarrow> 'a option"
    and valid :: "'a \<Rightarrow> bool"
  assumes dec_enc: "valid x \<Longrightarrow> dec (enc x) = Some x"
    and dec_valid: "dec y = Some x \<Longrightarrow> valid x"
begin

lemma enc_inj:
  assumes "valid x" and "valid y" and "enc x = enc y"
  shows "x = y"
proof -
  have "Some x = dec (enc y)"
    using dec_enc [OF assms(1)] assms(3) by simp
  also have "\<dots> = Some y"
    using assms(2) by (rule dec_enc)
  finally show ?thesis by simp
qed

lemma dec_onto: "(\<exists>y. dec y = Some x) \<longleftrightarrow> valid x"
proof
  assume "\<exists>y. dec y = Some x"
  then show "valid x" by (auto dest: dec_valid)
next
  assume "valid x"
  then have "dec (enc x) = Some x" by (rule dec_enc)
  then show "\<exists>y. dec y = Some x" ..
qed

end

locale canonical_codec = codec +
  assumes enc_dec: "dec y = Some x \<Longrightarrow> enc x = y"
begin

lemma dec_iff: "dec y = Some x \<longleftrightarrow> valid x \<and> y = enc x"
proof
  assume "dec y = Some x"
  then show "valid x \<and> y = enc x"
    using dec_valid [of y x] enc_dec [of y x] by simp
next
  assume "valid x \<and> y = enc x"
  then show "dec y = Some x"
    using dec_enc [of x] by simp
qed

lemma dec_inj: "dec y = Some x \<Longrightarrow> dec z = Some x \<Longrightarrow> y = z"
  using enc_dec [of y x] enc_dec [of z x] by simp

end

text \<open>
  A loop over a sequence of inputs whose step may fail or not return. \<open>None\<close> is not returning,
  \<open>Inl\<close> an error, \<open>Inr\<close> the next state.
\<close>

type_synonym ('e, 'a) run = "('e + 'a) option"

fun run_steps :: "('i \<Rightarrow> 's \<Rightarrow> ('e, 's) run) \<Rightarrow> 'i list \<Rightarrow> 's \<Rightarrow> ('e, 's) run" where
  "run_steps f [] s = Some (Inr s)"
| "run_steps f (i # is) s =
     (case f i s of
        None \<Rightarrow> None
      | Some (Inl e) \<Rightarrow> Some (Inl e)
      | Some (Inr s') \<Rightarrow> run_steps f is s')"

lemma run_steps_append:
  "run_steps f (is @ js) s =
     (case run_steps f is s of
        None \<Rightarrow> None
      | Some (Inl e) \<Rightarrow> Some (Inl e)
      | Some (Inr s') \<Rightarrow> run_steps f js s')"
  by (induction "is" arbitrary: s) (auto split: option.splits sum.splits)

locale guarded_step =
  fixes step :: "'i \<Rightarrow> 's \<Rightarrow> ('e, 's) run"
    and inv :: "'s \<Rightarrow> bool"
  assumes step_inv: "inv s \<Longrightarrow> step i s = Some (Inr s') \<Longrightarrow> inv s'"
begin

lemma run_inv: "inv s \<Longrightarrow> run_steps step is s = Some (Inr s') \<Longrightarrow> inv s'"
proof (induction "is" arbitrary: s)
  case Nil
  then show ?case by simp
next
  case (Cons i js)
  then obtain t where t: "step i s = Some (Inr t)" "run_steps step js t = Some (Inr s')"
    by (auto split: option.splits sum.splits)
  with Cons.prems(1) have "inv t" by (blast intro: step_inv)
  then show ?case using t(2) by (rule Cons.IH)
qed

end

end
