(* ===== verification/Ctype.thy ===== *)
theory Ctype
  imports WG_Prelude
begin

text \<open>
  The locale-independent character tests of \<open>src/src/ctype.h\<close>, written there without branches.
  Each takes the \<open>int\<close> the C function takes. The lemmas say which characters they accept, for
  every value on which the C expressions do not overflow.
\<close>

definition char_is_space :: "int \<Rightarrow> bool" where
  "char_is_space c =
     (let d = (word_of_int (c - 9) :: u8) in
      drop_bit (unat (d AND 31)) (0x80001F :: u32) AND drop_bit (unat (drop_bit 5 d)) (1 :: u32) \<noteq> 0)"

definition char_is_digit :: "int \<Rightarrow> bool" where
  "char_is_digit c \<longleftrightarrow> drop_bit 31 (word_of_int ((48 - 1 - c) AND (c - (57 + 1))) :: u32) \<noteq> 0"

definition char_is_alpha :: "int \<Rightarrow> bool" where
  "char_is_alpha c \<longleftrightarrow>
     drop_bit 31 (word_of_int ((97 - 1 - (c OR 32)) AND ((c OR 32) - (122 + 1))) :: u32) \<noteq> 0"

section \<open>White space\<close>

lemma space_table_eq: "(0x80001F :: u32) = push_bit 23 1 OR mask 5"
  by (simp add: mask_eq_exp_minus_1)

lemma space_table: "bit (0x80001F :: u32) n \<longleftrightarrow> n \<le> 4 \<or> n = 23"
  by (simp only: space_table_eq bit_or_iff bit_push_bit_iff bit_mask_iff bit_1_iff) auto

lemma char_is_space_mod:
  "char_is_space c \<longleftrightarrow> (c - 9) mod 256 \<le> 4 \<or> (c - 9) mod 256 = 23"
proof -
  define d where "d = (word_of_int (c - 9) :: u8)"
  define n where "n = unat d"
  have "int n = uint d"
    by (simp add: n_def)
  also have "\<dots> = (c - 9) mod 256"
    by (simp only: d_def uint_word_of_int) simp
  finally have n: "int n = (c - 9) mod 256" .
  have sh: "unat (drop_bit 5 d) = n div 32"
    by (simp only: n_def unat_drop_bit_eq) (simp add: drop_bit_eq_div)
  have "d AND 31 = take_bit 5 d"
    by (simp add: take_bit_eq_mask mask_eq_exp_minus_1)
  then have lo: "unat (d AND 31) = n mod 32"
    by (simp only: n_def unsigned_take_bit_eq) (simp add: take_bit_eq_mod)
  have eq: "char_is_space c \<longleftrightarrow>
      drop_bit (n mod 32) (0x80001F :: u32) AND drop_bit (n div 32) (1 :: u32) \<noteq> 0"
    by (simp only: char_is_space_def Let_def sh lo flip: d_def)
  have "char_is_space c \<longleftrightarrow> n < 32 \<and> bit (0x80001F :: u32) n"
  proof (cases "n < 32")
    case True
    then show ?thesis
      by (simp add: eq bit_iff_odd_drop_bit and_one_eq odd_iff_mod_2_eq_one)
  next
    case False
    then have "0 < n div 32" by (simp add: div_greater_zero_iff)
    then have "drop_bit (n div 32) (1 :: u32) = 0"
      by (intro bit_eqI) (simp add: bit_simps)
    with False show ?thesis
      by (simp only: eq) simp
  qed
  also have "\<dots> \<longleftrightarrow> int n \<le> 4 \<or> int n = 23"
    unfolding space_table by auto
  finally show ?thesis by (simp only: n)
qed

lemma char_is_space_iff:
  assumes "- 128 \<le> c" and "c < 256"
  shows "char_is_space c \<longleftrightarrow> c = 32 \<or> 9 \<le> c \<and> c \<le> 13"
proof (cases "9 \<le> c")
  case True
  with assms show ?thesis by (auto simp: char_is_space_mod)
next
  case False
  with assms have "(c - 9) mod 256 = c - 9 + 256"
    by (intro int_mod_pos_eq [where q = "- 1"]) auto
  with assms False show ?thesis by (auto simp: char_is_space_mod)
qed

lemma char_is_space_char [simp]: "char_is_space (c_int c) \<longleftrightarrow> isspace_c c"
proof -
  obtain n where n: "(of_char c :: nat) = n" "n < 256"
    using of_char_nat_bound by blast
  moreover have "c = CHR '' '' \<longleftrightarrow> n = 32"
    using of_char_eq_iff [where 'a = nat, of c "CHR '' ''"] n by simp
  ultimately show ?thesis
    using c_int_bounds [of c]
    by (auto simp: char_is_space_iff c_int_def of_char_int isspace_c_def n(1))
qed

section \<open>Digits and letters\<close>

lemma sign_bit_iff:
  assumes "- 2147483648 \<le> x" and "x < 2147483648"
  shows "drop_bit 31 (word_of_int x :: u32) \<noteq> 0 \<longleftrightarrow> x < 0"
proof -
  have "drop_bit 31 (word_of_int x :: u32) \<noteq> 0 \<longleftrightarrow> uint (drop_bit 31 (word_of_int x :: u32)) \<noteq> 0"
    by (simp only: uint_0_iff)
  also have "uint (drop_bit 31 (word_of_int x :: u32)) = (x mod 4294967296) div 2147483648"
    by (simp only: unsigned_drop_bit_eq uint_word_of_int) (simp add: take_bit_eq_mod drop_bit_eq_div)
  also have "\<dots> \<noteq> 0 \<longleftrightarrow> x < 0"
  proof (cases "x < 0")
    case True
    with assms have "x mod 4294967296 = x + 4294967296"
      by (intro int_mod_pos_eq [where q = "- 1"]) auto
    with True assms show ?thesis by auto
  next
    case False
    with assms show ?thesis by simp
  qed
  finally show ?thesis .
qed

lemma int_and_small:
  fixes a b :: int
  assumes "- 2147483648 \<le> a" "a < 2147483648" "- 2147483648 \<le> b" "b < 2147483648"
  shows "- 2147483648 \<le> a AND b" "a AND b < 2147483648"
proof -
  have *: "drop_bit 31 y \<in> {- 1, 0}" if "- 2147483648 \<le> y" "y < 2147483648" for y :: int
  proof (cases "y < 0")
    case True
    with that have "y div 2147483648 = - 1"
      by (intro int_div_pos_eq [where r = "y + 2147483648"]) auto
    then show ?thesis by (simp add: drop_bit_eq_div)
  next
    case False
    with that show ?thesis by (simp add: drop_bit_eq_div)
  qed
  have "drop_bit 31 (a AND b) \<in> {- 1, 0}"
    using * [OF assms(1,2)] * [OF assms(3,4)] by (auto simp: drop_bit_and)
  then have "(a AND b) div 2147483648 = - 1 \<or> (a AND b) div 2147483648 = 0"
    by (auto simp: drop_bit_eq_div)
  then show "- 2147483648 \<le> a AND b" "a AND b < 2147483648" by auto
qed

lemma char_is_digit_iff:
  assumes "- 2147483590 \<le> c" and "c < 2147483648"
  shows "char_is_digit c \<longleftrightarrow> 48 \<le> c \<and> c \<le> 57"
proof -
  have "char_is_digit c \<longleftrightarrow> (48 - 1 - c) AND (c - (57 + 1)) < 0"
    unfolding char_is_digit_def by (rule sign_bit_iff) (rule int_and_small; use assms in simp)+
  then show ?thesis by auto
qed

lemma char_is_digit_char [simp]: "char_is_digit (c_int c) \<longleftrightarrow> is_digit_of 10 c"
proof -
  obtain n where n: "(of_char c :: nat) = n" "n < 256"
    using of_char_nat_bound by blast
  then show ?thesis
    using c_int_bounds [of c]
    by (auto simp: char_is_digit_iff c_int_def is_digit_of_10 of_char_int n(1))
qed

lemma int_or_32_bounds:
  fixes c :: int
  assumes "- 128 \<le> c" and "c < 256"
  shows "- 256 \<le> c OR 32" and "c OR 32 < 256"
proof -
  have "drop_bit 8 c \<in> {- 1, 0}"
    using asr_8_mask [of c] assms by (auto simp: asr_def)
  then have "drop_bit 8 (c OR 32) \<in> {- 1, 0}"
    by (auto simp: drop_bit_or)
  then have "(c OR 32) div 256 = - 1 \<or> (c OR 32) div 256 = 0"
    by (auto simp: drop_bit_eq_div)
  then show "- 256 \<le> c OR 32" and "c OR 32 < 256" by auto
qed

lemma char_is_alpha_iff:
  assumes "- 128 \<le> c" and "c < 256"
  shows "char_is_alpha c \<longleftrightarrow> 97 \<le> c OR 32 \<and> c OR 32 \<le> 122"
proof -
  have "char_is_alpha c \<longleftrightarrow> (97 - 1 - (c OR 32)) AND ((c OR 32) - (122 + 1)) < 0"
    unfolding char_is_alpha_def
    by (rule sign_bit_iff) (rule int_and_small; use int_or_32_bounds [OF assms] in simp)+
  then show ?thesis by auto
qed

section \<open>Properties\<close>

text \<open>
  the branchless character classes agree with the ASCII classes on every \<open>char\<close>: white space,
  decimal digits, and letters of either case.
\<close>

theorem ctype_ascii:
  "(char_is_space (c_int c) \<longleftrightarrow> isspace_c c) \<and> (char_is_digit (c_int c) \<longleftrightarrow> is_digit_of 10 c)
   \<and> (char_is_alpha (c_int c) \<longleftrightarrow> 97 \<le> c_int c OR 32 \<and> c_int c OR 32 \<le> 122)"
  using c_int_bounds [of c] by (simp add: char_is_alpha_iff)

end
