(* ===== verification/Encoding.thy ===== *)
theory Encoding
  imports Ctype
begin

text \<open>
  The branch-free base64 and hexadecimal codecs for 32-byte keys of \<open>src/src/encoding.c\<close>.

  A key is the list of its bytes. \<open>key_from_base64\<close> and \<open>key_from_hex\<close> return \<open>None\<close> where the C
  function returns false; the accumulated error byte and the final \<open>1 & ((ret - 1) >> 8)\<close> are
  computed as the C code computes them. The lemmas show that both encoders and decoders invert each
  other, that base64 decoding accepts the canonical encodings only, that hexadecimal decoding
  accepts exactly the strings of 64 hexadecimal digits, and provide them to the other theories as
  interpretations of the codec interfaces.
\<close>

section \<open>The code\<close>

type_synonym key = "u8 list"

definition WG_KEY_LEN :: nat where
  "WG_KEY_LEN = 32"

definition WG_KEY_LEN_BASE64 :: nat where
  "WG_KEY_LEN_BASE64 = ((WG_KEY_LEN + 2) div 3) * 4 + 1"

definition WG_KEY_LEN_HEX :: nat where
  "WG_KEY_LEN_HEX = WG_KEY_LEN * 2 + 1"

definition base64_char :: "int \<Rightarrow> char" where
  "base64_char i =
     char_of (i + 65 + (asr (25 - i) 8 AND 6) - (asr (51 - i) 8 AND 75)
              - (asr (61 - i) 8 AND 15) + (asr (62 - i) 8 AND 3))"

definition encode_base64 :: "u8 \<Rightarrow> u8 \<Rightarrow> u8 \<Rightarrow> string" where
  "encode_base64 s0 s1 s2 =
     map base64_char
       [drop_bit 2 (uint s0) AND 63,
        (push_bit 4 (uint s0) OR drop_bit 4 (uint s1)) AND 63,
        (push_bit 2 (uint s1) OR drop_bit 6 (uint s2)) AND 63,
        uint s2 AND 63]"

definition key_to_base64 :: "key \<Rightarrow> string" where
  "key_to_base64 key =
     (let groups = concat (map (\<lambda>i. encode_base64 (key ! (i * 3)) (key ! (i * 3 + 1)) (key ! (i * 3 + 2)))
                               [0..<WG_KEY_LEN div 3]);
          i = WG_KEY_LEN div 3;
          buf = groups @ encode_base64 (key ! (i * 3)) (key ! (i * 3 + 1)) 0
      in buf[WG_KEY_LEN_BASE64 - 2 := CHR ''=''])"

definition decode_base64_char :: "char \<Rightarrow> int" where
  "decode_base64_char c =
     (let s = c_int c in
      - 1
      + (asr (((65 - 1) - s) AND (s - (90 + 1))) 8 AND (s - 64))
      + (asr (((97 - 1) - s) AND (s - (122 + 1))) 8 AND (s - 70))
      + (asr (((48 - 1) - s) AND (s - (57 + 1))) 8 AND (s + 5))
      + (asr (((43 - 1) - s) AND (s - (43 + 1))) 8 AND 63)
      + (asr (((47 - 1) - s) AND (s - (47 + 1))) 8 AND 64))"

definition decode_base64 :: "char \<Rightarrow> char \<Rightarrow> char \<Rightarrow> char \<Rightarrow> u32" where
  "decode_base64 c0 c1 c2 c3 =
     0 OR push_bit 18 (word_of_int (decode_base64_char c0))
       OR push_bit 12 (word_of_int (decode_base64_char c1))
       OR push_bit 6 (word_of_int (decode_base64_char c2))
       OR push_bit 0 (word_of_int (decode_base64_char c3))"

text \<open>The bytes of a group, and the final test of the error byte.\<close>

definition val_byte :: "nat \<Rightarrow> u32 \<Rightarrow> u8" where
  "val_byte n val = ucast (drop_bit n val AND 0xff)"

definition ret_ok :: "u8 \<Rightarrow> bool" where
  "ret_ok ret \<longleftrightarrow> 1 AND asr (uint ret - 1) 8 \<noteq> 0"

definition key_from_base64 :: "string \<Rightarrow> key option" where
  "key_from_base64 base64 =
     (if length base64 \<noteq> WG_KEY_LEN_BASE64 - 1 \<or> base64 ! (WG_KEY_LEN_BASE64 - 2) \<noteq> CHR ''='' then None
      else
        let vals = map (\<lambda>i. decode_base64 (base64 ! (i * 4)) (base64 ! (i * 4 + 1))
                                         (base64 ! (i * 4 + 2)) (base64 ! (i * 4 + 3)))
                       [0..<WG_KEY_LEN div 3];
            ret = foldl (\<lambda>r v. r OR ucast (drop_bit 31 v)) (0 :: u8) vals;
            key = concat (map (\<lambda>v. [val_byte 16 v, val_byte 8 v, val_byte 0 v]) vals);
            i = WG_KEY_LEN div 3;
            val = decode_base64 (base64 ! (i * 4)) (base64 ! (i * 4 + 1)) (base64 ! (i * 4 + 2)) (CHR ''A'');
            ret' = ret OR ucast (drop_bit 31 val OR (val AND 0xff))
        in if ret_ok ret' then Some (key @ [val_byte 16 val, val_byte 8 val]) else None)"

definition hex_char :: "u32 \<Rightarrow> char" where
  "hex_char n = char_of (unat (87 + n + (drop_bit 8 (n - 10) AND NOT 38)))"

definition key_to_hex :: "key \<Rightarrow> string" where
  "key_to_hex key =
     concat (map (\<lambda>i. [hex_char (drop_bit 4 (ucast (key ! i))), hex_char (ucast (key ! i) AND 0xf)])
                 [0..<WG_KEY_LEN])"

text \<open>
  One hexadecimal digit: its contribution to the error byte and its value. Every variable is a
  \<open>uint8_t\<close>, every operation is on \<open>unsigned int\<close> and truncated on assignment.
\<close>

definition hex_digit :: "char \<Rightarrow> u8 \<times> u8" where
  "hex_digit ch =
     (let c = (of_char ch :: u8);
          c_num = ucast (ucast c XOR (48 :: u32)) :: u8;
          c_num0 = ucast (drop_bit 8 (ucast c_num - (10 :: u32))) :: u8;
          c_alpha = ucast ((ucast c AND NOT (32 :: u32)) - 55) :: u8;
          c_alpha0 = ucast (drop_bit 8 ((ucast c_alpha - (10 :: u32)) XOR (ucast c_alpha - 16))) :: u8;
          bad = word_of_int (asr (uint (c_num0 OR c_alpha0) - 1) 8) :: u8;
          c_val = (c_num0 AND c_num) OR (c_alpha0 AND c_alpha)
      in (bad, c_val))"

definition key_from_hex :: "string \<Rightarrow> key option" where
  "key_from_hex hex =
     (if length hex \<noteq> WG_KEY_LEN_HEX - 1 then None
      else
        let pairs = map (\<lambda>i. (hex_digit (hex ! (2 * i)), hex_digit (hex ! (2 * i + 1)))) [0..<WG_KEY_LEN];
            ret = foldl (\<lambda>r ((b0, _), (b1, _)). (r OR b0) OR b1) (0 :: u8) pairs;
            key = map (\<lambda>((_, v0), (_, v1)). (ucast (ucast v0 * (16 :: u32)) :: u8) OR v1) pairs
        in if ret_ok ret then Some key else None)"

definition key_is_zero :: "key \<Rightarrow> bool" where
  "key_is_zero key \<longleftrightarrow> ret_ok (foldl (\<lambda>acc b. acc OR b) 0 key)"

definition wf_key :: "key \<Rightarrow> bool" where
  "wf_key k \<longleftrightarrow> length k = WG_KEY_LEN"

lemmas key_len_defs = WG_KEY_LEN_def WG_KEY_LEN_BASE64_def WG_KEY_LEN_HEX_def

section \<open>One base64 character\<close>

definition sextet :: "int \<Rightarrow> bool" where
  "sextet v \<longleftrightarrow> 0 \<le> v \<and> v < 64"

lemma base64_char_eq:
  assumes "sextet i"
  shows "base64_char i = char_of
    (if i \<le> 25 then i + 65 else if i \<le> 51 then i + 71 else if i \<le> 61 then i - 4 else if i = 62 then 43 else 47)"
  using assms by (auto simp: base64_char_def sextet_def asr_8_mask)

lemma decode_base64_char_eq:
  "decode_base64_char c =
     (let s = c_int c in
      if 65 \<le> s \<and> s \<le> 90 then s - 65
      else if 97 \<le> s \<and> s \<le> 122 then s - 71
      else if 48 \<le> s \<and> s \<le> 57 then s + 4
      else if s = 43 then 62 else if s = 47 then 63 else - 1)"
proof -
  note b = c_int_bounds [of c]
  show ?thesis
    unfolding decode_base64_char_def Let_def
    using b by (subst asr_8_and_mask, simp, simp, simp, simp)+ auto
qed

lemma decode_base64_char_range: "decode_base64_char c = - 1 \<or> sextet (decode_base64_char c)"
  by (auto simp: decode_base64_char_eq sextet_def Let_def)

lemma c_int_char_of: "0 \<le> n \<Longrightarrow> n < 128 \<Longrightarrow> c_int (char_of (n :: int)) = n"
  by (simp add: c_int_def)

lemma decode_base64_char_base64_char: "sextet i \<Longrightarrow> decode_base64_char (base64_char i) = i"
  by (auto simp: decode_base64_char_eq base64_char_eq sextet_def Let_def c_int_char_of)

lemma char_of_c_int: "0 \<le> c_int c \<Longrightarrow> char_of (c_int c) = c"
  using of_char_int_bounds [of c] by (auto simp: c_int_def split: if_splits)

lemma base64_char_decode_base64_char:
  assumes "sextet (decode_base64_char c)"
  shows "base64_char (decode_base64_char c) = c"
proof -
  have "c_int c = 43 \<or> c_int c = 47 \<or> 0 \<le> c_int c"
    using assms by (auto simp: decode_base64_char_eq sextet_def Let_def split: if_splits)
  then have "char_of (c_int c) = c" using char_of_c_int [of c] by auto
  then show ?thesis
    using assms by (auto simp: base64_char_eq decode_base64_char_eq sextet_def Let_def split: if_splits)
qed

section \<open>One base64 group\<close>

lemma check_below: "list_all P [0..<k] \<Longrightarrow> n < k \<Longrightarrow> P n"
  by (simp add: list_all_iff)

lemma u8_eqI:
  fixes x y :: u8
  assumes "bit x 0 = bit y 0" "bit x 1 = bit y 1" "bit x 2 = bit y 2" "bit x 3 = bit y 3"
    "bit x 4 = bit y 4" "bit x 5 = bit y 5" "bit x 6 = bit y 6" "bit x 7 = bit y 7"
  shows "x = y"
proof (rule bit_word_eqI)
  fix n
  assume "n < LENGTH(8)"
  moreover have "list_all (\<lambda>n. bit x n = bit y n) [0..<8]"
    using assms by (simp add: upt_rec numeral_eq_Suc)
  ultimately show "bit x n = bit y n" by (auto dest: check_below)
qed

lemma sextet_iff_take_bit: "sextet v \<longleftrightarrow> take_bit 6 v = v"
  by (simp add: sextet_def take_bit_int_eq_self_iff)

lemma sextet_bit: "sextet v \<Longrightarrow> bit v n \<Longrightarrow> n < 6"
  by (metis sextet_iff_take_bit bit_take_bit_iff)

lemma sextet_and_63 [simp]: "sextet (x AND 63)"
proof -
  have "x AND 63 = take_bit 6 x"
    by (simp add: take_bit_eq_mask mask_eq_exp_minus_1)
  then show ?thesis by (simp add: sextet_iff_take_bit)
qed

lemma sextet_0 [simp]: "sextet 0"
  by (simp add: sextet_def)

lemma sextet_eqI:
  assumes "sextet v" "sextet w" "bit v 0 = bit w 0" "bit v 1 = bit w 1" "bit v 2 = bit w 2"
    "bit v 3 = bit w 3" "bit v 4 = bit w 4" "bit v 5 = bit w 5"
  shows "v = w"
proof (rule bit_eqI)
  fix n
  show "bit v n = bit w n"
  proof (cases "n < 6")
    case True
    moreover have "list_all (\<lambda>n. bit v n = bit w n) [0..<6]"
      using assms by (simp add: upt_rec numeral_eq_Suc)
    ultimately show ?thesis by (rule check_below [rotated])
  next
    case False
    with assms(1,2) show ?thesis by (auto dest: sextet_bit)
  qed
qed

definition group_val :: "int \<Rightarrow> int \<Rightarrow> int \<Rightarrow> int \<Rightarrow> u32" where
  "group_val v0 v1 v2 v3 =
     0 OR push_bit 18 (word_of_int v0) OR push_bit 12 (word_of_int v1)
       OR push_bit 6 (word_of_int v2) OR push_bit 0 (word_of_int v3)"

lemma decode_base64_group:
  "decode_base64 c0 c1 c2 c3 =
     group_val (decode_base64_char c0) (decode_base64_char c1) (decode_base64_char c2) (decode_base64_char c3)"
  by (simp add: decode_base64_def group_val_def)

lemma bit_group_val:
  "bit (group_val v0 v1 v2 v3) n \<longleftrightarrow>
     n < 32 \<and> (18 \<le> n \<and> bit v0 (n - 18) \<or> 12 \<le> n \<and> bit v1 (n - 12) \<or> 6 \<le> n \<and> bit v2 (n - 6) \<or> bit v3 n)"
  by (auto simp: group_val_def bit_simps)

lemma bit_val_byte: "bit (val_byte m v) n \<longleftrightarrow> n < 8 \<and> bit v (m + n)"
proof -
  have "drop_bit m v AND 0xff = take_bit 8 (drop_bit m v)"
    by (simp add: take_bit_eq_mask mask_eq_exp_minus_1)
  then show ?thesis by (auto simp: val_byte_def bit_simps)
qed

lemma sextet_high_bit: "sextet v \<Longrightarrow> 6 \<le> n \<Longrightarrow> \<not> bit v n"
  using sextet_bit by fastforce

lemmas sextet_high_bits =
  sextet_high_bit [where n = 6, simplified] sextet_high_bit [where n = 7, simplified]
  sextet_high_bit [where n = 8, simplified] sextet_high_bit [where n = 9, simplified]
  sextet_high_bit [where n = 10, simplified] sextet_high_bit [where n = 11, simplified]
  sextet_high_bit [where n = 12, simplified] sextet_high_bit [where n = 13, simplified]
  sextet_high_bit [where n = 14, simplified] sextet_high_bit [where n = 15, simplified]
  sextet_high_bit [where n = 16, simplified] sextet_high_bit [where n = 17, simplified]
  sextet_high_bit [where n = 18, simplified] sextet_high_bit [where n = 19, simplified]
  sextet_high_bit [where n = 20, simplified] sextet_high_bit [where n = 21, simplified]
  sextet_high_bit [where n = 22, simplified] sextet_high_bit [where n = 23, simplified]
  sextet_high_bit [where n = 25, simplified] sextet_high_bit [where n = 31, simplified]

text \<open>The error bit of a group is set exactly when one of its characters is not in the alphabet.\<close>

lemma group_val_sign:
  assumes "v0 = - 1 \<or> sextet v0" "v1 = - 1 \<or> sextet v1" "v2 = - 1 \<or> sextet v2" "v3 = - 1 \<or> sextet v3"
  shows "bit (group_val v0 v1 v2 v3) 31 \<longleftrightarrow> \<not> (sextet v0 \<and> sextet v1 \<and> sextet v2 \<and> sextet v3)"
proof -
  have "bit v n \<longleftrightarrow> \<not> sextet v" if "v = - 1 \<or> sextet v" "6 \<le> n" for v :: int and n
    using that
  proof (elim disjE)
    assume "v = - 1"
    then show ?thesis by (simp add: sextet_def)
  next
    assume "sextet v"
    with that(2) show ?thesis by (simp add: sextet_high_bit)
  qed
  with assms show ?thesis by (simp add: bit_group_val)
qed

lemma bit_and_63: "bit (x AND 63) n \<longleftrightarrow> n < 6 \<and> bit (x :: int) n"
proof -
  have "x AND 63 = take_bit 6 x"
    by (simp add: take_bit_eq_mask mask_eq_exp_minus_1)
  then show ?thesis by (simp add: bit_take_bit_iff)
qed

lemma bit_u8_high: "8 \<le> n \<Longrightarrow> \<not> bit (s :: u8) n"
  using bit_imp_le_length [of s n] by auto

lemmas base64_bits = bit_group_val bit_val_byte bit_and_63 bit_or_iff bit_push_bit_iff bit_drop_bit_eq
  bit_unsigned_iff bit_u8_high

lemma sextets_of_bytes:
  fixes s0 s1 s2 :: u8
  defines "v0 \<equiv> drop_bit 2 (uint s0) AND 63"
    and "v1 \<equiv> (push_bit 4 (uint s0) OR drop_bit 4 (uint s1)) AND 63"
    and "v2 \<equiv> (push_bit 2 (uint s1) OR drop_bit 6 (uint s2)) AND 63"
    and "v3 \<equiv> uint s2 AND 63"
  shows "val_byte 16 (group_val v0 v1 v2 v3) = s0"
    and "val_byte 8 (group_val v0 v1 v2 v3) = s1"
    and "val_byte 0 (group_val v0 v1 v2 v3) = s2"
  unfolding v0_def v1_def v2_def v3_def
  by (rule u8_eqI; simp add: base64_bits flip: numeral_2_eq_2)+

lemma bytes_of_sextets:
  assumes "sextet v0" "sextet v1" "sextet v2" "sextet v3"
  defines "val \<equiv> group_val v0 v1 v2 v3"
  shows "drop_bit 2 (uint (val_byte 16 val)) AND 63 = v0"
    and "(push_bit 4 (uint (val_byte 16 val)) OR drop_bit 4 (uint (val_byte 8 val))) AND 63 = v1"
    and "(push_bit 2 (uint (val_byte 8 val)) OR drop_bit 6 (uint (val_byte 0 val))) AND 63 = v2"
    and "uint (val_byte 0 val) AND 63 = v3"
  unfolding val_def
  by (rule sextet_eqI; simp add: assms base64_bits sextet_high_bits flip: numeral_2_eq_2)+

text \<open>Encoding a group and decoding it, in both directions.\<close>

lemma decode_encode_group:
  assumes "encode_base64 s0 s1 s2 = [c0, c1, c2, c3]"
  shows "decode_base64 c0 c1 c2 c3 =
      group_val (drop_bit 2 (uint s0) AND 63) ((push_bit 4 (uint s0) OR drop_bit 4 (uint s1)) AND 63)
        ((push_bit 2 (uint s1) OR drop_bit 6 (uint s2)) AND 63) (uint s2 AND 63)"
  using assms by (auto simp: decode_base64_group encode_base64_def decode_base64_char_base64_char)

lemma encode_decode_group:
  assumes "\<not> bit (decode_base64 c0 c1 c2 c3) 31"
  defines "val \<equiv> decode_base64 c0 c1 c2 c3"
  shows "encode_base64 (val_byte 16 val) (val_byte 8 val) (val_byte 0 val) = [c0, c1, c2, c3]"
proof -
  have s: "sextet (decode_base64_char c0)" "sextet (decode_base64_char c1)"
    "sextet (decode_base64_char c2)" "sextet (decode_base64_char c3)"
    using assms(1) group_val_sign [OF decode_base64_char_range [of c0] decode_base64_char_range [of c1]
        decode_base64_char_range [of c2] decode_base64_char_range [of c3]]
    by (auto simp: decode_base64_group)
  note val = val_def [unfolded decode_base64_group]
  show ?thesis
    unfolding val encode_base64_def list.map bytes_of_sextets [OF s]
    by (simp add: base64_char_decode_base64_char s)
qed

lemma length_encode_base64 [simp]: "length (encode_base64 s0 s1 s2) = 4"
  by (simp add: encode_base64_def)

section \<open>Base64 keys\<close>

lemma ret_ok_iff: "ret_ok r \<longleftrightarrow> r = 0"
proof -
  obtain n where n: "uint r = n" "0 \<le> n" "n < 256"
    using uint_lt2p [of r] by simp
  then have "asr (uint r - 1) 8 = (if n = 0 then - 1 else 0)"
    by (simp add: n(1)) (subst asr_8_mask; simp)+
  then show ?thesis
    using n(1) by (auto simp: ret_ok_def uint_0_iff)
qed

lemma foldl_or_zero:
  fixes r :: "'b::len word"
  shows "foldl (\<lambda>r v. r OR g v) r xs = 0 \<longleftrightarrow> r = 0 \<and> (\<forall>v \<in> set xs. g v = 0)"
  by (induction xs arbitrary: r) (auto simp: or_eq_0_iff)

lemma sign_byte_zero_iff: "(ucast (drop_bit 31 v) :: u8) = 0 \<longleftrightarrow> \<not> bit (v :: u32) 31"
proof -
  have "bit (ucast (drop_bit 31 v) :: u8) n \<longleftrightarrow> n = 0 \<and> bit v 31" for n
    using bit_imp_le_length [of v "31 + n"] by (auto simp: bit_simps)
  then show ?thesis
    by (metis (full_types) bit_0_eq bit_eqI bot_apply bot_bool_def)
qed

lemma sign_and_low_byte_zero_iff:
  "(ucast (drop_bit 31 v OR (v AND 0xff)) :: u8) = 0 \<longleftrightarrow> \<not> bit (v :: u32) 31 \<and> val_byte 0 v = 0"
proof -
  have "(ucast (drop_bit 31 v OR (v AND 0xff)) :: u8) = ucast (drop_bit 31 v) OR val_byte 0 v"
    by (simp add: val_byte_def unsigned_or_eq)
  then show ?thesis by (simp add: or_eq_0_iff sign_byte_zero_iff)
qed

definition key_groups :: "key \<Rightarrow> nat \<Rightarrow> string" where
  "key_groups k i = encode_base64 (k ! (i * 3)) (k ! (i * 3 + 1)) (k ! (i * 3 + 2))"

definition key_last :: "key \<Rightarrow> string" where
  "key_last k = take 3 (encode_base64 (k ! 30) (k ! 31) 0)"

lemma key_to_base64_eq:
  "key_to_base64 k = concat (map (key_groups k) [0..<10]) @ key_last k @ ''=''"
proof -
  obtain c0 c1 c2 c3 where e: "encode_base64 (k ! 30) (k ! 31) 0 = [c0, c1, c2, c3]"
    by (simp add: encode_base64_def)
  have len: "length (concat (map (key_groups k) [0..<10])) = 40"
    using length_concat_blocks [of 10 "key_groups k" 4] by (simp add: key_groups_def)
  show ?thesis
    unfolding key_to_base64_def Let_def key_len_defs key_groups_def [symmetric]
    using len by (simp add: e key_last_def list_update_append)
qed

lemma length_key_to_base64 [simp]: "length (key_to_base64 k) = 44"
  using length_concat_blocks [of 10 "key_groups k" 4]
  by (simp add: key_to_base64_eq key_groups_def key_last_def)

lemma key_to_base64_nth:
  assumes "i < 10" and "j < 4"
  shows "key_to_base64 k ! (i * 4 + j) = key_groups k i ! j"
proof -
  have len: "length (concat (map (key_groups k) [0..<10])) = 40"
    using length_concat_blocks [of 10 "key_groups k" 4] by (simp add: key_groups_def)
  from assms have "i * 4 + j < 40" by simp
  with len assms show ?thesis
    using nth_concat_blocks [of 10 "key_groups k" 4 i j]
    by (simp add: key_to_base64_eq nth_append key_groups_def)
qed

lemma key_to_base64_tail:
  "key_to_base64 k ! 40 = encode_base64 (k ! 30) (k ! 31) 0 ! 0"
  "key_to_base64 k ! 41 = encode_base64 (k ! 30) (k ! 31) 0 ! 1"
  "key_to_base64 k ! 42 = encode_base64 (k ! 30) (k ! 31) 0 ! 2"
  "key_to_base64 k ! 43 = CHR ''=''"
proof -
  have len: "length (concat (map (key_groups k) [0..<10])) = 40"
    using length_concat_blocks [of 10 "key_groups k" 4] by (simp add: key_groups_def)
  show "key_to_base64 k ! 40 = encode_base64 (k ! 30) (k ! 31) 0 ! 0"
    "key_to_base64 k ! 41 = encode_base64 (k ! 30) (k ! 31) 0 ! 1"
    "key_to_base64 k ! 42 = encode_base64 (k ! 30) (k ! 31) 0 ! 2"
    "key_to_base64 k ! 43 = CHR ''=''"
    by (simp_all add: key_to_base64_eq nth_append len key_last_def)
qed

text \<open>The decoder with its groups named: what it checks and what it returns.\<close>

definition base64_group :: "string \<Rightarrow> nat \<Rightarrow> u32" where
  "base64_group s i = decode_base64 (s ! (i * 4)) (s ! (i * 4 + 1)) (s ! (i * 4 + 2)) (s ! (i * 4 + 3))"

definition base64_tail :: "string \<Rightarrow> u32" where
  "base64_tail s = decode_base64 (s ! 40) (s ! 41) (s ! 42) (CHR ''A'')"

lemma key_from_base64_Some_iff:
  "key_from_base64 s = Some k \<longleftrightarrow>
     length s = 44 \<and> s ! 43 = CHR ''='' \<and> (\<forall>i < 10. \<not> bit (base64_group s i) 31)
     \<and> \<not> bit (base64_tail s) 31 \<and> val_byte 0 (base64_tail s) = 0
     \<and> k = concat (map (\<lambda>i. [val_byte 16 (base64_group s i), val_byte 8 (base64_group s i), val_byte 0 (base64_group s i)])
                       [0..<10])
           @ [val_byte 16 (base64_tail s), val_byte 8 (base64_tail s)]"
proof -
  have ret: "ret_ok (foldl (\<lambda>r v. r OR ucast (drop_bit 31 v)) (0 :: u8) (map (base64_group s) [0..<10])
        OR ucast (drop_bit 31 (base64_tail s) OR (base64_tail s AND 0xff)))
      \<longleftrightarrow> (\<forall>i < 10. \<not> bit (base64_group s i) 31) \<and> \<not> bit (base64_tail s) 31 \<and> val_byte 0 (base64_tail s) = 0"
    by (simp only: ret_ok_iff or_eq_0_iff foldl_or_zero sign_byte_zero_iff sign_and_low_byte_zero_iff) auto
  have "key_from_base64 s =
     (if length s \<noteq> 44 \<or> s ! 43 \<noteq> CHR ''='' then None
      else if ret_ok (foldl (\<lambda>r v. r OR ucast (drop_bit 31 v)) (0 :: u8) (map (base64_group s) [0..<10])
              OR ucast (drop_bit 31 (base64_tail s) OR (base64_tail s AND 0xff)))
      then Some (concat (map ((\<lambda>v. [val_byte 16 v, val_byte 8 v, val_byte 0 v]) \<circ> base64_group s) [0..<10])
             @ [val_byte 16 (base64_tail s), val_byte 8 (base64_tail s)])
      else None)"
    unfolding key_from_base64_def Let_def key_len_defs
    by (simp add: base64_group_def [abs_def] base64_tail_def)
  then show ?thesis
    unfolding ret by (auto simp: comp_def)
qed

lemma encode_base64_nths: "encode_base64 a b c = [x0, x1, x2, x3] \<Longrightarrow>
    encode_base64 a b c ! 0 = x0 \<and> encode_base64 a b c ! 1 = x1 \<and>
    encode_base64 a b c ! 2 = x2 \<and> encode_base64 a b c ! 3 = x3"
  by simp

lemma encode_base64_list4:
  "encode_base64 a b c = [encode_base64 a b c ! 0, encode_base64 a b c ! 1, encode_base64 a b c ! 2, encode_base64 a b c ! 3]"
  by (simp add: encode_base64_def)

lemma base64_group_key:
  assumes "i < 10"
  shows "\<not> bit (base64_group (key_to_base64 k) i) 31"
    and "val_byte 16 (base64_group (key_to_base64 k) i) = k ! (i * 3)"
    and "val_byte 8 (base64_group (key_to_base64 k) i) = k ! (i * 3 + 1)"
    and "val_byte 0 (base64_group (key_to_base64 k) i) = k ! (i * 3 + 2)"
proof -
  have n: "key_to_base64 k ! (i * 4) = key_groups k i ! 0" "key_to_base64 k ! (i * 4 + 1) = key_groups k i ! 1"
    "key_to_base64 k ! (i * 4 + 2) = key_groups k i ! 2" "key_to_base64 k ! (i * 4 + 3) = key_groups k i ! 3"
    using key_to_base64_nth [OF assms, of 0 k] key_to_base64_nth [OF assms, of 1 k]
      key_to_base64_nth [OF assms, of 2 k] key_to_base64_nth [OF assms, of 3 k] by simp_all
  note g = decode_encode_group [OF encode_base64_list4 [of "k ! (i * 3)" "k ! (i * 3 + 1)" "k ! (i * 3 + 2)"]]
  show "val_byte 16 (base64_group (key_to_base64 k) i) = k ! (i * 3)"
    and "val_byte 8 (base64_group (key_to_base64 k) i) = k ! (i * 3 + 1)"
    and "val_byte 0 (base64_group (key_to_base64 k) i) = k ! (i * 3 + 2)"
    unfolding base64_group_def n key_groups_def g by (rule sextets_of_bytes)+
  show "\<not> bit (base64_group (key_to_base64 k) i) 31"
    unfolding base64_group_def n key_groups_def g by (subst group_val_sign) simp_all
qed

lemma base64_tail_key:
  "\<not> bit (base64_tail (key_to_base64 k)) 31" "val_byte 0 (base64_tail (key_to_base64 k)) = 0"
  "val_byte 16 (base64_tail (key_to_base64 k)) = k ! 30" "val_byte 8 (base64_tail (key_to_base64 k)) = k ! 31"
proof -
  have "encode_base64 (k ! 30) (k ! 31) 0 ! 3 = CHR ''A''"
    by (simp add: encode_base64_def base64_char_eq sextet_def char_of_eq_iff)
  then have t: "base64_tail (key_to_base64 k) = decode_base64 (encode_base64 (k ! 30) (k ! 31) 0 ! 0)
      (encode_base64 (k ! 30) (k ! 31) 0 ! 1) (encode_base64 (k ! 30) (k ! 31) 0 ! 2) (encode_base64 (k ! 30) (k ! 31) 0 ! 3)"
    by (simp only: base64_tail_def key_to_base64_tail)
  note g = decode_encode_group [OF encode_base64_list4 [of "k ! 30" "k ! 31" 0]]
  show "val_byte 16 (base64_tail (key_to_base64 k)) = k ! 30" "val_byte 8 (base64_tail (key_to_base64 k)) = k ! 31"
    "val_byte 0 (base64_tail (key_to_base64 k)) = 0"
    unfolding t g by (rule sextets_of_bytes)+
  show "\<not> bit (base64_tail (key_to_base64 k)) 31"
    unfolding t g by (subst group_val_sign) simp_all
qed

lemma key_blocks:
  assumes "wf_key k"
  shows "concat (map (\<lambda>i. [k ! (i * 3), k ! (i * 3 + 1), k ! (i * 3 + 2)]) [0..<10]) @ [k ! 30, k ! 31] = k"
proof -
  have len: "length k = 32" using assms by (simp add: wf_key_def WG_KEY_LEN_def)
  have "concat (map (\<lambda>i. [k ! (i * 3), k ! (i * 3 + 1), k ! (i * 3 + 2)]) [0..<10]) = take 30 k"
    using blocks_take [of 10 3 k] len
    by (simp add: upt_rec numeral_3_eq_3 numeral_2_eq_2)
  moreover have "drop 30 k = [k ! 30, k ! 31]"
    using len by (intro nth_equalityI) (auto simp: less_Suc_eq numeral_2_eq_2)
  ultimately show ?thesis
    by (metis append_take_drop_id)
qed

lemma key_from_to_base64:
  assumes "wf_key k"
  shows "key_from_base64 (key_to_base64 k) = Some k"
proof -
  have "concat (map (\<lambda>i. [val_byte 16 (base64_group (key_to_base64 k) i),
          val_byte 8 (base64_group (key_to_base64 k) i), val_byte 0 (base64_group (key_to_base64 k) i)]) [0..<10])
      = concat (map (\<lambda>i. [k ! (i * 3), k ! (i * 3 + 1), k ! (i * 3 + 2)]) [0..<10])"
    by (intro arg_cong [where f = concat] map_cong refl) (simp add: base64_group_key)
  then show ?thesis
    using key_blocks [OF assms]
    by (simp only: key_from_base64_Some_iff base64_tail_key key_to_base64_tail length_key_to_base64)
       (simp add: base64_group_key)
qed

lemma key_from_base64_length: "key_from_base64 s = Some k \<Longrightarrow> wf_key k"
proof -
  assume "key_from_base64 s = Some k"
  then have "length k = length (concat (map (\<lambda>i. [val_byte 16 (base64_group s i), val_byte 8 (base64_group s i),
      val_byte 0 (base64_group s i)]) [0..<10])) + 2"
    by (simp only: key_from_base64_Some_iff) simp
  also have "\<dots> = 32"
    by (subst length_concat_blocks [where w = 3]) simp_all
  finally show ?thesis by (simp add: wf_key_def WG_KEY_LEN_def)
qed

lemma upt_0_4: "map f [0..<4] = [f 0, f 1, f 2, f (3 :: nat)]"
  by (simp add: numeral_eq_Suc)

lemma key_to_from_base64:
  assumes "key_from_base64 s = Some k"
  shows "key_to_base64 k = s"
proof -
  define f where "f i = [val_byte 16 (base64_group s i), val_byte 8 (base64_group s i), val_byte 0 (base64_group s i)]" for i
  have len: "length s = 44" and eq: "s ! 43 = CHR ''=''"
    and grp_ok: "\<And>i. i < 10 \<Longrightarrow> \<not> bit (base64_group s i) 31"
    and tail_ok: "\<not> bit (base64_tail s) 31" "val_byte 0 (base64_tail s) = 0"
    and k: "k = concat (map f [0..<10]) @ [val_byte 16 (base64_tail s), val_byte 8 (base64_tail s)]"
    using assms unfolding key_from_base64_Some_iff f_def [abs_def] by blast+
  have lenf: "length (concat (map f [0..<10])) = 30"
    using length_concat_blocks [of 10 f 3] by (simp add: f_def)
  have nth: "k ! (i * 3 + j) = f i ! j" if "i < 10" "j < 3" for i j
  proof -
    from that have "i * 3 + j < 30" by simp
    then show ?thesis
      using nth_concat_blocks [of 10 f 3 i j] that lenf by (simp add: k nth_append f_def)
  qed
  have grp: "key_groups k i = map (\<lambda>j. s ! (i * 4 + j)) [0..<4]" if "i < 10" for i
    using encode_decode_group [of "s ! (i * 4)" "s ! (i * 4 + 1)" "s ! (i * 4 + 2)" "s ! (i * 4 + 3)"]
      grp_ok [OF that] nth [OF that, of 0] nth [OF that, of 1] nth [OF that, of 2]
    by (simp add: key_groups_def f_def base64_group_def upt_0_4)
  have "k ! 30 = val_byte 16 (base64_tail s)" "k ! 31 = val_byte 8 (base64_tail s)"
    using lenf by (simp_all add: k nth_append)
  then have "key_last k = [s ! 40, s ! 41, s ! 42]"
    using encode_decode_group [of "s ! 40" "s ! 41" "s ! 42" "CHR ''A''"] tail_ok
    by (simp add: key_last_def base64_tail_def)
  moreover have "concat (map (key_groups k) [0..<10]) = take 40 s"
  proof -
    have "concat (map (key_groups k) [0..<10]) = concat (map (\<lambda>i. map (\<lambda>j. s ! (i * 4 + j)) [0..<4]) [0..<10])"
      by (intro arg_cong [where f = concat] map_cong refl) (simp add: grp)
    also have "\<dots> = take 40 s" using blocks_take [of 10 4 s] len by simp
    finally show ?thesis .
  qed
  moreover have "drop 40 s = map (\<lambda>j. s ! (40 + j)) [0..<4]"
    using len by (intro nth_equalityI) simp_all
  moreover have "s = take 40 s @ drop 40 s" by simp
  ultimately show ?thesis
    using eq by (simp only: key_to_base64_eq upt_0_4) simp
qed

interpretation b64: canonical_codec key_to_base64 key_from_base64 wf_key
  by unfold_locales (fact key_from_to_base64 key_from_base64_length key_to_from_base64)+

section \<open>Hexadecimal keys\<close>

lemma hex_digit_spec:
  "hex_digit c = (if is_digit_of 16 c then (0, word_of_nat (digit_val c)) else (255, 0))"
proof (cases c)
  case (Char b0 b1 b2 b3 b4 b5 b6 b7)
  then show ?thesis
    by (cases b0; cases b1; cases b2; cases b3; cases b4; cases b5; cases b6; cases b7)
       (simp_all add: hex_digit_def is_digit_of_def digit_val_def asr_8_mask mask_eq_exp_minus_1)
qed

lemma hex_char_nibble:
  assumes "n < 16"
  shows "hex_char (word_of_nat n) = digit_char n"
proof -
  have "list_all (\<lambda>n. hex_char (word_of_nat n) = digit_char n) [0..<16]"
    by (simp add: upt_rec hex_char_def digit_char_def mask_eq_exp_minus_1)
  then show ?thesis using assms by (rule check_below)
qed

lemma is_digit_of_16_digit_char [simp]: "d < 16 \<Longrightarrow> is_digit_of 16 (digit_char d)"
  by (simp add: is_digit_of_def digit_val_digit_char)

lemma hex_digit_hex_char:
  "n < 16 \<Longrightarrow> hex_digit (hex_char (word_of_nat n)) = (0, word_of_nat n)"
  by (simp add: hex_char_nibble hex_digit_spec digit_val_digit_char)

lemma u8_bound: "unat (b :: u8) < 256"
  using unsigned_less [of b, where 'a = nat] by simp

lemma unat_ucast_8_32: "unat (ucast (b::u8) :: u32) = unat b"
  using u8_bound [of b] by (simp add: unsigned_ucast_eq take_bit_nat_eq_self)

lemma high_nibble: "drop_bit 4 (ucast b :: u32) = word_of_nat (unat (b :: u8) div 16)"
proof (rule word_unat_eq_iff [THEN iffD2])
  have "unat (drop_bit 4 (ucast b :: u32)) = unat b div 16"
    by (simp only: unat_drop_bit_eq unat_ucast_8_32) (simp add: drop_bit_eq_div)
  also have "\<dots> = unat (word_of_nat (unat b div 16) :: u32)"
    using u8_bound [of b] by (simp add: unat_of_nat)
  finally show "unat (drop_bit 4 (ucast b :: u32)) = unat (word_of_nat (unat b div 16) :: u32)" .
qed

lemma low_nibble: "(ucast b AND 0xf :: u32) = word_of_nat (unat (b :: u8) mod 16)"
proof (rule word_unat_eq_iff [THEN iffD2])
  have "(ucast b AND 0xf :: u32) = take_bit 4 (ucast b)"
    by (simp add: take_bit_eq_mask mask_eq_exp_minus_1)
  then have "unat (ucast b AND 0xf :: u32) = unat b mod 16"
    by (simp only: unsigned_take_bit_eq unat_ucast_8_32) (simp add: take_bit_eq_mod)
  also have "\<dots> = unat (word_of_nat (unat b mod 16) :: u32)"
    using u8_bound [of b] by (simp add: unat_of_nat)
  finally show "unat (ucast b AND 0xf :: u32) = unat (word_of_nat (unat b mod 16) :: u32)" .
qed

lemma nibbles_join:
  assumes "m < 16" "n < 16"
  shows "(ucast (ucast (word_of_nat m :: u8) * (16 :: u32)) :: u8) OR word_of_nat n = word_of_nat (16 * m + n)"
proof -
  have "list_all (\<lambda>m. list_all (\<lambda>n.
      (ucast (ucast (word_of_nat m :: u8) * (16 :: u32)) :: u8) OR word_of_nat n = word_of_nat (16 * m + n)) [0..<16]) [0..<16]"
    by (simp add: upt_rec)
  then show ?thesis using assms by (auto dest: check_below)
qed

lemma unat_nibbles: "word_of_nat (16 * (unat (b::u8) div 16) + unat b mod 16) = b"
  by simp

lemma foldl_hex_ret:
  "foldl (\<lambda>r ((b0, _), (b1, _)). (r OR b0) OR b1) r ps = 0 \<longleftrightarrow>
     r = (0 :: u8) \<and> (\<forall>((b0, _), (b1, _)) \<in> set ps. b0 = 0 \<and> b1 = 0)"
  by (induction ps arbitrary: r) (auto simp: or_eq_0_iff split: prod.splits)

lemma key_from_hex_Some_iff:
  "key_from_hex s = Some k \<longleftrightarrow>
     length s = 64 \<and> (\<forall>i < 32. is_digit_of 16 (s ! (2 * i)) \<and> is_digit_of 16 (s ! (2 * i + 1)))
     \<and> k = map (\<lambda>i. word_of_nat (16 * digit_val (s ! (2 * i)) + digit_val (s ! (2 * i + 1)))) [0..<32]"
proof -
  define ps where "ps = map (\<lambda>i. (hex_digit (s ! (2 * i)), hex_digit (s ! (2 * i + 1)))) [0..<32]"
  have "(\<forall>((b0, _), (b1, _)) \<in> set ps. b0 = 0 \<and> b1 = 0) \<longleftrightarrow>
      (\<forall>i < 32. is_digit_of 16 (s ! (2 * i)) \<and> is_digit_of 16 (s ! (2 * i + 1)))"
    by (auto simp: ps_def hex_digit_spec split: if_splits)
  moreover have "map (\<lambda>((_, v0), (_, v1)). (ucast (ucast v0 * (16 :: u32)) :: u8) OR v1) ps
      = map (\<lambda>i. word_of_nat (16 * digit_val (s ! (2 * i)) + digit_val (s ! (2 * i + 1)))) [0..<32]"
    if "\<forall>i < 32. is_digit_of 16 (s ! (2 * i)) \<and> is_digit_of 16 (s ! (2 * i + 1))"
    using that by (auto simp: ps_def hex_digit_spec nibbles_join is_digit_of_def)
  moreover have "key_from_hex s = (if length s \<noteq> 64 then None else
      if ret_ok (foldl (\<lambda>r ((b0, _), (b1, _)). (r OR b0) OR b1) (0 :: u8) ps)
      then Some (map (\<lambda>((_, v0), (_, v1)). (ucast (ucast v0 * (16 :: u32)) :: u8) OR v1) ps) else None)"
    by (simp add: key_from_hex_def key_len_defs ps_def)
  ultimately show ?thesis
    by (auto simp: ret_ok_iff foldl_hex_ret split: if_splits)
qed

lemma key_to_hex_eq:
  "key_to_hex k = concat (map (\<lambda>i. [digit_char (unat (k ! i) div 16), digit_char (unat (k ! i) mod 16)]) [0..<32])"
proof -
  have "unat (k ! i) div 16 < 16" for i using u8_bound [of "k ! i"] by auto
  then show ?thesis
    by (simp add: key_to_hex_def WG_KEY_LEN_def high_nibble low_nibble hex_char_nibble)
qed

lemma length_key_to_hex [simp]: "length (key_to_hex k) = 64"
  unfolding key_to_hex_eq by (subst length_concat_blocks [where w = 2]) simp_all

lemma key_to_hex_nth:
  assumes "i < 32"
  shows "key_to_hex k ! (2 * i) = digit_char (unat (k ! i) div 16)"
    and "key_to_hex k ! (2 * i + 1) = digit_char (unat (k ! i) mod 16)"
  unfolding key_to_hex_eq
  using assms nth_concat_blocks [of 32 "\<lambda>i. [digit_char (unat (k ! i) div 16), digit_char (unat (k ! i) mod 16)]" 2 i 0]
    nth_concat_blocks [of 32 "\<lambda>i. [digit_char (unat (k ! i) div 16), digit_char (unat (k ! i) mod 16)]" 2 i 1]
  by (simp_all add: mult.commute)

lemma key_to_hex_digits:
  assumes "i < 32"
  shows "digit_val (key_to_hex k ! (2 * i)) = unat (k ! i) div 16"
    and "digit_val (key_to_hex k ! (2 * i + 1)) = unat (k ! i) mod 16"
proof -
  have "unat (k ! i) div 16 < 16" using u8_bound [of "k ! i"] by auto
  then show "digit_val (key_to_hex k ! (2 * i)) = unat (k ! i) div 16"
    and "digit_val (key_to_hex k ! (2 * i + 1)) = unat (k ! i) mod 16"
    unfolding key_to_hex_nth [OF assms] by (simp_all add: digit_val_digit_char)
qed

lemma key_from_to_hex:
  assumes "wf_key k"
  shows "key_from_hex (key_to_hex k) = Some k"
proof -
  have "word_of_nat (16 * digit_val (key_to_hex k ! (2 * i)) + digit_val (key_to_hex k ! (2 * i + 1))) = k ! i"
    if "i < 32" for i
    unfolding key_to_hex_digits [OF that] by (rule unat_nibbles)
  then have "map (\<lambda>i. word_of_nat (16 * digit_val (key_to_hex k ! (2 * i)) + digit_val (key_to_hex k ! (2 * i + 1)))) [0..<32]
      = map (\<lambda>i. k ! i) [0..<32]"
    by (intro map_cong refl) (simp only: set_upt atLeastLessThan_iff)
  also have "\<dots> = k"
    using assms by (metis WG_KEY_LEN_def map_nth wf_key_def)
  finally have eq: "map (\<lambda>i. word_of_nat (16 * digit_val (key_to_hex k ! (2 * i)) + digit_val (key_to_hex k ! (2 * i + 1)))) [0..<32] = k" .
  have "is_digit_of 16 (key_to_hex k ! (2 * i)) \<and> is_digit_of 16 (key_to_hex k ! (2 * i + 1))" if "i < 32" for i
    unfolding is_digit_of_def key_to_hex_digits [OF that] using u8_bound [of "k ! i"] by auto
  then show ?thesis
    unfolding key_from_hex_Some_iff eq by (simp only: length_key_to_hex) blast
qed

lemma key_from_hex_length: "key_from_hex s = Some k \<Longrightarrow> wf_key k"
  by (auto simp: key_from_hex_Some_iff wf_key_def WG_KEY_LEN_def)

interpretation hexc: codec key_to_hex key_from_hex wf_key
  by unfold_locales (fact key_from_to_hex key_from_hex_length)+

text \<open>
  Hexadecimal decoding is not canonical: upper-case digits are accepted too. Encoding the result
  gives the lower-case spelling of what was decoded.
\<close>

lemma digit_char_digit_val:
  assumes "is_digit_of 16 c"
  shows "digit_char (digit_val c) = tolower_c c"
proof -
  obtain n where n: "(of_char c :: nat) = n" "c = char_of n"
    using char_of_char [of c, where 'a = nat] by metis
  with assms show ?thesis
    by (auto simp: is_digit_of_def digit_val_def digit_char_def tolower_c_def Let_def split: if_splits)
qed

lemma key_to_from_hex:
  assumes "key_from_hex s = Some k"
  shows "key_to_hex k = map tolower_c s"
proof (rule nth_equalityI)
  have len: "length s = 64"
    and dig: "\<And>i. i < 32 \<Longrightarrow> is_digit_of 16 (s ! (2 * i)) \<and> is_digit_of 16 (s ! (2 * i + 1))"
    and k: "\<And>i. i < 32 \<Longrightarrow> k ! i = word_of_nat (16 * digit_val (s ! (2 * i)) + digit_val (s ! (2 * i + 1)))"
    using assms by (auto simp: key_from_hex_Some_iff)
  show "length (key_to_hex k) = length (map tolower_c s)" by (simp add: len)
  fix n
  assume "n < length (key_to_hex k)"
  then have n: "n < 64" by simp
  define i where "i = n div 2"
  have i: "i < 32" using n by (auto simp: i_def)
  define a b where "a = digit_val (s ! (2 * i))" and "b = digit_val (s ! (2 * i + 1))"
  have ab: "a < 16" "b < 16" using dig [OF i] by (auto simp: a_def b_def is_digit_of_def)
  have "unat (k ! i) = 16 * a + b"
    using ab unfolding k [OF i] a_def [symmetric] b_def [symmetric] by (simp only: unat_of_nat) simp
  then have "key_to_hex k ! (2 * i) = digit_char a" "key_to_hex k ! (2 * i + 1) = digit_char b"
    using ab unfolding key_to_hex_nth [OF i] by simp_all
  moreover have "digit_char a = tolower_c (s ! (2 * i))" "digit_char b = tolower_c (s ! (2 * i + 1))"
    unfolding a_def b_def using dig [OF i] by (simp_all add: digit_char_digit_val)
  moreover have "n = 2 * i \<or> n = 2 * i + 1" by (auto simp: i_def)
  ultimately show "key_to_hex k ! n = map tolower_c s ! n"
    using n len by auto
qed

lemma key_from_hex_accepts:
  "(\<exists>k. key_from_hex s = Some k) \<longleftrightarrow> length s = 64 \<and> list_all (is_digit_of 16) s"
proof -
  have "(\<forall>i < 32. P (s ! (2 * i)) \<and> P (s ! (2 * i + 1))) \<longleftrightarrow> list_all P s" if "length s = 64" for P
  proof
    assume *: "\<forall>i < 32. P (s ! (2 * i)) \<and> P (s ! (2 * i + 1))"
    show "list_all P s"
    proof (rule list_all_length [THEN iffD2], intro allI impI)
      fix n
      assume "n < length s"
      with that have "n div 2 < 32" by auto
      moreover have "n = 2 * (n div 2) \<or> n = 2 * (n div 2) + 1" by auto
      ultimately show "P (s ! n)" using * by metis
    qed
  next
    assume "list_all P s"
    then show "\<forall>i < 32. P (s ! (2 * i)) \<and> P (s ! (2 * i + 1))"
      using that by (auto simp: list_all_length)
  qed
  then show ?thesis by (auto simp: key_from_hex_Some_iff)
qed

section \<open>The zero key\<close>

lemma key_is_zero_iff: "key_is_zero k \<longleftrightarrow> (\<forall>b \<in> set k. b = 0)"
  by (simp add: key_is_zero_def ret_ok_iff foldl_or_zero [where g = "\<lambda>b. b"])

lemma key_is_zero_wf: "wf_key k \<Longrightarrow> key_is_zero k \<longleftrightarrow> k = replicate WG_KEY_LEN 0"
  by (auto simp: key_is_zero_iff wf_key_def intro!: replicate_eqI)

lemma is_hex_tolower: "is_digit_of 16 (tolower_c c) \<Longrightarrow> is_digit_of 16 c"
proof -
  obtain n where n: "(of_char c :: nat) = n" "c = char_of n"
    using char_of_char [of c, where 'a = nat] by metis
  assume "is_digit_of 16 (tolower_c c)"
  with n show ?thesis
    by (auto simp: is_digit_of_def digit_val_def tolower_c_def Let_def split: if_splits)
qed

section \<open>Properties\<close>

text \<open>
  C7: the base64 decoder accepts exactly the encodings of 32-byte keys, and decodes each of them to
  its key; in particular no second spelling of a key is accepted.
\<close>

theorem key_from_base64_canonical: "key_from_base64 s = Some k \<longleftrightarrow> wf_key k \<and> s = key_to_base64 k"
  by (rule b64.dec_iff)

text \<open>
  C29: the hexadecimal decoder accepts exactly the spellings of the encodings of 32-byte keys in either
  case, and decodes each of them to its key.
\<close>

theorem key_from_hex_iff: "key_from_hex s = Some k \<longleftrightarrow> wf_key k \<and> map tolower_c s = key_to_hex k"
proof
  assume "key_from_hex s = Some k"
  then show "wf_key k \<and> map tolower_c s = key_to_hex k"
    by (simp add: hexc.dec_valid key_to_from_hex)
next
  assume k: "wf_key k \<and> map tolower_c s = key_to_hex k"
  have "length (key_to_hex k) = 64 \<and> list_all (is_digit_of 16) (key_to_hex k)"
    using k hexc.dec_enc [of k] key_from_hex_accepts [of "key_to_hex k"] by blast
  then have "length (map tolower_c s) = 64" and lower: "list_all (is_digit_of 16) (map tolower_c s)"
    using k by simp_all
  then have "length s = 64 \<and> list_all (is_digit_of 16) s"
    using is_hex_tolower by (simp add: list_all_iff)
  then obtain k' where k': "key_from_hex s = Some k'" using key_from_hex_accepts [of s] by blast
  then have "key_to_hex k' = key_to_hex k" using k by (simp add: key_to_from_hex)
  with k k' show "key_from_hex s = Some k" using hexc.enc_inj [of k' k] hexc.dec_valid [of s k'] by simp
qed

text \<open>\<open>key_is_zero\<close>, computed without branching on the key, is true exactly when every byte is zero.\<close>

theorem key_is_zero_exact: "key_is_zero k \<longleftrightarrow> list_all (\<lambda>b. b = 0) k"
  by (simp add: key_is_zero_iff list_all_iff)

end
