(* ===== verification/Containers.thy ===== *)
theory Containers
  imports Encoding
begin

text \<open>
  The data model of \<open>src/src/containers.h\<close>: allowed IPs, peers and devices as records with one field
  per member of the C structs, their flag bits, and \<open>free_wgdevice\<close>.

  A linked list (\<open>first_peer\<close> and \<open>next_peer\<close>, \<open>first_allowedip\<close> and \<open>next_allowedip\<close>) is the list
  of its elements; a pointer into it is an index. The union of \<open>ip4\<close> and \<open>ip6\<close> is its sixteen bytes
  as four 32-bit words in the order of the bytes, each read with \<open>ntohl\<close>; \<open>ip4\<close> is the first of them.
  The union of socket addresses is a datatype whose constructor is \<open>sa_family\<close>. An owned string is
  an option, NULL being \<open>None\<close>. Allocation always succeeds in the model. \<open>zero_peer\<close>,
  \<open>zero_device\<close> and \<open>zero_allowedip\<close> are what \<open>calloc\<close> returns.
\<close>

section \<open>Address families and socket addresses\<close>

definition AF_UNSPEC :: u16 where "AF_UNSPEC = 0"
definition AF_INET :: u16 where "AF_INET = 2"
definition AF_INET6 :: u16 where "AF_INET6 = 10"

lemmas af_defs = AF_UNSPEC_def AF_INET_def AF_INET6_def

datatype sockaddr =
    Sa_none
  | Sa_in (sin_addr: u32) (sin_port: u16)
  | Sa_in6 (sin6_addr: "u32 list") (sin6_port: u16) (sin6_flowinfo: u32) (sin6_scope_id: u32)

definition sa_family :: "sockaddr \<Rightarrow> u16" where
  "sa_family a = (case a of Sa_none \<Rightarrow> AF_UNSPEC | Sa_in _ _ \<Rightarrow> AF_INET | Sa_in6 _ _ _ _ \<Rightarrow> AF_INET6)"

definition has_endpoint :: "sockaddr \<Rightarrow> bool" where
  "has_endpoint a \<longleftrightarrow> sa_family a = AF_INET \<or> sa_family a = AF_INET6"

lemma has_endpoint_iff [simp]: "has_endpoint a \<longleftrightarrow> a \<noteq> Sa_none"
  by (cases a) (auto simp: has_endpoint_def sa_family_def af_defs)

section \<open>Allowed IPs\<close>

definition WGALLOWEDIP_REMOVE_ME :: u32 where "WGALLOWEDIP_REMOVE_ME = 1"

record wgallowedip =
  family :: u16
  ip_words :: "u32 list"
  cidr :: u8
  aip_flags :: u32

definition zero_allowedip :: wgallowedip where
  "zero_allowedip = \<lparr>family = AF_UNSPEC, ip_words = replicate 4 0, cidr = 0, aip_flags = 0\<rparr>"

definition ip4 :: "wgallowedip \<Rightarrow> u32" where
  "ip4 a = ip_words a ! 0"

definition set_ip4 :: "u32 \<Rightarrow> wgallowedip \<Rightarrow> wgallowedip" where
  "set_ip4 w a = a\<lparr>ip_words := (ip_words a)[0 := w]\<rparr>"

section \<open>Peers\<close>

datatype wgpeer_transport = WGPEER_TRANSPORT_UDP | WGPEER_TRANSPORT_WEBSOCKET | WGPEER_TRANSPORT_WSTUNNEL

definition WGPEER_REMOVE_ME :: u32 where "WGPEER_REMOVE_ME = 1"
definition WGPEER_REPLACE_ALLOWEDIPS :: u32 where "WGPEER_REPLACE_ALLOWEDIPS = 2"
definition WGPEER_HAS_PUBLIC_KEY :: u32 where "WGPEER_HAS_PUBLIC_KEY = 4"
definition WGPEER_HAS_PRESHARED_KEY :: u32 where "WGPEER_HAS_PRESHARED_KEY = 8"
definition WGPEER_HAS_PERSISTENT_KEEPALIVE_INTERVAL :: u32 where
  "WGPEER_HAS_PERSISTENT_KEEPALIVE_INTERVAL = 16"
definition WGPEER_HAS_TRANSPORT :: u32 where "WGPEER_HAS_TRANSPORT = 32"
definition WGPEER_HAS_WS_SETTINGS :: u32 where "WGPEER_HAS_WS_SETTINGS = 64"

lemmas wgpeer_flag_defs = WGPEER_REMOVE_ME_def WGPEER_REPLACE_ALLOWEDIPS_def WGPEER_HAS_PUBLIC_KEY_def
  WGPEER_HAS_PRESHARED_KEY_def WGPEER_HAS_PERSISTENT_KEEPALIVE_INTERVAL_def WGPEER_HAS_TRANSPORT_def
  WGPEER_HAS_WS_SETTINGS_def

record wgpeer =
  peer_flags :: u32
  peer_public_key :: key
  preshared_key :: key
  endpoint :: sockaddr
  last_handshake_sec :: int
  last_handshake_nsec :: int
  rx_bytes :: u64
  tx_bytes :: u64
  persistent_keepalive_interval :: u16
  transport :: wgpeer_transport
  ws_url :: "string option"
  wstunnel_target :: "string option"
  ws_bearer :: "string option"
  ws_tls_ca :: "string option"
  ws_tls_cert :: "string option"
  ws_tls_key :: "string option"
  ws_ping_interval_ms :: u32
  ws_backoff_min_ms :: u32
  ws_backoff_max_ms :: u32
  ws_mask :: bool
  ws_tls_insecure :: bool
  allowedips :: "wgallowedip list"

definition zero_key :: key where
  "zero_key = replicate WG_KEY_LEN 0"

lemma wf_zero_key [simp]: "wf_key zero_key"
  by (simp add: wf_key_def zero_key_def)

definition zero_peer :: wgpeer where
  "zero_peer =
     \<lparr>peer_flags = 0, peer_public_key = zero_key, preshared_key = zero_key, endpoint = Sa_none,
      last_handshake_sec = 0, last_handshake_nsec = 0, rx_bytes = 0, tx_bytes = 0,
      persistent_keepalive_interval = 0, transport = WGPEER_TRANSPORT_UDP, ws_url = None,
      wstunnel_target = None, ws_bearer = None, ws_tls_ca = None, ws_tls_cert = None, ws_tls_key = None,
      ws_ping_interval_ms = 0, ws_backoff_min_ms = 0, ws_backoff_max_ms = 0, ws_mask = False,
      ws_tls_insecure = False, allowedips = []\<rparr>"

section \<open>Devices\<close>

definition WGDEVICE_REPLACE_PEERS :: u32 where "WGDEVICE_REPLACE_PEERS = 1"
definition WGDEVICE_HAS_PRIVATE_KEY :: u32 where "WGDEVICE_HAS_PRIVATE_KEY = 2"
definition WGDEVICE_HAS_PUBLIC_KEY :: u32 where "WGDEVICE_HAS_PUBLIC_KEY = 4"
definition WGDEVICE_HAS_LISTEN_PORT :: u32 where "WGDEVICE_HAS_LISTEN_PORT = 8"
definition WGDEVICE_HAS_FWMARK :: u32 where "WGDEVICE_HAS_FWMARK = 16"
definition WGDEVICE_HAS_WS_LISTEN :: u32 where "WGDEVICE_HAS_WS_LISTEN = 32"
definition WGDEVICE_HAS_WS_SERVER_TLS_CERT :: u32 where "WGDEVICE_HAS_WS_SERVER_TLS_CERT = 64"
definition WGDEVICE_HAS_WS_SERVER_TLS_KEY :: u32 where "WGDEVICE_HAS_WS_SERVER_TLS_KEY = 128"
definition WGDEVICE_HAS_WS_SERVER_BEARER :: u32 where "WGDEVICE_HAS_WS_SERVER_BEARER = 256"
definition WGDEVICE_HAS_WS_TRUSTED_PROXIES :: u32 where "WGDEVICE_HAS_WS_TRUSTED_PROXIES = 512"

lemmas wgdevice_flag_defs = WGDEVICE_REPLACE_PEERS_def WGDEVICE_HAS_PRIVATE_KEY_def
  WGDEVICE_HAS_PUBLIC_KEY_def WGDEVICE_HAS_LISTEN_PORT_def WGDEVICE_HAS_FWMARK_def
  WGDEVICE_HAS_WS_LISTEN_def WGDEVICE_HAS_WS_SERVER_TLS_CERT_def WGDEVICE_HAS_WS_SERVER_TLS_KEY_def
  WGDEVICE_HAS_WS_SERVER_BEARER_def WGDEVICE_HAS_WS_TRUSTED_PROXIES_def

definition IFNAMSIZ :: nat where "IFNAMSIZ = 16"

record wgdevice =
  dev_name :: string
  ifindex :: u32
  dev_flags :: u32
  dev_public_key :: key
  private_key :: key
  fwmark :: u32
  listen_port :: u16
  ws_listen :: "string option"
  ws_server_tls_cert :: "string option"
  ws_server_tls_key :: "string option"
  ws_server_bearer :: "string option"
  ws_trusted_proxies :: "string option"
  peers :: "wgpeer list"

definition zero_device :: wgdevice where
  "zero_device =
     \<lparr>dev_name = [], ifindex = 0, dev_flags = 0, dev_public_key = zero_key, private_key = zero_key,
      fwmark = 0, listen_port = 0, ws_listen = None, ws_server_tls_cert = None, ws_server_tls_key = None,
      ws_server_bearer = None, ws_trusted_proxies = None, peers = []\<rparr>"

text \<open>\<open>strncpy(device->name, s, IFNAMSIZ - 1); device->name[IFNAMSIZ - 1] = '\0'\<close>\<close>

definition set_dev_name :: "string \<Rightarrow> wgdevice \<Rightarrow> wgdevice" where
  "set_dev_name s dev = dev\<lparr>dev_name := take (IFNAMSIZ - 1) s\<rparr>"

text \<open>Setting flags of a peer and of a device.\<close>

definition peer_or :: "u32 \<Rightarrow> wgpeer \<Rightarrow> wgpeer" where
  "peer_or b p = p\<lparr>peer_flags := peer_flags p OR b\<rparr>"

definition dev_or :: "u32 \<Rightarrow> wgdevice \<Rightarrow> wgdevice" where
  "dev_or b d = d\<lparr>dev_flags := dev_flags d OR b\<rparr>"

abbreviation peer_has :: "wgpeer \<Rightarrow> u32 \<Rightarrow> bool" where
  "peer_has p b \<equiv> flag_set (peer_flags p) b"

abbreviation dev_has :: "wgdevice \<Rightarrow> u32 \<Rightarrow> bool" where
  "dev_has d b \<equiv> flag_set (dev_flags d) b"

lemma flag_set_const [flag_simps]:
  "flag_set (numeral m) (numeral n) \<longleftrightarrow> (numeral m :: u32) AND numeral n \<noteq> 0"
  "flag_set 1 (numeral n) \<longleftrightarrow> (1 :: u32) AND numeral n \<noteq> 0"
  "flag_set (numeral m) 1 \<longleftrightarrow> (numeral m :: u32) AND 1 \<noteq> 0"
  "flag_set 1 1 \<longleftrightarrow> True"
  by (simp_all add: flag_set_def)

text \<open>The flags of a peer and of a device are distinct bits.\<close>

lemma peer_flag_table [simp]:
  "flag_set WGPEER_REMOVE_ME WGPEER_REMOVE_ME" "\<not> flag_set WGPEER_REMOVE_ME WGPEER_REPLACE_ALLOWEDIPS" "\<not> flag_set WGPEER_REMOVE_ME WGPEER_HAS_PUBLIC_KEY" "\<not> flag_set WGPEER_REMOVE_ME WGPEER_HAS_PRESHARED_KEY" "\<not> flag_set WGPEER_REMOVE_ME WGPEER_HAS_PERSISTENT_KEEPALIVE_INTERVAL" "\<not> flag_set WGPEER_REMOVE_ME WGPEER_HAS_TRANSPORT" "\<not> flag_set WGPEER_REMOVE_ME WGPEER_HAS_WS_SETTINGS"
  "\<not> flag_set WGPEER_REPLACE_ALLOWEDIPS WGPEER_REMOVE_ME" "flag_set WGPEER_REPLACE_ALLOWEDIPS WGPEER_REPLACE_ALLOWEDIPS" "\<not> flag_set WGPEER_REPLACE_ALLOWEDIPS WGPEER_HAS_PUBLIC_KEY" "\<not> flag_set WGPEER_REPLACE_ALLOWEDIPS WGPEER_HAS_PRESHARED_KEY" "\<not> flag_set WGPEER_REPLACE_ALLOWEDIPS WGPEER_HAS_PERSISTENT_KEEPALIVE_INTERVAL" "\<not> flag_set WGPEER_REPLACE_ALLOWEDIPS WGPEER_HAS_TRANSPORT" "\<not> flag_set WGPEER_REPLACE_ALLOWEDIPS WGPEER_HAS_WS_SETTINGS"
  "\<not> flag_set WGPEER_HAS_PUBLIC_KEY WGPEER_REMOVE_ME" "\<not> flag_set WGPEER_HAS_PUBLIC_KEY WGPEER_REPLACE_ALLOWEDIPS" "flag_set WGPEER_HAS_PUBLIC_KEY WGPEER_HAS_PUBLIC_KEY" "\<not> flag_set WGPEER_HAS_PUBLIC_KEY WGPEER_HAS_PRESHARED_KEY" "\<not> flag_set WGPEER_HAS_PUBLIC_KEY WGPEER_HAS_PERSISTENT_KEEPALIVE_INTERVAL" "\<not> flag_set WGPEER_HAS_PUBLIC_KEY WGPEER_HAS_TRANSPORT" "\<not> flag_set WGPEER_HAS_PUBLIC_KEY WGPEER_HAS_WS_SETTINGS"
  "\<not> flag_set WGPEER_HAS_PRESHARED_KEY WGPEER_REMOVE_ME" "\<not> flag_set WGPEER_HAS_PRESHARED_KEY WGPEER_REPLACE_ALLOWEDIPS" "\<not> flag_set WGPEER_HAS_PRESHARED_KEY WGPEER_HAS_PUBLIC_KEY" "flag_set WGPEER_HAS_PRESHARED_KEY WGPEER_HAS_PRESHARED_KEY" "\<not> flag_set WGPEER_HAS_PRESHARED_KEY WGPEER_HAS_PERSISTENT_KEEPALIVE_INTERVAL" "\<not> flag_set WGPEER_HAS_PRESHARED_KEY WGPEER_HAS_TRANSPORT" "\<not> flag_set WGPEER_HAS_PRESHARED_KEY WGPEER_HAS_WS_SETTINGS"
  "\<not> flag_set WGPEER_HAS_PERSISTENT_KEEPALIVE_INTERVAL WGPEER_REMOVE_ME" "\<not> flag_set WGPEER_HAS_PERSISTENT_KEEPALIVE_INTERVAL WGPEER_REPLACE_ALLOWEDIPS" "\<not> flag_set WGPEER_HAS_PERSISTENT_KEEPALIVE_INTERVAL WGPEER_HAS_PUBLIC_KEY" "\<not> flag_set WGPEER_HAS_PERSISTENT_KEEPALIVE_INTERVAL WGPEER_HAS_PRESHARED_KEY" "flag_set WGPEER_HAS_PERSISTENT_KEEPALIVE_INTERVAL WGPEER_HAS_PERSISTENT_KEEPALIVE_INTERVAL" "\<not> flag_set WGPEER_HAS_PERSISTENT_KEEPALIVE_INTERVAL WGPEER_HAS_TRANSPORT" "\<not> flag_set WGPEER_HAS_PERSISTENT_KEEPALIVE_INTERVAL WGPEER_HAS_WS_SETTINGS"
  "\<not> flag_set WGPEER_HAS_TRANSPORT WGPEER_REMOVE_ME" "\<not> flag_set WGPEER_HAS_TRANSPORT WGPEER_REPLACE_ALLOWEDIPS" "\<not> flag_set WGPEER_HAS_TRANSPORT WGPEER_HAS_PUBLIC_KEY" "\<not> flag_set WGPEER_HAS_TRANSPORT WGPEER_HAS_PRESHARED_KEY" "\<not> flag_set WGPEER_HAS_TRANSPORT WGPEER_HAS_PERSISTENT_KEEPALIVE_INTERVAL" "flag_set WGPEER_HAS_TRANSPORT WGPEER_HAS_TRANSPORT" "\<not> flag_set WGPEER_HAS_TRANSPORT WGPEER_HAS_WS_SETTINGS"
  "\<not> flag_set WGPEER_HAS_WS_SETTINGS WGPEER_REMOVE_ME" "\<not> flag_set WGPEER_HAS_WS_SETTINGS WGPEER_REPLACE_ALLOWEDIPS" "\<not> flag_set WGPEER_HAS_WS_SETTINGS WGPEER_HAS_PUBLIC_KEY" "\<not> flag_set WGPEER_HAS_WS_SETTINGS WGPEER_HAS_PRESHARED_KEY" "\<not> flag_set WGPEER_HAS_WS_SETTINGS WGPEER_HAS_PERSISTENT_KEEPALIVE_INTERVAL" "\<not> flag_set WGPEER_HAS_WS_SETTINGS WGPEER_HAS_TRANSPORT" "flag_set WGPEER_HAS_WS_SETTINGS WGPEER_HAS_WS_SETTINGS"
  by (simp_all add: wgpeer_flag_defs flag_set_def)

lemma device_flag_table [simp]:
  "flag_set WGDEVICE_REPLACE_PEERS WGDEVICE_REPLACE_PEERS" "\<not> flag_set WGDEVICE_REPLACE_PEERS WGDEVICE_HAS_PRIVATE_KEY" "\<not> flag_set WGDEVICE_REPLACE_PEERS WGDEVICE_HAS_PUBLIC_KEY" "\<not> flag_set WGDEVICE_REPLACE_PEERS WGDEVICE_HAS_LISTEN_PORT" "\<not> flag_set WGDEVICE_REPLACE_PEERS WGDEVICE_HAS_FWMARK" "\<not> flag_set WGDEVICE_REPLACE_PEERS WGDEVICE_HAS_WS_LISTEN" "\<not> flag_set WGDEVICE_REPLACE_PEERS WGDEVICE_HAS_WS_SERVER_TLS_CERT" "\<not> flag_set WGDEVICE_REPLACE_PEERS WGDEVICE_HAS_WS_SERVER_TLS_KEY" "\<not> flag_set WGDEVICE_REPLACE_PEERS WGDEVICE_HAS_WS_SERVER_BEARER" "\<not> flag_set WGDEVICE_REPLACE_PEERS WGDEVICE_HAS_WS_TRUSTED_PROXIES"
  "\<not> flag_set WGDEVICE_HAS_PRIVATE_KEY WGDEVICE_REPLACE_PEERS" "flag_set WGDEVICE_HAS_PRIVATE_KEY WGDEVICE_HAS_PRIVATE_KEY" "\<not> flag_set WGDEVICE_HAS_PRIVATE_KEY WGDEVICE_HAS_PUBLIC_KEY" "\<not> flag_set WGDEVICE_HAS_PRIVATE_KEY WGDEVICE_HAS_LISTEN_PORT" "\<not> flag_set WGDEVICE_HAS_PRIVATE_KEY WGDEVICE_HAS_FWMARK" "\<not> flag_set WGDEVICE_HAS_PRIVATE_KEY WGDEVICE_HAS_WS_LISTEN" "\<not> flag_set WGDEVICE_HAS_PRIVATE_KEY WGDEVICE_HAS_WS_SERVER_TLS_CERT" "\<not> flag_set WGDEVICE_HAS_PRIVATE_KEY WGDEVICE_HAS_WS_SERVER_TLS_KEY" "\<not> flag_set WGDEVICE_HAS_PRIVATE_KEY WGDEVICE_HAS_WS_SERVER_BEARER" "\<not> flag_set WGDEVICE_HAS_PRIVATE_KEY WGDEVICE_HAS_WS_TRUSTED_PROXIES"
  "\<not> flag_set WGDEVICE_HAS_PUBLIC_KEY WGDEVICE_REPLACE_PEERS" "\<not> flag_set WGDEVICE_HAS_PUBLIC_KEY WGDEVICE_HAS_PRIVATE_KEY" "flag_set WGDEVICE_HAS_PUBLIC_KEY WGDEVICE_HAS_PUBLIC_KEY" "\<not> flag_set WGDEVICE_HAS_PUBLIC_KEY WGDEVICE_HAS_LISTEN_PORT" "\<not> flag_set WGDEVICE_HAS_PUBLIC_KEY WGDEVICE_HAS_FWMARK" "\<not> flag_set WGDEVICE_HAS_PUBLIC_KEY WGDEVICE_HAS_WS_LISTEN" "\<not> flag_set WGDEVICE_HAS_PUBLIC_KEY WGDEVICE_HAS_WS_SERVER_TLS_CERT" "\<not> flag_set WGDEVICE_HAS_PUBLIC_KEY WGDEVICE_HAS_WS_SERVER_TLS_KEY" "\<not> flag_set WGDEVICE_HAS_PUBLIC_KEY WGDEVICE_HAS_WS_SERVER_BEARER" "\<not> flag_set WGDEVICE_HAS_PUBLIC_KEY WGDEVICE_HAS_WS_TRUSTED_PROXIES"
  "\<not> flag_set WGDEVICE_HAS_LISTEN_PORT WGDEVICE_REPLACE_PEERS" "\<not> flag_set WGDEVICE_HAS_LISTEN_PORT WGDEVICE_HAS_PRIVATE_KEY" "\<not> flag_set WGDEVICE_HAS_LISTEN_PORT WGDEVICE_HAS_PUBLIC_KEY" "flag_set WGDEVICE_HAS_LISTEN_PORT WGDEVICE_HAS_LISTEN_PORT" "\<not> flag_set WGDEVICE_HAS_LISTEN_PORT WGDEVICE_HAS_FWMARK" "\<not> flag_set WGDEVICE_HAS_LISTEN_PORT WGDEVICE_HAS_WS_LISTEN" "\<not> flag_set WGDEVICE_HAS_LISTEN_PORT WGDEVICE_HAS_WS_SERVER_TLS_CERT" "\<not> flag_set WGDEVICE_HAS_LISTEN_PORT WGDEVICE_HAS_WS_SERVER_TLS_KEY" "\<not> flag_set WGDEVICE_HAS_LISTEN_PORT WGDEVICE_HAS_WS_SERVER_BEARER" "\<not> flag_set WGDEVICE_HAS_LISTEN_PORT WGDEVICE_HAS_WS_TRUSTED_PROXIES"
  "\<not> flag_set WGDEVICE_HAS_FWMARK WGDEVICE_REPLACE_PEERS" "\<not> flag_set WGDEVICE_HAS_FWMARK WGDEVICE_HAS_PRIVATE_KEY" "\<not> flag_set WGDEVICE_HAS_FWMARK WGDEVICE_HAS_PUBLIC_KEY" "\<not> flag_set WGDEVICE_HAS_FWMARK WGDEVICE_HAS_LISTEN_PORT" "flag_set WGDEVICE_HAS_FWMARK WGDEVICE_HAS_FWMARK" "\<not> flag_set WGDEVICE_HAS_FWMARK WGDEVICE_HAS_WS_LISTEN" "\<not> flag_set WGDEVICE_HAS_FWMARK WGDEVICE_HAS_WS_SERVER_TLS_CERT" "\<not> flag_set WGDEVICE_HAS_FWMARK WGDEVICE_HAS_WS_SERVER_TLS_KEY" "\<not> flag_set WGDEVICE_HAS_FWMARK WGDEVICE_HAS_WS_SERVER_BEARER" "\<not> flag_set WGDEVICE_HAS_FWMARK WGDEVICE_HAS_WS_TRUSTED_PROXIES"
  "\<not> flag_set WGDEVICE_HAS_WS_LISTEN WGDEVICE_REPLACE_PEERS" "\<not> flag_set WGDEVICE_HAS_WS_LISTEN WGDEVICE_HAS_PRIVATE_KEY" "\<not> flag_set WGDEVICE_HAS_WS_LISTEN WGDEVICE_HAS_PUBLIC_KEY" "\<not> flag_set WGDEVICE_HAS_WS_LISTEN WGDEVICE_HAS_LISTEN_PORT" "\<not> flag_set WGDEVICE_HAS_WS_LISTEN WGDEVICE_HAS_FWMARK" "flag_set WGDEVICE_HAS_WS_LISTEN WGDEVICE_HAS_WS_LISTEN" "\<not> flag_set WGDEVICE_HAS_WS_LISTEN WGDEVICE_HAS_WS_SERVER_TLS_CERT" "\<not> flag_set WGDEVICE_HAS_WS_LISTEN WGDEVICE_HAS_WS_SERVER_TLS_KEY" "\<not> flag_set WGDEVICE_HAS_WS_LISTEN WGDEVICE_HAS_WS_SERVER_BEARER" "\<not> flag_set WGDEVICE_HAS_WS_LISTEN WGDEVICE_HAS_WS_TRUSTED_PROXIES"
  "\<not> flag_set WGDEVICE_HAS_WS_SERVER_TLS_CERT WGDEVICE_REPLACE_PEERS" "\<not> flag_set WGDEVICE_HAS_WS_SERVER_TLS_CERT WGDEVICE_HAS_PRIVATE_KEY" "\<not> flag_set WGDEVICE_HAS_WS_SERVER_TLS_CERT WGDEVICE_HAS_PUBLIC_KEY" "\<not> flag_set WGDEVICE_HAS_WS_SERVER_TLS_CERT WGDEVICE_HAS_LISTEN_PORT" "\<not> flag_set WGDEVICE_HAS_WS_SERVER_TLS_CERT WGDEVICE_HAS_FWMARK" "\<not> flag_set WGDEVICE_HAS_WS_SERVER_TLS_CERT WGDEVICE_HAS_WS_LISTEN" "flag_set WGDEVICE_HAS_WS_SERVER_TLS_CERT WGDEVICE_HAS_WS_SERVER_TLS_CERT" "\<not> flag_set WGDEVICE_HAS_WS_SERVER_TLS_CERT WGDEVICE_HAS_WS_SERVER_TLS_KEY" "\<not> flag_set WGDEVICE_HAS_WS_SERVER_TLS_CERT WGDEVICE_HAS_WS_SERVER_BEARER" "\<not> flag_set WGDEVICE_HAS_WS_SERVER_TLS_CERT WGDEVICE_HAS_WS_TRUSTED_PROXIES"
  "\<not> flag_set WGDEVICE_HAS_WS_SERVER_TLS_KEY WGDEVICE_REPLACE_PEERS" "\<not> flag_set WGDEVICE_HAS_WS_SERVER_TLS_KEY WGDEVICE_HAS_PRIVATE_KEY" "\<not> flag_set WGDEVICE_HAS_WS_SERVER_TLS_KEY WGDEVICE_HAS_PUBLIC_KEY" "\<not> flag_set WGDEVICE_HAS_WS_SERVER_TLS_KEY WGDEVICE_HAS_LISTEN_PORT" "\<not> flag_set WGDEVICE_HAS_WS_SERVER_TLS_KEY WGDEVICE_HAS_FWMARK" "\<not> flag_set WGDEVICE_HAS_WS_SERVER_TLS_KEY WGDEVICE_HAS_WS_LISTEN" "\<not> flag_set WGDEVICE_HAS_WS_SERVER_TLS_KEY WGDEVICE_HAS_WS_SERVER_TLS_CERT" "flag_set WGDEVICE_HAS_WS_SERVER_TLS_KEY WGDEVICE_HAS_WS_SERVER_TLS_KEY" "\<not> flag_set WGDEVICE_HAS_WS_SERVER_TLS_KEY WGDEVICE_HAS_WS_SERVER_BEARER" "\<not> flag_set WGDEVICE_HAS_WS_SERVER_TLS_KEY WGDEVICE_HAS_WS_TRUSTED_PROXIES"
  "\<not> flag_set WGDEVICE_HAS_WS_SERVER_BEARER WGDEVICE_REPLACE_PEERS" "\<not> flag_set WGDEVICE_HAS_WS_SERVER_BEARER WGDEVICE_HAS_PRIVATE_KEY" "\<not> flag_set WGDEVICE_HAS_WS_SERVER_BEARER WGDEVICE_HAS_PUBLIC_KEY" "\<not> flag_set WGDEVICE_HAS_WS_SERVER_BEARER WGDEVICE_HAS_LISTEN_PORT" "\<not> flag_set WGDEVICE_HAS_WS_SERVER_BEARER WGDEVICE_HAS_FWMARK" "\<not> flag_set WGDEVICE_HAS_WS_SERVER_BEARER WGDEVICE_HAS_WS_LISTEN" "\<not> flag_set WGDEVICE_HAS_WS_SERVER_BEARER WGDEVICE_HAS_WS_SERVER_TLS_CERT" "\<not> flag_set WGDEVICE_HAS_WS_SERVER_BEARER WGDEVICE_HAS_WS_SERVER_TLS_KEY" "flag_set WGDEVICE_HAS_WS_SERVER_BEARER WGDEVICE_HAS_WS_SERVER_BEARER" "\<not> flag_set WGDEVICE_HAS_WS_SERVER_BEARER WGDEVICE_HAS_WS_TRUSTED_PROXIES"
  "\<not> flag_set WGDEVICE_HAS_WS_TRUSTED_PROXIES WGDEVICE_REPLACE_PEERS" "\<not> flag_set WGDEVICE_HAS_WS_TRUSTED_PROXIES WGDEVICE_HAS_PRIVATE_KEY" "\<not> flag_set WGDEVICE_HAS_WS_TRUSTED_PROXIES WGDEVICE_HAS_PUBLIC_KEY" "\<not> flag_set WGDEVICE_HAS_WS_TRUSTED_PROXIES WGDEVICE_HAS_LISTEN_PORT" "\<not> flag_set WGDEVICE_HAS_WS_TRUSTED_PROXIES WGDEVICE_HAS_FWMARK" "\<not> flag_set WGDEVICE_HAS_WS_TRUSTED_PROXIES WGDEVICE_HAS_WS_LISTEN" "\<not> flag_set WGDEVICE_HAS_WS_TRUSTED_PROXIES WGDEVICE_HAS_WS_SERVER_TLS_CERT" "\<not> flag_set WGDEVICE_HAS_WS_TRUSTED_PROXIES WGDEVICE_HAS_WS_SERVER_TLS_KEY" "\<not> flag_set WGDEVICE_HAS_WS_TRUSTED_PROXIES WGDEVICE_HAS_WS_SERVER_BEARER" "flag_set WGDEVICE_HAS_WS_TRUSTED_PROXIES WGDEVICE_HAS_WS_TRUSTED_PROXIES"
  by (simp_all add: wgdevice_flag_defs flag_set_def)

lemma flag_set_not_replace [simp]:
  "flag_set (f AND NOT WGPEER_REPLACE_ALLOWEDIPS) WGPEER_REMOVE_ME \<longleftrightarrow> flag_set f WGPEER_REMOVE_ME"
  "flag_set (f AND NOT WGPEER_REPLACE_ALLOWEDIPS) WGPEER_HAS_PUBLIC_KEY \<longleftrightarrow> flag_set f WGPEER_HAS_PUBLIC_KEY"
  "flag_set (f AND NOT WGPEER_REPLACE_ALLOWEDIPS) WGPEER_HAS_PRESHARED_KEY \<longleftrightarrow> flag_set f WGPEER_HAS_PRESHARED_KEY"
  "flag_set (f AND NOT WGPEER_REPLACE_ALLOWEDIPS) WGPEER_HAS_PERSISTENT_KEEPALIVE_INTERVAL \<longleftrightarrow> flag_set f WGPEER_HAS_PERSISTENT_KEEPALIVE_INTERVAL"
  "flag_set (f AND NOT WGPEER_REPLACE_ALLOWEDIPS) WGPEER_HAS_TRANSPORT \<longleftrightarrow> flag_set f WGPEER_HAS_TRANSPORT"
  "flag_set (f AND NOT WGPEER_REPLACE_ALLOWEDIPS) WGPEER_HAS_WS_SETTINGS \<longleftrightarrow> flag_set f WGPEER_HAS_WS_SETTINGS"
  "\<not> flag_set (f AND NOT WGPEER_REPLACE_ALLOWEDIPS) WGPEER_REPLACE_ALLOWEDIPS"
  by (simp_all add: flag_set_def wgpeer_flag_defs and.assoc)

text \<open>Well-formed keys and addresses: what the C array types give for free.\<close>

definition wf_allowedip :: "wgallowedip \<Rightarrow> bool" where
  "wf_allowedip a \<longleftrightarrow> length (ip_words a) = 4"

definition wf_sockaddr :: "sockaddr \<Rightarrow> bool" where
  "wf_sockaddr a = (case a of Sa_in6 w _ _ _ \<Rightarrow> length w = 4 | _ \<Rightarrow> True)"

definition wf_peer :: "wgpeer \<Rightarrow> bool" where
  "wf_peer p \<longleftrightarrow> wf_key (peer_public_key p) \<and> wf_key (preshared_key p) \<and> wf_sockaddr (endpoint p)
     \<and> (\<forall>a \<in> set (allowedips p). wf_allowedip a)"

definition wf_device :: "wgdevice \<Rightarrow> bool" where
  "wf_device d \<longleftrightarrow> wf_key (private_key d) \<and> wf_key (dev_public_key d) \<and> (\<forall>p \<in> set (peers d). wf_peer p)"

section \<open>Releasing a device\<close>

text \<open>
  The allocations of a device: its own, one for each peer and each allowed IP, and one for each member of type
  \<open>char *\<close> of the two structs that is not NULL. \<open>free_wgdevice\<close> is the sequence of its reads through pointers
  and its calls of \<open>free\<close> on non-NULL pointers, in the order of the C loops (the next pointer is read
  before the element is released).
\<close>

datatype device_str = S_ws_listen | S_ws_server_tls_cert | S_ws_server_tls_key | S_ws_server_bearer | S_ws_trusted_proxies

datatype peer_str = S_ws_url | S_wstunnel_target | S_ws_bearer | S_ws_tls_ca | S_ws_tls_cert | S_ws_tls_key

datatype alloc =
    A_device
  | A_device_str device_str
  | A_peer nat
  | A_peer_str nat peer_str
  | A_allowedip nat nat

datatype mem_event = Deref alloc | Free alloc

definition free_str :: "alloc \<Rightarrow> string option \<Rightarrow> mem_event list" where
  "free_str a s = (case s of None \<Rightarrow> [] | Some _ \<Rightarrow> [Free a])"

fun free_allowedips :: "nat \<Rightarrow> nat \<Rightarrow> wgallowedip list \<Rightarrow> mem_event list" where
  "free_allowedips i j [] = []"
| "free_allowedips i j (a # as) =
     Deref (A_allowedip i j) # Free (A_allowedip i j) # free_allowedips i (Suc j) as"

text \<open>The calls of \<open>free\<close> on members, in their order, each with the member that is read for it.\<close>

definition peer_strs :: "nat \<Rightarrow> wgpeer \<Rightarrow> (alloc \<times> string option) list" where
  "peer_strs i p =
     [(A_peer_str i S_ws_url, ws_url p), (A_peer_str i S_wstunnel_target, wstunnel_target p), (A_peer_str i S_ws_bearer, ws_bearer p),
      (A_peer_str i S_ws_tls_ca, ws_tls_ca p), (A_peer_str i S_ws_tls_cert, ws_tls_cert p), (A_peer_str i S_ws_tls_key, ws_tls_key p)]"

definition device_strs :: "wgdevice \<Rightarrow> (alloc \<times> string option) list" where
  "device_strs d =
     [(A_device_str S_ws_listen, ws_listen d), (A_device_str S_ws_server_tls_cert, ws_server_tls_cert d),
      (A_device_str S_ws_server_tls_key, ws_server_tls_key d), (A_device_str S_ws_server_bearer, ws_server_bearer d),
      (A_device_str S_ws_trusted_proxies, ws_trusted_proxies d)]"

fun free_strs :: "alloc \<Rightarrow> (alloc \<times> string option) list \<Rightarrow> mem_event list" where
  "free_strs owner [] = []"
| "free_strs owner (s # ss) = Deref owner # free_str (fst s) (snd s) @ free_strs owner ss"

definition free_peer :: "nat \<Rightarrow> wgpeer \<Rightarrow> mem_event list" where
  "free_peer i p =
     [Deref (A_peer i), Deref (A_peer i)] @ free_allowedips i 0 (allowedips p)
     @ free_strs (A_peer i) (peer_strs i p) @ [Free (A_peer i)]"

fun free_peers :: "nat \<Rightarrow> wgpeer list \<Rightarrow> mem_event list" where
  "free_peers i [] = []"
| "free_peers i (p # ps) = free_peer i p @ free_peers (Suc i) ps"

definition free_wgdevice :: "wgdevice option \<Rightarrow> mem_event list" where
  "free_wgdevice dev =
     (case dev of
        None \<Rightarrow> []
      | Some d \<Rightarrow>
          Deref A_device # free_peers 0 (peers d)
          @ free_strs A_device (device_strs d) @ [Free A_device])"

subsection \<open>Every allocation is released once, and nothing is read after its release\<close>

fun trace_safe :: "alloc set \<Rightarrow> mem_event list \<Rightarrow> bool" where
  "trace_safe F [] = True"
| "trace_safe F (Deref a # es) = (a \<notin> F \<and> trace_safe F es)"
| "trace_safe F (Free a # es) = (a \<notin> F \<and> trace_safe (insert a F) es)"

fun freed :: "mem_event list \<Rightarrow> alloc list" where
  "freed [] = []"
| "freed (Deref a # es) = freed es"
| "freed (Free a # es) = a # freed es"

text \<open>
  What a device owns does not refer to the code that releases it: the value of each member of the structs,
  whichever it is.
\<close>

fun device_member :: "device_str \<Rightarrow> wgdevice \<Rightarrow> string option" where
  "device_member S_ws_listen d = ws_listen d"
| "device_member S_ws_server_tls_cert d = ws_server_tls_cert d"
| "device_member S_ws_server_tls_key d = ws_server_tls_key d"
| "device_member S_ws_server_bearer d = ws_server_bearer d"
| "device_member S_ws_trusted_proxies d = ws_trusted_proxies d"

fun peer_member :: "peer_str \<Rightarrow> wgpeer \<Rightarrow> string option" where
  "peer_member S_ws_url p = ws_url p"
| "peer_member S_wstunnel_target p = wstunnel_target p"
| "peer_member S_ws_bearer p = ws_bearer p"
| "peer_member S_ws_tls_ca p = ws_tls_ca p"
| "peer_member S_ws_tls_cert p = ws_tls_cert p"
| "peer_member S_ws_tls_key p = ws_tls_key p"

definition owned :: "wgdevice \<Rightarrow> alloc set" where
  "owned d =
     {A_device} \<union> {A_device_str m |m. device_member m d \<noteq> None}
     \<union> {A_peer i |i. i < length (peers d)}
     \<union> {A_peer_str i m |i m. i < length (peers d) \<and> peer_member m (peers d ! i) \<noteq> None}
     \<union> {A_allowedip i j |i j. i < length (peers d) \<and> j < length (allowedips (peers d ! i))}"

lemma freed_append [simp]: "freed (xs @ ys) = freed xs @ freed ys"
  by (induction xs rule: freed.induct) auto

lemma trace_safe_append [simp]:
  "trace_safe F (xs @ ys) \<longleftrightarrow> trace_safe F xs \<and> trace_safe (F \<union> set (freed xs)) ys"
  by (induction F xs rule: trace_safe.induct) auto

lemma trace_safe_distinct: "trace_safe F es \<Longrightarrow> distinct (freed es) \<and> set (freed es) \<inter> F = {}"
  by (induction F es rule: trace_safe.induct) auto

text \<open>Which peer an allocation belongs to.\<close>

fun alloc_peer :: "alloc \<Rightarrow> nat option" where
  "alloc_peer (A_peer i) = Some i"
| "alloc_peer (A_peer_str i _) = Some i"
| "alloc_peer (A_allowedip i _) = Some i"
| "alloc_peer _ = None"

lemma freed_allowedips:
  "set (freed (free_allowedips i j as)) = {A_allowedip i n |n. j \<le> n \<and> n < j + length as}"
proof (induction as arbitrary: j)
  case Nil
  then show ?case by simp
next
  case (Cons a as)
  show ?case by (auto simp: Cons)
qed

lemma free_allowedips_safe: "\<forall>n \<ge> j. A_allowedip i n \<notin> F \<Longrightarrow> trace_safe F (free_allowedips i j as)"
  by (induction as arbitrary: j F) auto

lemma freed_strs: "set (freed (free_strs owner ss)) = {a. \<exists>s. (a, Some s) \<in> set ss}"
  by (induction ss) (auto simp: free_str_def split: option.splits)

lemma free_strs_safe:
  assumes "owner \<notin> F" "owner \<notin> fst ` set ss" "distinct (map fst ss)" "fst ` set ss \<inter> F = {}"
  shows "trace_safe F (free_strs owner ss)"
  using assms
proof (induction ss arbitrary: F)
  case (Cons s ss)
  have "trace_safe F (free_strs owner ss)" "trace_safe (insert (fst s) F) (free_strs owner ss)"
    using Cons.prems by (intro Cons.IH; force)+
  then show ?case using Cons.prems by (auto simp: free_str_def split: option.split)
qed simp

lemma peer_strs_members: "{a. \<exists>s. (a, Some s) \<in> set (peer_strs i p)} = {A_peer_str i m |m. peer_member m p \<noteq> None}"
proof (intro equalityI subsetI)
  fix a
  assume "a \<in> {A_peer_str i m |m. peer_member m p \<noteq> None}"
  then obtain m s where "a = A_peer_str i m" "peer_member m p = Some s" by blast
  then show "a \<in> {a. \<exists>s. (a, Some s) \<in> set (peer_strs i p)}" by (cases m) (auto simp: peer_strs_def)
qed (auto simp: peer_strs_def, (metis peer_member.simps option.discI)+)

lemma device_strs_members: "{a. \<exists>s. (a, Some s) \<in> set (device_strs d)} = {A_device_str m |m. device_member m d \<noteq> None}"
proof (intro equalityI subsetI)
  fix a
  assume "a \<in> {A_device_str m |m. device_member m d \<noteq> None}"
  then obtain m s where "a = A_device_str m" "device_member m d = Some s" by blast
  then show "a \<in> {a. \<exists>s. (a, Some s) \<in> set (device_strs d)}" by (cases m) (auto simp: device_strs_def)
qed (auto simp: device_strs_def, (metis device_member.simps option.discI)+)

lemma freed_members:
  "set (freed (free_strs owner (peer_strs i p))) = {A_peer_str i m |m. peer_member m p \<noteq> None}"
  "set (freed (free_strs owner (device_strs d))) = {A_device_str m |m. device_member m d \<noteq> None}"
  by (simp_all only: freed_strs peer_strs_members device_strs_members)

lemma freed_peer:
  "set (freed (free_peer i p)) =
     {A_peer i} \<union> {A_allowedip i n |n. n < length (allowedips p)}
     \<union> {A_peer_str i m |m. peer_member m p \<noteq> None}"
  by (auto simp: free_peer_def freed_allowedips freed_members)

lemma free_peer_safe:
  assumes "\<forall>a \<in> F. alloc_peer a \<noteq> Some i"
  shows "trace_safe F (free_peer i p)"
proof -
  have *: "A_peer i \<notin> F" "\<And>n. A_allowedip i n \<notin> F" "\<And>k. A_peer_str i k \<notin> F"
    using assms by (auto dest!: bspec)
  have "trace_safe (F \<union> set (freed (free_allowedips i 0 (allowedips p))))
      (free_strs (A_peer i) (peer_strs i p))"
    using * by (intro free_strs_safe) (auto simp: freed_allowedips peer_strs_def)
  then show ?thesis
    using * by (auto simp: free_peer_def free_allowedips_safe freed_allowedips freed_members)
qed

lemma freed_peers:
  "set (freed (free_peers i ps)) = (\<Union>k < length ps. set (freed (free_peer (i + k) (ps ! k))))"
proof (induction ps arbitrary: i)
  case Nil
  then show ?case by simp
next
  case (Cons p ps)
  show ?case
    by (simp add: Cons lessThan_Suc_eq_insert_0 image_image)
qed

lemma alloc_peer_freed_peer: "a \<in> set (freed (free_peer i p)) \<Longrightarrow> alloc_peer a = Some i"
  by (auto simp: freed_peer)

lemma free_peers_safe:
  "\<forall>a \<in> F. \<forall>k \<ge> i. alloc_peer a \<noteq> Some k \<Longrightarrow> trace_safe F (free_peers i ps)"
proof (induction ps arbitrary: i F)
  case Nil
  then show ?case by simp
next
  case (Cons p ps)
  then have "trace_safe F (free_peer i p)" by (intro free_peer_safe) auto
  moreover have "trace_safe (F \<union> set (freed (free_peer i p))) (free_peers (Suc i) ps)"
    using Cons.prems by (intro Cons.IH) (auto dest: alloc_peer_freed_peer)
  ultimately show ?case by simp
qed

lemma alloc_peer_freed_peers: "a \<in> set (freed (free_peers i ps)) \<Longrightarrow> alloc_peer a \<noteq> None"
  by (auto simp: freed_peers dest: alloc_peer_freed_peer)

lemma free_wgdevice_safe: "trace_safe {} (free_wgdevice (Some d))"
proof -
  let ?F = "set (freed (free_peers 0 (peers d)))"
  have F: "A_device \<notin> ?F" "\<And>k. A_device_str k \<notin> ?F"
    by (auto dest: alloc_peer_freed_peers)
  then have "trace_safe ?F (free_strs A_device (device_strs d))"
    by (intro free_strs_safe) (auto simp: device_strs_def)
  then show ?thesis
    using F by (auto simp: free_wgdevice_def free_peers_safe freed_members)
qed

lemma free_wgdevice_complete: "set (freed (free_wgdevice (Some d))) = owned d"
  by (auto simp: free_wgdevice_def freed_peers freed_members freed_peer owned_def)

section \<open>Properties\<close>

text \<open>
  C22: \<open>free_wgdevice\<close> releases every allocation the device owns exactly once and nothing else, and
  reads no memory it has released.
\<close>

theorem free_wgdevice_correct:
  "trace_safe {} (free_wgdevice (Some d)) \<and> distinct (freed (free_wgdevice (Some d)))
   \<and> set (freed (free_wgdevice (Some d))) = owned d"
  using free_wgdevice_safe [of d] trace_safe_distinct [OF free_wgdevice_safe [of d]] free_wgdevice_complete [of d] by simp

end
