(* ===== verification/ConfigValues.thy ===== *)
theory ConfigValues
  imports Containers
begin

text \<open>
  The value parsers of \<open>src/src/config.c\<close>: ports, fwmarks, keys, key files, addresses, endpoints with
  the name-resolution retry loop, WebSocket URLs and settings, netmasks and allowed-IP lists.

  What the operating system provides is an argument, \<open>sysenv\<close>: the environment variables, the answers
  of \<open>getaddrinfo\<close> (one per attempt, since a name may resolve later), \<open>inet_pton\<close>, and the files. Each
  diagnostic the C code prints before it returns false is a constructor of \<open>cfg_error\<close>; the
  constructors for secrets carry no value, as the code never prints one; \<open>E_null_deref\<close> stands for a read
  through a NULL pointer, and theory \<open>Config\<close> shows that it does not happen. The result \<open>None\<close> of
  \<open>parse_endpoint\<close> is a retry loop that never ends. An out-parameter is part of the result, and what
  an unsuccessful call has left in it is not modelled, because every caller then discards the device.
\<close>

section \<open>The operating system\<close>

datatype eai = EAI_NONAME | EAI_FAIL | EAI_NODATA | EAI_SYSTEM nat | EAI_TRANSIENT nat

record addrinfo =
  ai_family :: u16
  ai_addrlen :: nat
  ai_addr :: sockaddr

text \<open>
  A file as \<open>fopen\<close> gives it: the bytes that can be read, whether reading then ends in an error rather than
  at the end of the file, and whether \<open>ftell\<close> works on it. A read error sets \<open>errno\<close>, so that the
  test \<open>ferror(f) && errno\<close> of \<open>parse_keyfile\<close> is \<open>f_error\<close>.
\<close>

record file_data =
  f_bytes :: string
  f_error :: bool
  f_seekable :: bool

record sysenv =
  getenv :: "string \<Rightarrow> string option"
  getaddrinfo :: "string option \<Rightarrow> string \<Rightarrow> nat \<Rightarrow> eai + addrinfo"
  inet_pton4 :: "string \<Rightarrow> u32 option"
  inet_pton6 :: "string \<Rightarrow> u32 list option"
  fopen :: "string \<Rightarrow> file_data option"

definition sizeof_sockaddr_in :: nat where "sizeof_sockaddr_in = 16"
definition sizeof_sockaddr_in6 :: nat where "sizeof_sockaddr_in6 = 28"

definition is_inet :: "addrinfo \<Rightarrow> bool" where
  "is_inet ai \<longleftrightarrow> ai_family ai = AF_INET \<and> ai_addrlen ai = sizeof_sockaddr_in"

definition is_inet6 :: "addrinfo \<Rightarrow> bool" where
  "is_inet6 ai \<longleftrightarrow> ai_family ai = AF_INET6 \<and> ai_addrlen ai = sizeof_sockaddr_in6"

definition sa_port :: "sockaddr \<Rightarrow> u16" where
  "sa_port a = (case a of Sa_none \<Rightarrow> 0 | Sa_in _ p \<Rightarrow> p | Sa_in6 _ p _ _ \<Rightarrow> p)"

datatype ws_problem =
    Ws_url_without_mode
  | Ws_settings_on_udp
  | Ws_dialing_without_endpoint
  | Wstunnel_without_target
  | Ws_inbound_with_endpoint
  | Wstunnel_inbound
  | Ws_inbound_with_target
  | Ws_target_without_wstunnel

datatype cfg_error =
    E_empty_port
  | E_resolve eai string
  | E_not_inet string
  | E_fwmark string
  | E_key string
  | E_keyfile_open
  | E_keyfile_length
  | E_keyfile_trailing char
  | E_keyfile_read
  | E_ip string
  | E_exit_dns_retries string
  | E_empty_endpoint
  | E_endpoint_brace string
  | E_endpoint_port string
  | E_keepalive string
  | E_ws_url string
  | E_ws_mode string
  | E_ws_target string
  | E_bool string
  | E_millis string
  | E_empty_value
  | E_ws_listen string
  | E_empty_bearer
  | E_bearer_open string
  | E_bearer_read string
  | E_bearer_long string
  | E_bearer_empty_file string
  | E_ws_peer ws_problem
  | E_allowedip string
  | E_line string
  | E_missing_public_key
  | E_argument string
  | E_null_deref

section \<open>Numbers and keys\<close>

definition get_value :: "string \<Rightarrow> string \<Rightarrow> string option" where
  "get_value line key =
     (if length key \<ge> length line then None
      else if \<not> strncaseeq line key (length key) then None
      else Some (drop (length key) line))"

definition parse_port :: "sysenv \<Rightarrow> u32 \<Rightarrow> string \<Rightarrow> cfg_error + u16 \<times> u32" where
  "parse_port env flags value =
     (if length value = 0 then Inl E_empty_port
      else case getaddrinfo env None value 0 of
             Inl ret \<Rightarrow> Inl (E_resolve ret value)
           | Inr resolved \<Rightarrow>
               if is_inet resolved then Inr (sa_port (ai_addr resolved), flags OR WGDEVICE_HAS_LISTEN_PORT)
               else if is_inet6 resolved then Inr (sa_port (ai_addr resolved), flags OR WGDEVICE_HAS_LISTEN_PORT)
               else Inl (E_not_inet value))"

text \<open>\<open>value[i]\<close>, the NUL character at the end of the string.\<close>

definition char_at :: "string \<Rightarrow> nat \<Rightarrow> char" where
  "char_at s i = (if i < length s then s ! i else NUL)"

definition UINT32_MAX :: nat where "UINT32_MAX = 4294967295"

definition fwmark_base :: "string \<Rightarrow> nat" where
  "fwmark_base value =
     (if length value > 2 \<and> char_at value 0 = CHR ''0'' \<and> char_at value 1 = CHR ''x'' then 16 else 10)"

definition parse_fwmark :: "u32 \<Rightarrow> string \<Rightarrow> cfg_error + u32 \<times> u32" where
  "parse_fwmark flags value =
     (if strcaseeq value ''off'' then Inr (0, flags OR WGDEVICE_HAS_FWMARK)
      else if \<not> char_is_digit (c_int (char_at value 0)) then Inl (E_fwmark value)
      else
        let (ret, end) = strtoul (fwmark_base value) value
        in if end \<noteq> [] \<or> ret > UINT32_MAX then Inl (E_fwmark value)
           else Inr (word_of_nat ret, flags OR WGDEVICE_HAS_FWMARK))"

definition parse_key :: "string \<Rightarrow> cfg_error + key" where
  "parse_key value = (case key_from_base64 value of None \<Rightarrow> Inl (E_key value) | Some key \<Rightarrow> Inr key)"

fun find_trailing :: "string \<Rightarrow> char option" where
  "find_trailing [] = None"
| "find_trailing (c # cs) = (if char_is_space (of_char c) then find_trailing cs else Some c)"

definition parse_keyfile :: "sysenv \<Rightarrow> string \<Rightarrow> cfg_error + key" where
  "parse_keyfile env path =
     (case fopen env path of
        None \<Rightarrow> Inl E_keyfile_open
      | Some f \<Rightarrow>
          if length (f_bytes f) < WG_KEY_LEN_BASE64 - 1 then
            (if \<not> f_error f \<and> f_bytes f = [] \<and> f_seekable f then Inr zero_key else Inl E_keyfile_length)
          else
            let dst = take (WG_KEY_LEN_BASE64 - 1) (f_bytes f)
            in (case find_trailing (drop (WG_KEY_LEN_BASE64 - 1) (f_bytes f)) of
                 Some c \<Rightarrow> Inl (E_keyfile_trailing c)
               | None \<Rightarrow> if f_error f then Inl E_keyfile_read else parse_key (c_str dst)))"

definition parse_ip :: "sysenv \<Rightarrow> wgallowedip \<Rightarrow> string \<Rightarrow> cfg_error + wgallowedip" where
  "parse_ip env allowedip value =
     (let a0 = allowedip\<lparr>family := AF_UNSPEC\<rparr>;
          a1 = (if strchr value CHR '':'' \<noteq> None
                then (case inet_pton6 env value of Some w \<Rightarrow> a0\<lparr>ip_words := w, family := AF_INET6\<rparr> | None \<Rightarrow> a0)
                else (case inet_pton4 env value of Some w \<Rightarrow> (set_ip4 w a0)\<lparr>family := AF_INET\<rparr> | None \<Rightarrow> a0))
      in if family a1 = AF_UNSPEC then Inl (E_ip value) else Inr a1)"

section \<open>Endpoints\<close>

definition INT_MAX :: nat where "INT_MAX = 2147483647"

definition parse_dns_retries :: "sysenv \<Rightarrow> cfg_error + int" where
  "parse_dns_retries env =
     (case getenv env ''WG_ENDPOINT_RESOLUTION_RETRIES'' of
        None \<Rightarrow> Inr 15
      | Some retries \<Rightarrow>
          if retries = ''infinity'' then Inr (- 1)
          else let (ret, end) = strtoul 10 retries
               in if end \<noteq> [] \<or> ret > INT_MAX then Inl (E_exit_dns_retries retries) else Inr (int ret))"

text \<open>The host and the port of \<open>[host]:port\<close> or \<open>host:port\<close>.\<close>

definition split_endpoint :: "string \<Rightarrow> cfg_error + string \<times> string" where
  "split_endpoint value =
     (if length value = 0 then Inl E_empty_endpoint
      else if char_at value 0 = CHR ''['' then
        (case strchr value CHR '']'' of
           None \<Rightarrow> Inl (E_endpoint_brace value)
         | Some rest \<Rightarrow>
             let begin = takeWhile (\<lambda>c. c \<noteq> CHR '']'') (tl value);
                 sep = char_at (tl rest) 0;
                 end = tl (tl rest)
             in if sep \<noteq> CHR '':'' \<or> end = [] then Inl (E_endpoint_port value) else Inr (begin, end))
      else
        (case strrchr value CHR '':'' of
           None \<Rightarrow> Inl (E_endpoint_port value)
         | Some (begin, end) \<Rightarrow> if end = [] then Inl (E_endpoint_port value) else Inr (begin, end)))"

definition permanent_failure :: "eai \<Rightarrow> bool" where
  "permanent_failure ret \<longleftrightarrow> ret = EAI_NONAME \<or> ret = EAI_FAIL \<or> ret = EAI_NODATA"

definition next_timeout :: "u32 \<Rightarrow> u32" where
  "next_timeout timeout = (if 20000000 < timeout * 6 div 5 then 20000000 else timeout * 6 div 5)"

text \<open>
  The retry loop: the number \<open>k\<close> of the attempt, the retries left (negative: no limit), the timeout
  and the sleeps so far. A value means the loop has ended.
\<close>

partial_function (option) resolve_loop ::
  "sysenv \<Rightarrow> string \<Rightarrow> string \<Rightarrow> string \<Rightarrow> int \<Rightarrow> u32 \<Rightarrow> nat \<Rightarrow> u32 list \<Rightarrow> ((cfg_error + addrinfo) \<times> u32 list) option"
where
  "resolve_loop env begin end value retries timeout k slept =
     (case getaddrinfo env (Some begin) end k of
        Inr resolved \<Rightarrow> Some (Inr resolved, slept)
      | Inl ret \<Rightarrow>
          (let last_try = (retries = 0);
               retries' = (if retries \<ge> 0 then retries - 1 else retries)
           in if permanent_failure ret \<or> last_try then Some (Inl (E_resolve ret value), slept)
              else resolve_loop env begin end value retries' (next_timeout timeout) (Suc k) (slept @ [timeout])))"

definition parse_endpoint :: "sysenv \<Rightarrow> string \<Rightarrow> (cfg_error, sockaddr) run" where
  "parse_endpoint env value =
     (case parse_dns_retries env of
        Inl e \<Rightarrow> Some (Inl e)
      | Inr retries \<Rightarrow>
          (case split_endpoint value of
            Inl e \<Rightarrow> Some (Inl e)
          | Inr (begin, end) \<Rightarrow>
              (case resolve_loop env begin end value retries 1000000 0 [] of
                None \<Rightarrow> None
              | Some (Inl e, _) \<Rightarrow> Some (Inl e)
              | Some (Inr resolved, _) \<Rightarrow>
                  if is_inet resolved \<or> is_inet6 resolved then Some (Inr (ai_addr resolved))
                  else Some (Inl (E_not_inet value)))))"

definition parse_persistent_keepalive :: "u32 \<Rightarrow> string \<Rightarrow> cfg_error + u16 \<times> u32" where
  "parse_persistent_keepalive flags value =
     (if strcaseeq value ''off'' then Inr (0, flags OR WGPEER_HAS_PERSISTENT_KEEPALIVE_INTERVAL)
      else if \<not> char_is_digit (c_int (char_at value 0)) then Inl (E_keepalive value)
      else
        let (ret, end) = strtoul 10 value
        in if end \<noteq> [] \<or> ret > 65535 then Inl (E_keepalive value)
           else Inr (word_of_nat ret, flags OR WGPEER_HAS_PERSISTENT_KEEPALIVE_INTERVAL))"

section \<open>WebSocket settings\<close>

definition is_ws_url :: "string \<Rightarrow> bool" where
  "is_ws_url v \<longleftrightarrow> strncaseeq v ''ws://'' 5 \<or> strncaseeq v ''wss://'' 6"

text \<open>The loop over the authority: the index of the last colon before the first slash.\<close>

fun scan_colon :: "nat \<Rightarrow> nat option \<Rightarrow> string \<Rightarrow> nat option" where
  "scan_colon i colon [] = colon"
| "scan_colon i colon (q # qs) =
     (if q = CHR ''/'' then colon
      else scan_colon (Suc i) (if q = CHR '':'' then Some i else colon) qs)"

definition ws_url_split :: "string \<Rightarrow> nat \<Rightarrow> nat \<Rightarrow> (string \<times> string) option" where
  "ws_url_split url hostsz portsz =
     (case (if strncaseeq url ''wss://'' 6 then Some (drop 6 url)
            else if strncaseeq url ''ws://'' 5 then Some (drop 5 url)
            else None) of
        None \<Rightarrow> None
      | Some p \<Rightarrow>
          (case (if char_at p 0 = CHR ''['' then
                  (case strchr (tl p) CHR '']'' of
                     None \<Rightarrow> None
                   | Some hend \<Rightarrow>
                       if char_at hend 1 \<noteq> CHR '':'' then None
                       else Some (takeWhile (\<lambda>c. c \<noteq> CHR '']'') (tl p), drop 2 hend))
                else
                  (case scan_colon 0 None p of
                     None \<Rightarrow> None
                   | Some colon \<Rightarrow> Some (take colon p, drop (Suc colon) p))) of
            None \<Rightarrow> None
          | Some (host, pstart) \<Rightarrow>
              let port = takeWhile (\<lambda>c. c \<noteq> CHR ''/'') pstart
              in if host = [] \<or> port = [] then None
                 else if length host \<ge> hostsz \<or> length port \<ge> portsz then None
                 else Some (host, port)))"

text \<open>\<open>snprintf\<close> into \<open>char hostport[300]\<close> keeps 299 characters.\<close>

definition ws_hostport :: "string \<Rightarrow> string \<Rightarrow> string" where
  "ws_hostport host port =
     take 299 (if strchr host CHR '':'' \<noteq> None then ''['' @ host @ '']:'' @ port else host @ '':'' @ port)"

definition parse_ws_endpoint :: "sysenv \<Rightarrow> wgpeer \<Rightarrow> string \<Rightarrow> (cfg_error, wgpeer) run" where
  "parse_ws_endpoint env peer url =
     (case ws_url_split url 256 16 of
        None \<Rightarrow> Some (Inl (E_ws_url url))
      | Some (host, port) \<Rightarrow>
          (case parse_endpoint env (ws_hostport host port) of
            None \<Rightarrow> None
          | Some (Inl e) \<Rightarrow> Some (Inl e)
          | Some (Inr addr) \<Rightarrow> Some (Inr (peer\<lparr>endpoint := addr, ws_url := Some url\<rparr>))))"

definition parse_ws_mode :: "string \<Rightarrow> cfg_error + wgpeer_transport" where
  "parse_ws_mode value =
     (if value \<noteq> ''websocket'' \<and> value \<noteq> ''wstunnel'' then Inl (E_ws_mode value)
      else Inr (if value = ''wstunnel'' then WGPEER_TRANSPORT_WSTUNNEL else WGPEER_TRANSPORT_WEBSOCKET))"

definition parse_ws_target :: "string \<Rightarrow> cfg_error + string" where
  "parse_ws_target value =
     (case strrchr value CHR '':'' of
        None \<Rightarrow> Inl (E_ws_target value)
      | Some (host, port) \<Rightarrow>
          if host = [] \<or> port = [] \<or> list_ex (\<lambda>c. c_int c < 48 \<or> c_int c > 57) port
          then Inl (E_ws_target value) else Inr value)"

definition parse_ws_bool :: "string \<Rightarrow> cfg_error + bool" where
  "parse_ws_bool value =
     (if value = ''true'' then Inr True else if value = ''false'' then Inr False else Inl (E_bool value))"

definition parse_ws_millis :: "string \<Rightarrow> cfg_error + u32" where
  "parse_ws_millis value =
     (let (n, end) = strtoul 10 value
      in if value = [] \<or> end \<noteq> [] \<or> n > UINT32_MAX then Inl (E_millis value) else Inr (word_of_nat n))"

definition parse_ws_str :: "string \<Rightarrow> cfg_error + string" where
  "parse_ws_str value = (if value = [] then Inl E_empty_value else Inr value)"

definition parse_ws_listen :: "u32 \<Rightarrow> string \<Rightarrow> cfg_error + string option \<times> u32" where
  "parse_ws_listen flags value =
     (if value \<noteq> [] \<and> \<not> is_ws_url value then Inl (E_ws_listen value)
      else Inr (if value = [] then None else Some value, flags OR WGDEVICE_HAS_WS_LISTEN))"

definition parse_ws_device_str :: "u32 \<Rightarrow> u32 \<Rightarrow> string \<Rightarrow> string option \<times> u32" where
  "parse_ws_device_str flags b value = (if value = [] then None else Some value, flags OR b)"

definition parse_ws_secret :: "string \<Rightarrow> cfg_error + string" where
  "parse_ws_secret value = (if value = [] then Inl E_empty_bearer else Inr value)"

text \<open>\<open>fgets\<close>: a line with its newline, at most \<open>n - 1\<close> bytes; NULL at the end or on a read error.\<close>

fun fgets_chunk :: "nat \<Rightarrow> string \<Rightarrow> string" where
  "fgets_chunk 0 bytes = []"
| "fgets_chunk (Suc n) [] = []"
| "fgets_chunk (Suc n) (c # cs) = (if c = newline then [c] else c # fgets_chunk n cs)"

definition fgets :: "nat \<Rightarrow> file_data \<Rightarrow> (string \<times> string) option" where
  "fgets n f =
     (let chunk = fgets_chunk (n - 1) (f_bytes f);
          rest = drop (length chunk) (f_bytes f)
      in if chunk = [] then None
         else if f_error f \<and> rest = [] \<and> length chunk < n - 1 \<and> last chunk \<noteq> newline then None
         else Some (chunk, rest))"

definition parse_ws_secret_file :: "sysenv \<Rightarrow> string \<Rightarrow> cfg_error + string" where
  "parse_ws_secret_file env path =
     (case fopen env path of
        None \<Rightarrow> Inl (E_bearer_open path)
      | Some f \<Rightarrow>
          (case fgets 8192 f of
            None \<Rightarrow> Inl (E_bearer_read path)
          | Some (chunk, rest) \<Rightarrow>
              let buf = c_str chunk
              in if buf \<noteq> [] \<and> last buf = newline then
                   (if butlast buf = [] then Inl (E_bearer_empty_file path) else Inr (butlast buf))
                 else if length buf = 8191 \<and> rest \<noteq> [] then Inl (E_bearer_long path)
                 else if buf = [] then Inl (E_bearer_empty_file path)
                 else Inr buf))"

definition validate_ws_peer :: "wgpeer \<Rightarrow> ws_problem option" where
  "validate_ws_peer peer =
     (let has_ep = has_endpoint (endpoint peer)
      in if \<not> peer_has peer WGPEER_HAS_TRANSPORT then None
         else if transport peer = WGPEER_TRANSPORT_UDP then
           (if ws_url peer \<noteq> None then Some Ws_url_without_mode
            else if peer_has peer WGPEER_HAS_WS_SETTINGS then Some Ws_settings_on_udp
            else None)
         else if ws_url peer \<noteq> None \<and> \<not> has_ep then Some Ws_dialing_without_endpoint
         else if ws_url peer \<noteq> None \<and> transport peer = WGPEER_TRANSPORT_WSTUNNEL \<and> wstunnel_target peer = None
           then Some Wstunnel_without_target
         else if ws_url peer = None \<and> has_ep then Some Ws_inbound_with_endpoint
         else if ws_url peer = None \<and> transport peer = WGPEER_TRANSPORT_WSTUNNEL then Some Wstunnel_inbound
         else if ws_url peer = None \<and> wstunnel_target peer \<noteq> None then Some Ws_inbound_with_target
         else if transport peer = WGPEER_TRANSPORT_WEBSOCKET \<and> wstunnel_target peer \<noteq> None
           then Some Ws_target_without_wstunnel
         else None)"

section \<open>Allowed IPs\<close>

text \<open>The loop of \<open>validate_netmask\<close> downwards from word \<open>i - 1\<close>.\<close>

fun netmask_loop :: "u32 list \<Rightarrow> nat \<Rightarrow> nat \<Rightarrow> bool" where
  "netmask_loop ip c 0 = True"
| "netmask_loop ip c (Suc i) =
     (if c \<ge> 32 * (i + 1) then True
      else let mask = (if c > 32 * i then drop_bit (c - 32 * i) (NOT 0) else NOT 0)
           in if ip ! i AND mask \<noteq> 0 then False else netmask_loop ip c i)"

definition validate_netmask :: "wgallowedip \<Rightarrow> bool" where
  "validate_netmask a =
     (if family a = AF_INET then netmask_loop (ip_words a) (unat (cidr a)) 1
      else if family a = AF_INET6 then netmask_loop (ip_words a) (unat (cidr a)) 4
      else True)"

definition parse_ip_prefix :: "wgpeer \<Rightarrow> u32 \<Rightarrow> string \<Rightarrow> wgpeer \<times> u32 \<times> string" where
  "parse_ip_prefix peer flags entry =
     (if char_at entry 0 = CHR ''-'' then
        (peer\<lparr>peer_flags := peer_flags peer AND NOT WGPEER_REPLACE_ALLOWEDIPS\<rparr>, flags OR WGALLOWEDIP_REMOVE_ME, tl entry)
      else if char_at entry 0 = CHR ''+'' then
        (peer\<lparr>peer_flags := peer_flags peer AND NOT WGPEER_REPLACE_ALLOWEDIPS\<rparr>, flags, tl entry)
      else (peer, flags, entry))"

text \<open>The prefix length of an entry: after the slash, or the width of the address family.\<close>

definition parse_cidr :: "u16 \<Rightarrow> string option \<Rightarrow> nat option" where
  "parse_cidr fam mask_str =
     (case mask_str of
        Some m \<Rightarrow>
          if \<not> char_is_digit (c_int (char_at m 0)) then None
          else let (c, end) = strtoul 10 m
               in if end \<noteq> [] \<or> (c > 32 \<and> fam = AF_INET) \<or> (c > 128 \<and> fam = AF_INET6) then None else Some c
      | None \<Rightarrow> if fam = AF_INET then Some 32 else if fam = AF_INET6 then Some 128 else None)"

text \<open>
  The body of the loop for one entry: the new allowed IP, and whether it is warned about (with the
  address and the mask the warning prints, a NULL mask being \<open>None\<close>).
\<close>

definition parse_allowedip :: "sysenv \<Rightarrow> u32 \<Rightarrow> string \<Rightarrow> cfg_error + wgallowedip \<times> (string \<times> string option) option" where
  "parse_allowedip env flags saved_entry =
     (let (ip, mask_str) = strsep saved_entry CHR ''/''
      in (case parse_ip env zero_allowedip ip of
           Inl e \<Rightarrow> Inl e
         | Inr a \<Rightarrow>
             (case parse_cidr (family a) mask_str of
               None \<Rightarrow> Inl (E_allowedip saved_entry)
             | Some c \<Rightarrow>
                 let b = a\<lparr>cidr := word_of_nat c, aip_flags := flags\<rparr>
                 in Inr (b, if validate_netmask b then None else Some (ip, mask_str)))))"

text \<open>Linking an element after the one a cursor points to, or at the head when it is NULL.\<close>

definition link_after :: "nat option \<Rightarrow> 'a \<Rightarrow> 'a list \<Rightarrow> 'a list" where
  "link_after cur x xs = (case cur of None \<Rightarrow> [x] | Some i \<Rightarrow> take (Suc i) xs @ [x])"

definition cursor_next :: "nat option \<Rightarrow> nat option" where
  "cursor_next cur = (case cur of None \<Rightarrow> Some 0 | Some i \<Rightarrow> Some (Suc i))"

function (sequential) allowedips_loop ::
  "sysenv \<Rightarrow> wgpeer \<Rightarrow> nat option \<Rightarrow> string option \<Rightarrow> cfg_error + wgpeer \<times> nat option" where
  "allowedips_loop env peer allowedip None = Inr (peer, allowedip)"
| "allowedips_loop env peer allowedip (Some sep) =
     (let (mask, sep') = strsep sep CHR '','';
          (peer', flags, saved_entry) = parse_ip_prefix peer 0 mask
      in (case parse_allowedip env flags saved_entry of
           Inl e \<Rightarrow> Inl e
         | Inr (new_allowedip, _) \<Rightarrow>
             allowedips_loop env (peer'\<lparr>allowedips := link_after allowedip new_allowedip (allowedips peer')\<rparr>)
               (cursor_next allowedip) sep'))"
  by pat_completeness auto
termination
  by (relation "measure (\<lambda>(_, _, _, s). case s of None \<Rightarrow> 0 | Some t \<Rightarrow> Suc (length t))")
    (auto dest!: strsep_shorter [OF sym] split: option.splits)

definition parse_allowedips :: "sysenv \<Rightarrow> wgpeer \<Rightarrow> nat option \<Rightarrow> string \<Rightarrow> cfg_error + wgpeer \<times> nat option" where
  "parse_allowedips env peer last_allowedip value =
     (let peer' = peer_or WGPEER_REPLACE_ALLOWEDIPS peer
      in if length value = 0 then Inr (peer', last_allowedip)
         else allowedips_loop env peer' last_allowedip (Some value))"

end
