(* ===== verification/ConfigValueFacts.thy ===== *)
theory ConfigValueFacts
  imports ConfigValues
begin

text \<open>
  What the value parsers of \<open>src/src/config.c\<close> accept and return: the numerals, the name-resolution
  loop, the splitting of endpoints and URLs, the WebSocket values, netmasks and allowed-IP lists.
\<close>

section \<open>Numbers\<close>

lemma char_at_simps [simp]: "char_at [] i = NUL" "char_at (c # s) 0 = c" "char_at (c # s) (Suc i) = char_at s i"
  by (simp_all add: char_at_def)

lemma char_at_first: "char_at s 0 = (case s of [] \<Rightarrow> NUL | c # _ \<Rightarrow> c)"
  by (cases s) simp_all

lemma digit_first_iff: "is_digit_of 10 (char_at v 0) \<longleftrightarrow> v \<noteq> [] \<and> is_digit_of 10 (hd v)"
  by (cases v) (simp_all add: is_digit_of_10 NUL_def)

lemma strtoul_16_complete:
  assumes "is_digit_of 16 d"
  shows "strtoul 16 (CHR ''0'' # CHR ''x'' # d # ds) = (v, [])
    \<longleftrightarrow> list_all (is_digit_of 16) (d # ds) \<and> v = min (digits_val 16 (d # ds)) ULONG_MAX"
proof -
  have z: "is_digit_of 16 (CHR ''0'')" by (simp add: is_digit_of_def digit_val_def)
  have p: "strto_prefix 16 (CHR ''0'' # CHR ''x'' # d # ds) = d # ds"
    using assms by (simp add: strto_prefix_def)
  have "dropWhile (is_digit_of 16) (d # ds) = [] \<longleftrightarrow> list_all (is_digit_of 16) (d # ds)"
    by (simp add: dropWhile_eq_Nil_conv list_all_iff)
  then show ?thesis
    using strto_scan_digit_head [OF z, of "CHR ''x'' # d # ds"]
    by (auto simp: strtoul_def p Let_def min_def list_all_iff)
qed

lemma strtoul_16_incomplete:
  assumes "\<not> is_digit_of 16 d"
  shows "snd (strtoul 16 (CHR ''0'' # CHR ''x'' # d # ds)) \<noteq> []"
proof -
  have z: "is_digit_of 16 (CHR ''0'')" "\<not> is_digit_of 16 (CHR ''x'')"
    by (simp_all add: is_digit_of_def digit_val_def)
  have p: "strto_prefix 16 (CHR ''0'' # CHR ''x'' # d # ds) = CHR ''0'' # CHR ''x'' # d # ds"
    using assms by (simp add: strto_prefix_def)
  show ?thesis
    using strto_scan_digit_head [OF z(1), of "CHR ''x'' # d # ds"] z by (simp add: strtoul_def p Let_def)
qed

text \<open>The numerals a fwmark may be written as.\<close>

definition fwmark_numeral :: "string \<Rightarrow> nat \<Rightarrow> bool" where
  "fwmark_numeral v n \<longleftrightarrow>
     v \<noteq> [] \<and> list_all (is_digit_of 10) v \<and> n = digits_val 10 v
     \<or> (\<exists>h. v = ''0x'' @ h \<and> h \<noteq> [] \<and> list_all (is_digit_of 16) h \<and> n = digits_val 16 h)"

lemma u32_of_nat_iff: "n \<le> UINT32_MAX \<and> w = (word_of_nat n :: u32) \<longleftrightarrow> n = unat w"
proof
  assume "n \<le> UINT32_MAX \<and> w = (word_of_nat n :: u32)"
  then show "n = unat w" by (simp add: unat_of_nat UINT32_MAX_def)
next
  assume "n = unat w"
  then show "n \<le> UINT32_MAX \<and> w = (word_of_nat n :: u32)"
    using unsigned_less [where 'a = nat, of w] by (simp add: UINT32_MAX_def)
qed

lemma u16_of_nat_iff: "n \<le> 65535 \<and> w = (word_of_nat n :: u16) \<longleftrightarrow> n = unat w"
proof
  assume "n \<le> 65535 \<and> w = (word_of_nat n :: u16)"
  then show "n = unat w" by (simp add: unat_of_nat)
next
  assume "n = unat w"
  then show "n \<le> 65535 \<and> w = (word_of_nat n :: u16)"
    using unsigned_less [where 'a = nat, of w] by simp
qed

lemma off_not_digits:
  assumes "strcaseeq v ''off''"
  shows "\<not> (v \<noteq> [] \<and> is_digit_of 10 (hd v))"
  using assms by (cases v) (auto simp: strcaseeq_def tolower_c_def is_digit_of_10 split: if_splits)

lemma fwmark_numeral_digit: "fwmark_numeral v n \<Longrightarrow> v \<noteq> [] \<and> is_digit_of 10 (hd v)"
  by (cases v) (auto simp: fwmark_numeral_def is_digit_of_def digit_val_def)

lemma min_ULONG_u32: "n \<le> UINT32_MAX \<Longrightarrow> n = min m ULONG_MAX \<longleftrightarrow> n = m"
  by (auto simp: min_def ULONG_MAX_def UINT32_MAX_def)

lemma strtoul_fwmark:
  assumes "v \<noteq> [] \<and> is_digit_of 10 (hd v)" and "n \<le> UINT32_MAX"
  shows "strtoul (fwmark_base v) v = (n, []) \<longleftrightarrow> fwmark_numeral v n"
proof (cases "fwmark_base v = 16")
  case False
  then have "fwmark_base v = 10" and no: "\<not> (\<exists>h. v = ''0x'' @ h \<and> h \<noteq> [])"
    by (auto simp: fwmark_base_def split: if_splits)
  then have "strtoul (fwmark_base v) v = (n, []) \<longleftrightarrow> list_all (is_digit_of 10) v \<and> n = min (digits_val 10 v) ULONG_MAX"
    using strtoul_10_complete assms(1) by simp
  with no assms(1,2) show ?thesis
    using min_ULONG_u32 [OF assms(2)] by (auto simp: fwmark_numeral_def)
next
  case True
  then obtain d ds where v: "v = CHR ''0'' # CHR ''x'' # d # ds"
    by (cases v; cases "tl v"; cases "tl (tl v)") (auto simp: fwmark_base_def split: if_splits)
  have x: "\<not> is_digit_of 10 (CHR ''x'')" by (simp add: is_digit_of_def digit_val_def)
  show ?thesis
  proof (cases "is_digit_of 16 d")
    case d: True
    show ?thesis
      unfolding True unfolding v strtoul_16_complete [OF d]
      using min_ULONG_u32 [OF assms(2)] x by (auto simp: fwmark_numeral_def)
  next
    case d: False
    then show ?thesis
      unfolding True unfolding v using strtoul_16_incomplete [OF d, of ds] x
      by (auto simp: fwmark_numeral_def)
  qed
qed

lemma parse_fwmark_iff:
  "parse_fwmark fl v = Inr (w, f) \<longleftrightarrow>
     f = fl OR WGDEVICE_HAS_FWMARK \<and> (if strcaseeq v ''off'' then w = 0 else fwmark_numeral v (unat w))"
proof (cases "v \<noteq> [] \<and> is_digit_of 10 (hd v)")
  case False
  then have "\<not> fwmark_numeral v n" for n using fwmark_numeral_digit by blast
  with False show ?thesis by (auto simp: parse_fwmark_def digit_first_iff)
next
  case True
  obtain ret "end" where r: "strtoul (fwmark_base v) v = (ret, end)" by (metis surj_pair)
  have off: "\<not> strcaseeq v ''off''" using True off_not_digits by blast
  have "parse_fwmark fl v = Inr (w, f) \<longleftrightarrow>
      end = [] \<and> ret \<le> UINT32_MAX \<and> w = word_of_nat ret \<and> f = fl OR WGDEVICE_HAS_FWMARK"
    using True off r by (auto simp: parse_fwmark_def digit_first_iff)
  also have "\<dots> \<longleftrightarrow> strtoul (fwmark_base v) v = (unat w, []) \<and> f = fl OR WGDEVICE_HAS_FWMARK"
    using r u32_of_nat_iff [of ret w] by auto
  also have "\<dots> \<longleftrightarrow> f = fl OR WGDEVICE_HAS_FWMARK \<and> fwmark_numeral v (unat w)"
    using strtoul_fwmark [OF True, of "unat w"] u32_of_nat_iff [of "unat w" w] by auto
  finally show ?thesis using off by simp
qed

lemma parse_persistent_keepalive_iff:
  "parse_persistent_keepalive fl v = Inr (w, f) \<longleftrightarrow>
     f = fl OR WGPEER_HAS_PERSISTENT_KEEPALIVE_INTERVAL \<and>
     (if strcaseeq v ''off'' then w = 0
      else v \<noteq> [] \<and> list_all (is_digit_of 10) v \<and> digits_val 10 v = unat w)"
proof (cases "v \<noteq> [] \<and> is_digit_of 10 (hd v)")
  case False
  then have "\<not> is_digit_of 10 (char_at v 0)" by (simp add: digit_first_iff)
  with False show ?thesis by (cases v) (auto simp: parse_persistent_keepalive_def)
next
  case True
  obtain ret "end" where r: "strtoul 10 v = (ret, end)" by (metis surj_pair)
  have off: "\<not> strcaseeq v ''off''" using True off_not_digits by blast
  have m: "unat w = min m ULONG_MAX \<longleftrightarrow> unat w = m" for m
    using u16_of_nat_iff [of "unat w" w] by (auto simp: min_def ULONG_MAX_def)
  have "parse_persistent_keepalive fl v = Inr (w, f) \<longleftrightarrow>
      end = [] \<and> ret \<le> 65535 \<and> w = word_of_nat ret \<and> f = fl OR WGPEER_HAS_PERSISTENT_KEEPALIVE_INTERVAL"
    using True off r by (auto simp: parse_persistent_keepalive_def digit_first_iff)
  also have "\<dots> \<longleftrightarrow> strtoul 10 v = (unat w, []) \<and> f = fl OR WGPEER_HAS_PERSISTENT_KEEPALIVE_INTERVAL"
    using r u16_of_nat_iff [of ret w] by auto
  also have "\<dots> \<longleftrightarrow> f = fl OR WGPEER_HAS_PERSISTENT_KEEPALIVE_INTERVAL \<and> list_all (is_digit_of 10) v \<and> digits_val 10 v = unat w"
    using strtoul_10_complete [of v "unat w"] True m [of "digits_val 10 v"] by auto
  finally show ?thesis using off True by simp
qed

lemma list_all_print_radix: "2 \<le> b \<Longrightarrow> b \<le> 16 \<Longrightarrow> list_all (is_digit_of b) (print_radix b n)"
  using print_radix_digits by (simp add: list_all_iff)

lemma print_u_not_off: "\<not> strcaseeq (print_u n) ''off''"
  using off_not_digits [of "print_u n"] list_all_print_radix [of 10 n] print_radix_nonempty [of 10 n]
  by (cases "print_u n") auto

lemma fwmark_not_off: "\<not> strcaseeq (''0x'' @ h) ''off''"
  using off_not_digits [of "''0x'' @ h"] by (auto simp: is_digit_of_def digit_val_def)

lemma parse_fwmark_print: "parse_fwmark fl (''0x'' @ print_x (unat w)) = Inr (w, fl OR WGDEVICE_HAS_FWMARK)"
  using fwmark_not_off list_all_print_radix [of 16 "unat w"] digits_val_print_radix [of 16 "unat w"]
  by (simp add: parse_fwmark_iff fwmark_numeral_def)

lemma parse_keepalive_print:
  "parse_persistent_keepalive fl (print_u (unat w)) = Inr (w, fl OR WGPEER_HAS_PERSISTENT_KEEPALIVE_INTERVAL)"
  using print_u_not_off list_all_print_radix [of 10 "unat w"] digits_val_print_radix [of 10 "unat w"]
  by (simp add: parse_persistent_keepalive_iff)

section \<open>Name resolution\<close>

text \<open>An attempt that ends the loop whatever the number of retries left, and what the loop then returns.\<close>

definition decisive :: "sysenv \<Rightarrow> string \<Rightarrow> string \<Rightarrow> nat \<Rightarrow> bool" where
  "decisive env host port k =
     (case getaddrinfo env (Some host) port k of Inr _ \<Rightarrow> True | Inl ret \<Rightarrow> permanent_failure ret)"

definition attempt_result :: "sysenv \<Rightarrow> string \<Rightarrow> string \<Rightarrow> string \<Rightarrow> nat \<Rightarrow> cfg_error + addrinfo" where
  "attempt_result env host port value k =
     (case getaddrinfo env (Some host) port k of Inr r \<Rightarrow> Inr r | Inl ret \<Rightarrow> Inl (E_resolve ret value))"

lemma resolve_loop_stop:
  assumes "decisive env h p k \<or> retries = 0"
  shows "resolve_loop env h p v retries t k sl = Some (attempt_result env h p v k, sl)"
  using assms
  by (subst resolve_loop.simps) (auto simp: decisive_def attempt_result_def Let_def split: sum.splits)

lemma resolve_loop_again:
  assumes "\<not> decisive env h p k" and "retries \<noteq> 0"
  shows "resolve_loop env h p v retries t k sl =
    resolve_loop env h p v (if retries \<ge> 0 then retries - 1 else retries) (next_timeout t) (Suc k) (sl @ [t])"
  using assms
  by (subst resolve_loop.simps) (auto simp: decisive_def Let_def split: sum.splits)

text \<open>The timeouts of \<open>n\<close> sleeps from \<open>t\<close> on.\<close>

primrec timeouts :: "u32 \<Rightarrow> nat \<Rightarrow> u32 list" where
  "timeouts t 0 = []"
| "timeouts t (Suc n) = t # timeouts (next_timeout t) n"

lemma length_timeouts [simp]: "length (timeouts t n) = n"
  by (induction n arbitrary: t) auto

lemma resolve_loop_result:
  assumes "\<And>i. i < n \<Longrightarrow> \<not> decisive env h p (k + i)"
    and "decisive env h p (k + n) \<or> retries = int n"
    and "retries < 0 \<or> int n \<le> retries"
  shows "resolve_loop env h p v retries t k sl = Some (attempt_result env h p v (k + n), sl @ timeouts t n)"
  using assms
proof (induction n arbitrary: k retries t sl)
  case 0
  then show ?case by (simp add: resolve_loop_stop)
next
  case (Suc n)
  have nd: "\<not> decisive env h p k" and nz: "retries \<noteq> 0"
    using Suc.prems(1) [of 0] Suc.prems(3) by auto
  let ?r = "if retries \<ge> 0 then retries - 1 else retries"
  have "resolve_loop env h p v ?r (next_timeout t) (Suc k) (sl @ [t])
      = Some (attempt_result env h p v (Suc k + n), (sl @ [t]) @ timeouts (next_timeout t) n)"
  proof (rule Suc.IH)
    show "\<not> decisive env h p (Suc k + i)" if "i < n" for i
      using Suc.prems(1) [of "Suc i"] that by simp
    show "decisive env h p (Suc k + n) \<or> ?r = int n" using Suc.prems(2) by auto
    show "?r < 0 \<or> int n \<le> ?r" using Suc.prems(3) by auto
  qed
  then show ?case by (simp add: resolve_loop_again [OF nd nz])
qed

lemma resolve_loop_Some_decisive:
  assumes "resolve_loop env h p v retries t k sl = Some r"
  shows "retries < 0 \<longrightarrow> (\<exists>i. decisive env h p (k + i))"
proof (rule resolve_loop.raw_induct [OF _ assms,
      of "\<lambda>env h p v retries t k sl r. retries < 0 \<longrightarrow> (\<exists>i. decisive env h p (k + i))"])
  fix loop env h p v t k sl r and retries :: int
  assume IH: "\<And>env h p v retries t k sl r. loop env h p v retries t k sl = Some r \<Longrightarrow>
      retries < 0 \<longrightarrow> (\<exists>i. decisive env h p (k + i))"
    and body: "(case getaddrinfo env (Some h) p k of
        Inl ret \<Rightarrow> let last_try = retries = 0; retries' = if 0 \<le> retries then retries - 1 else retries
          in if permanent_failure ret \<or> last_try then Some (Inl (E_resolve ret v), sl)
             else loop env h p v retries' (next_timeout t) (Suc k) (sl @ [t])
      | Inr resolved \<Rightarrow> Some (Inr resolved, sl)) = Some r"
  show "retries < 0 \<longrightarrow> (\<exists>i. decisive env h p (k + i))"
  proof (cases "decisive env h p k")
    case True
    then have "decisive env h p (k + 0)" by simp
    then show ?thesis by blast
  next
    case False
    show ?thesis
    proof
      assume "retries < 0"
      with False body have "loop env h p v retries (next_timeout t) (Suc k) (sl @ [t]) = Some r"
        by (auto simp: decisive_def Let_def split: sum.splits if_splits)
      with IH \<open>retries < 0\<close> obtain i where "decisive env h p (Suc k + i)" by blast
      then have "decisive env h p (k + Suc i)" by simp
      then show "\<exists>i. decisive env h p (k + i)" by blast
    qed
  qed
qed

lemma resolve_loop_diverges:
  assumes "retries < 0" and "\<And>i. \<not> decisive env h p (k + i)"
  shows "resolve_loop env h p v retries t k sl = None"
  using resolve_loop_Some_decisive [of env h p v retries t k sl] assms
  by (cases "resolve_loop env h p v retries t k sl") auto

lemma resolve_loop_bounded:
  assumes "0 \<le> retries"
  shows "\<exists>n. int n \<le> retries \<and> (\<forall>i < n. \<not> decisive env h p (k + i))
    \<and> (decisive env h p (k + n) \<or> int n = retries)
    \<and> resolve_loop env h p v retries t k sl = Some (attempt_result env h p v (k + n), sl @ timeouts t n)"
proof -
  define n where "n = (LEAST n. decisive env h p (k + n) \<or> int n = retries)"
  have ex: "decisive env h p (k + nat retries) \<or> int (nat retries) = retries" using assms by simp
  have n: "decisive env h p (k + n) \<or> int n = retries"
    unfolding n_def by (rule LeastI [of "\<lambda>n. decisive env h p (k + n) \<or> int n = retries", OF ex])
  have le: "n \<le> nat retries" unfolding n_def by (rule Least_le) (rule ex)
  have before: "\<not> decisive env h p (k + i)" if "i < n" for i
    using not_less_Least [of i "\<lambda>n. decisive env h p (k + n) \<or> int n = retries"] that unfolding n_def by blast
  have "resolve_loop env h p v retries t k sl = Some (attempt_result env h p v (k + n), sl @ timeouts t n)"
    using before n le assms by (intro resolve_loop_result) auto
  then show ?thesis using before n le assms by (intro exI [of _ n]) auto
qed

lemma resolve_loop_returns_iff:
  "(\<exists>r. resolve_loop env h p v retries t k sl = Some r) \<longleftrightarrow> 0 \<le> retries \<or> (\<exists>i. decisive env h p (k + i))"
proof (cases "0 \<le> retries")
  case True
  then show ?thesis using resolve_loop_bounded by blast
next
  case False
  show ?thesis
  proof (cases "\<exists>i. decisive env h p (k + i)")
    case True
    define n where "n = (LEAST i. decisive env h p (k + i))"
    have "decisive env h p (k + n)" using True unfolding n_def by (rule LeastI_ex)
    moreover have "\<not> decisive env h p (k + i)" if "i < n" for i
      using not_less_Least that unfolding n_def by blast
    ultimately show ?thesis
      using False resolve_loop_result [of n env h p k retries v t sl] True by auto
  next
    case never: False
    then have "resolve_loop env h p v retries t k sl = None"
      using False by (intro resolve_loop_diverges) auto
    with never False show ?thesis by simp
  qed
qed

text \<open>The sleeps grow from one second to at most twenty, without wrapping around.\<close>

lemma next_timeout_range:
  assumes "1000000 \<le> unat t" and "unat t \<le> 20000000"
  shows "unat t \<le> unat (next_timeout t)" and "unat (next_timeout t) \<le> 20000000"
proof -
  have "unat (t * 6) = unat t * 6"
    using assms by (simp add: unat_word_ariths)
  then have "unat (t * 6 div 5) = unat t * 6 div 5" by (simp add: unat_div)
  then have "unat (next_timeout t) = min 20000000 (unat t * 6 div 5)"
    by (auto simp: next_timeout_def word_less_nat_alt)
  then show "unat t \<le> unat (next_timeout t)" and "unat (next_timeout t) \<le> 20000000"
    using assms by auto
qed

lemma timeouts_range:
  assumes "1000000 \<le> unat t" and "unat t \<le> 20000000"
  shows "\<forall>s \<in> set (timeouts t n). unat t \<le> unat s \<and> unat s \<le> 20000000" and "sorted (map unat (timeouts t n))"
  using assms
proof (induction n arbitrary: t)
  case 0
  { case 1 then show ?case by simp next case 2 then show ?case by simp }
next
  case (Suc n)
  { case 1
    then have "1000000 \<le> unat (next_timeout t)" "unat (next_timeout t) \<le> 20000000" "unat t \<le> unat (next_timeout t)"
      using next_timeout_range [of t] by auto
    then show ?case using Suc.IH(1) [of "next_timeout t"] 1 by fastforce }
  { case 2
    then have n: "1000000 \<le> unat (next_timeout t)" "unat (next_timeout t) \<le> 20000000" "unat t \<le> unat (next_timeout t)"
      using next_timeout_range [of t] by auto
    then show ?case using Suc.IH(1,2) [of "next_timeout t"] by fastforce }
qed

section \<open>Endpoints and URLs\<close>

lemma takeWhile_delim [simp]: "d \<notin> set h \<Longrightarrow> takeWhile (\<lambda>c. c \<noteq> d) (h @ d # r) = h"
  by (induction h) auto

lemma dropWhile_delim [simp]: "d \<notin> set h \<Longrightarrow> dropWhile (\<lambda>c. c \<noteq> d) (h @ d # r) = d # r"
  by (induction h) auto

lemma split_endpoint_plain:
  assumes "h = [] \<or> hd h \<noteq> CHR ''[''" and "CHR '':'' \<notin> set p" and "p \<noteq> []"
  shows "split_endpoint (h @ CHR '':'' # p) = Inr (h, p)"
  using assms by (cases h) (auto simp: split_endpoint_def strrchr_last strrchr_last [of _ _ "[]", simplified] strrchr_last [of _ _ "_ # _", simplified])

lemma split_endpoint_bracket:
  assumes "CHR '']'' \<notin> set h" and "p \<noteq> []"
  shows "split_endpoint (CHR ''['' # h @ CHR '']'' # CHR '':'' # p) = Inr (h, p)"
  using assms strchr_first [of "CHR '']''" "CHR ''['' # h" "CHR '':'' # p"]
  by (auto simp: split_endpoint_def Let_def)

lemma scan_colon_spec:
  "scan_colon i colon p =
     (case strrchr (takeWhile (\<lambda>c. c \<noteq> CHR ''/'') p) CHR '':'' of
        None \<Rightarrow> colon | Some (host, _) \<Rightarrow> Some (i + length host))"
proof (induction i colon p rule: scan_colon.induct)
  case (1 i colon)
  then show ?case by (simp add: strrchr_def)
next
  case (2 i colon q qs)
  show ?case
  proof (cases "q = CHR ''/''")
    case True
    then show ?thesis by (simp add: strrchr_def)
  next
    case False
    define a where "a = takeWhile (\<lambda>c. c \<noteq> CHR ''/'') qs"
    have IH: "scan_colon (Suc i) (if q = CHR '':'' then Some i else colon) qs =
      (case strrchr a CHR '':'' of None \<Rightarrow> (if q = CHR '':'' then Some i else colon)
       | Some (host, _) \<Rightarrow> Some (Suc i + length host))"
      using 2 False unfolding a_def by simp
    have "strrchr (q # a) CHR '':'' =
      (case strrchr a CHR '':'' of
         None \<Rightarrow> if q = CHR '':'' then Some ([], a) else None
       | Some (host, rest) \<Rightarrow> Some (q # host, rest))"
    proof (cases "strrchr a CHR '':''")
      case None
      then have "CHR '':'' \<notin> set a" by (simp add: strrchr_None_iff)
      then show ?thesis
        using strrchr_last [of "CHR '':''" a "[]"] None strrchr_None_iff [of "q # a" "CHR '':''"] by auto
    next
      case (Some hr)
      obtain host rest where hr: "hr = (host, rest)" by (cases hr)
      show ?thesis
        using strrchr_Some [OF Some [unfolded hr]] strrchr_last [of "CHR '':''" rest "q # host"] Some hr by simp
    qed
    then show ?thesis using False IH by (auto simp: a_def [symmetric] split: option.splits)
  qed
qed

definition ws_scheme :: "string \<Rightarrow> bool" where
  "ws_scheme s \<longleftrightarrow> strcaseeq s ''ws://'' \<or> strcaseeq s ''wss://''"

lemma strncaseeq_ws_scheme:
  "strncaseeq url ''wss://'' 6 \<longleftrightarrow> (\<exists>s p. url = s @ p \<and> strcaseeq s ''wss://'')"
  "strncaseeq url ''ws://'' 5 \<longleftrightarrow> (\<exists>s p. url = s @ p \<and> strcaseeq s ''ws://'')"
proof -
  have *: "strncaseeq url t (length t) \<longleftrightarrow> (\<exists>s p. url = s @ p \<and> strcaseeq s t)" for t
  proof
    assume "strncaseeq url t (length t)"
    then show "\<exists>s p. url = s @ p \<and> strcaseeq s t"
      by (intro exI [of _ "take (length t) url"] exI [of _ "drop (length t) url"])
        (simp add: strncaseeq_prefix strcaseeq_def)
  next
    assume "\<exists>s p. url = s @ p \<and> strcaseeq s t"
    then obtain s p where sp: "url = s @ p" "map tolower_c s = map tolower_c t"
      by (auto simp: strcaseeq_def)
    then have "length s = length t" by (metis length_map)
    with sp show "strncaseeq url t (length t)" by (simp add: strncaseeq_prefix)
  qed
  show "strncaseeq url ''wss://'' 6 \<longleftrightarrow> (\<exists>s p. url = s @ p \<and> strcaseeq s ''wss://'')"
    "strncaseeq url ''ws://'' 5 \<longleftrightarrow> (\<exists>s p. url = s @ p \<and> strcaseeq s ''ws://'')"
    using * [of "''wss://''"] * [of "''ws://''"] by (simp_all add: eval_nat_numeral)
qed

lemma is_ws_url_iff: "is_ws_url v \<longleftrightarrow> (\<exists>s p. v = s @ p \<and> ws_scheme s)"
  unfolding is_ws_url_def strncaseeq_ws_scheme ws_scheme_def by blast

lemma ws_url_strip:
  assumes "ws_scheme s"
  shows "(if strncaseeq (s @ p) ''wss://'' 6 then Some (drop 6 (s @ p))
          else if strncaseeq (s @ p) ''ws://'' 5 then Some (drop 5 (s @ p)) else None) = Some p"
proof (cases "strcaseeq s ''wss://''")
  case True
  then have "length s = 6" by (auto simp: strcaseeq_def map_eq_Cons_conv)
  with True show ?thesis using strncaseeq_ws_scheme(1) [of "s @ p"] by auto
next
  case False
  with assms have w: "strcaseeq s ''ws://''" by (simp add: ws_scheme_def)
  then obtain a b c d e where s: "s = [a,b,c,d,e]" "tolower_c c = tolower_c CHR '':''"
    by (auto simp: strcaseeq_def map_eq_Cons_conv)
  then have "\<not> strncaseeq (s @ p) ''wss://'' 6"
    by (simp add: eval_nat_numeral) (simp add: tolower_c_def)
  moreover have "strncaseeq (s @ p) ''ws://'' 5" using w strncaseeq_ws_scheme(2) [of "s @ p"] by blast
  ultimately show ?thesis using s(1) by simp
qed

text \<open>The authority of a URL, with a bracketed or a plain host.\<close>

definition ws_authority :: "string \<Rightarrow> string \<Rightarrow> string \<Rightarrow> bool" where
  "ws_authority auth host port \<longleftrightarrow>
     auth = ''['' @ host @ '']:'' @ port \<and> CHR '']'' \<notin> set host
     \<or> auth = host @ '':'' @ port \<and> hd host \<noteq> CHR ''['' \<and> CHR ''/'' \<notin> set host \<and> CHR '':'' \<notin> set port"

definition url_path :: "string \<Rightarrow> bool" where
  "url_path path \<longleftrightarrow> path = [] \<or> hd path = CHR ''/''"

lemma takeWhile_path:
  assumes "CHR ''/'' \<notin> set port" and "url_path path"
  shows "takeWhile (\<lambda>c. c \<noteq> CHR ''/'') (port @ path) = port"
  using assms by (intro takeWhile_digits) (auto simp: url_path_def)

lemma ws_url_split_complete:
  assumes "ws_scheme s" and "ws_authority auth host port" and "url_path path"
    and "host \<noteq> []" and "port \<noteq> []" and "CHR ''/'' \<notin> set port"
    and "length host < hostsz" and "length port < portsz"
  shows "ws_url_split (s @ auth @ path) hostsz portsz = Some (host, port)"
proof -
  let ?p = "auth @ path"
  have tw: "takeWhile (\<lambda>c. c \<noteq> CHR ''/'') (port @ path) = port" using assms(6,3) by (rule takeWhile_path)
  from assms(2) consider
      "auth = ''['' @ host @ '']:'' @ port" "CHR '']'' \<notin> set host"
    | "auth = host @ '':'' @ port" "hd host \<noteq> CHR ''[''" "CHR ''/'' \<notin> set host" "CHR '':'' \<notin> set port"
    unfolding ws_authority_def by blast
  then have "(if char_at ?p 0 = CHR ''['' then
          (case strchr (tl ?p) CHR '']'' of None \<Rightarrow> None
           | Some hend \<Rightarrow> if char_at hend 1 \<noteq> CHR '':'' then None
               else Some (takeWhile (\<lambda>c. c \<noteq> CHR '']'') (tl ?p), drop 2 hend))
        else (case scan_colon 0 None ?p of None \<Rightarrow> None
              | Some colon \<Rightarrow> Some (take colon ?p, drop (Suc colon) ?p))) = Some (host, port @ path)"
  proof cases
    case 1
    then show ?thesis using strchr_first [of "CHR '']''" host "CHR '':'' # port @ path"] by simp
  next
    case 2
    have "takeWhile (\<lambda>c. c \<noteq> CHR ''/'') ((host @ CHR '':'' # port) @ path) = host @ CHR '':'' # port"
      using 2 assms by (intro takeWhile_path) auto
    then have "scan_colon 0 None ?p = Some (length host)"
      using 2 strrchr_last [of "CHR '':''" port host] by (simp add: scan_colon_spec)
    moreover have "char_at ?p 0 \<noteq> CHR ''[''" using 2 assms(4) by (cases host) auto
    ultimately show ?thesis using 2 by simp
  qed
  then show ?thesis
    unfolding ws_url_split_def ws_url_strip [OF assms(1)] using assms tw by (simp add: Let_def)
qed

lemma ws_url_split_sound:
  assumes "ws_url_split url hostsz portsz = Some (host, port)"
  shows "\<exists>s auth path. url = s @ auth @ path \<and> ws_scheme s \<and> ws_authority auth host port \<and> url_path path
    \<and> host \<noteq> [] \<and> port \<noteq> [] \<and> CHR ''/'' \<notin> set port \<and> length host < hostsz \<and> length port < portsz"
proof -
  obtain s p where url: "url = s @ p" "ws_scheme s"
  proof -
    have "strncaseeq url ''wss://'' 6 \<or> strncaseeq url ''ws://'' 5"
      using assms by (auto simp: ws_url_split_def split: if_splits)
    then show ?thesis using that strncaseeq_ws_scheme unfolding ws_scheme_def by blast
  qed
  define split where "split = (if char_at p 0 = CHR ''['' then
          (case strchr (tl p) CHR '']'' of None \<Rightarrow> None
           | Some hend \<Rightarrow> if char_at hend 1 \<noteq> CHR '':'' then None
               else Some (takeWhile (\<lambda>c. c \<noteq> CHR '']'') (tl p), drop 2 hend))
        else (case scan_colon 0 None p of None \<Rightarrow> None
              | Some colon \<Rightarrow> Some (take colon p, drop (Suc colon) p)))"
  obtain pstart where ps: "split = Some (host, pstart)" "port = takeWhile (\<lambda>c. c \<noteq> CHR ''/'') pstart"
      "host \<noteq> []" "port \<noteq> []" "length host < hostsz" "length port < portsz"
    using assms unfolding url ws_url_split_def ws_url_strip [OF url(2)] option.case split_def [symmetric]
    by (auto simp: Let_def split: option.splits if_splits)
  define path where "path = dropWhile (\<lambda>c. c \<noteq> CHR ''/'') pstart"
  have path: "pstart = port @ path" "url_path path" "CHR ''/'' \<notin> set port"
    unfolding ps(2) path_def url_path_def
    using hd_dropWhile [of "\<lambda>c. c \<noteq> CHR ''/''" pstart] by (auto dest: set_takeWhileD)
  have "\<exists>auth. p = auth @ path \<and> ws_authority auth host port"
  proof (cases "char_at p 0 = CHR ''[''")
    case True
    then obtain q where q: "p = CHR ''['' # q" by (cases p) (auto simp: NUL_def)
    from ps(1) True q obtain hend where hend: "strchr q CHR '']'' = Some hend" "char_at hend 1 = CHR '':''"
        "host = takeWhile (\<lambda>c. c \<noteq> CHR '']'') q" "pstart = drop 2 hend"
      unfolding split_def by (auto split: option.splits if_splits)
    from strchr_Some [OF hend(1)] obtain pre rest
      where pre: "q = pre @ CHR '']'' # rest" "hend = CHR '']'' # rest" "CHR '']'' \<notin> set pre" by blast
    with hend(2) obtain r where "rest = CHR '':'' # r" by (cases rest) (auto simp: NUL_def)
    with q pre hend path(1) show ?thesis
      by (intro exI [of _ "''['' @ host @ '']:'' @ port"]) (auto simp: ws_authority_def)
  next
    case False
    with ps(1) obtain colon where c: "scan_colon 0 None p = Some colon" "host = take colon p" "pstart = drop (Suc colon) p"
      unfolding split_def by (auto split: option.splits)
    define a where "a = takeWhile (\<lambda>c. c \<noteq> CHR ''/'') p"
    define b where "b = dropWhile (\<lambda>c. c \<noteq> CHR ''/'') p"
    have p: "p = a @ b" "CHR ''/'' \<notin> set a" "url_path b"
      unfolding a_def b_def url_path_def
      using hd_dropWhile [of "\<lambda>c. c \<noteq> CHR ''/''" p] by (auto dest: set_takeWhileD)
    obtain h r where hr: "strrchr a CHR '':'' = Some (h, r)" "colon = length h"
      using c(1) unfolding scan_colon_spec a_def by (auto split: option.splits)
    note a = strrchr_Some [OF hr(1)]
    have "host = h" "pstart = r @ b" using c(2,3) p(1) a(1) hr(2) by auto
    moreover have "port = r"
      unfolding ps(2) \<open>pstart = r @ b\<close> using p(2,3) a(1) by (intro takeWhile_path) auto
    moreover have "hd host \<noteq> CHR ''[''"
      using False ps(3) c(2) by (cases p; cases colon) auto
    ultimately show ?thesis
      using p a path(1) by (intro exI [of _ a]) (auto simp: ws_authority_def)
  qed
  with url path ps show ?thesis by blast
qed

lemma ws_hostport_untruncated:
  assumes "length host < 256" and "length port < 16"
  shows "ws_hostport host port =
    (if CHR '':'' \<in> set host then ''['' @ host @ '']:'' @ port else host @ '':'' @ port)"
  using assms by (simp add: ws_hostport_def strchr_None_iff)

text \<open>The host and the port of the URL are the ones that are resolved.\<close>

lemma ws_hostport_split:
  assumes "ws_url_split url 256 16 = Some (host, port)"
    and "CHR ''['' \<notin> set host" and "CHR '']'' \<notin> set host" and "CHR '':'' \<notin> set port"
  shows "split_endpoint (ws_hostport host port) = Inr (host, port)"
proof -
  have "length host < 256" "length port < 16" "host \<noteq> []" "port \<noteq> []"
    using ws_url_split_sound [OF assms(1)] by auto
  then show ?thesis
    using assms(2-4) split_endpoint_plain [of host port] split_endpoint_bracket [of host port]
    by (cases host) (auto simp: ws_hostport_untruncated)
qed

section \<open>WebSocket values\<close>

lemma c_int_digit: "\<not> (c_int c < 48 \<or> 57 < c_int c) \<longleftrightarrow> is_digit_of 10 c"
proof -
  obtain n where n: "(of_char c :: nat) = n" "n < 256" using of_char_nat_bound by blast
  then show ?thesis by (auto simp: c_int_def is_digit_of_10 of_char_int n(1))
qed

lemma parse_ws_target_iff:
  "parse_ws_target v = Inr w \<longleftrightarrow>
     w = v \<and> (\<exists>host port. v = host @ '':'' @ port \<and> host \<noteq> [] \<and> port \<noteq> [] \<and> list_all (is_digit_of 10) port)"
proof -
  have ex: "list_ex (\<lambda>c. c_int c < 48 \<or> c_int c > 57) port \<longleftrightarrow> \<not> list_all (is_digit_of 10) port" for port
    unfolding c_int_digit [symmetric] by (auto simp: list_ex_iff list_all_iff)
  show ?thesis
  proof (cases "strrchr v CHR '':''")
    case None
    then have "CHR '':'' \<notin> set v" by (simp add: strrchr_None_iff)
    with None show ?thesis by (auto simp: parse_ws_target_def)
  next
    case (Some hp)
    obtain host port where hp: "hp = (host, port)" by (cases hp)
    note v = strrchr_Some [OF Some [unfolded hp]]
    have uniq: "h = host \<and> p = port" if "v = h @ '':'' @ p" "list_all (is_digit_of 10) p" for h p
    proof -
      have "CHR '':'' \<notin> set p"
        using that(2) digit_not_space_or_sign(9) [of 10] by (auto simp: list_all_iff)
      then have "strrchr v CHR '':'' = Some (h, p)" using that(1) by (simp add: strrchr_last)
      with Some hp show ?thesis by simp
    qed
    show ?thesis
      unfolding parse_ws_target_def Some hp option.case prod.case ex
      using v(1) uniq by auto
  qed
qed

lemma parse_ws_millis_print: "parse_ws_millis (print_u (unat w)) = Inr w"
proof -
  have "unat w \<le> UINT32_MAX" using u32_of_nat_iff [of "unat w" w] by simp
  moreover from this have "unat w \<le> ULONG_MAX" by (simp add: UINT32_MAX_def ULONG_MAX_def)
  ultimately show ?thesis by (simp add: parse_ws_millis_def)
qed

text \<open>What \<open>strtoul\<close> consumes completely in base 10.\<close>

lemma ULONG_not_u32: "\<not> ULONG_MAX \<le> UINT32_MAX"
  by (simp add: ULONG_MAX_def UINT32_MAX_def)

lemma strto_scan_10_digits:
  assumes "list_all isspace_c ws" and "sign \<in> {[], ''+'', ''-''}" and "ds \<noteq> []" and "list_all (is_digit_of 10) ds"
  shows "strto_scan 10 (ws @ sign @ ds) = (sign = ''-'', digits_val 10 ds, [])"
proof -
  obtain c cs where c: "ds = c # cs" "is_digit_of 10 c" using assms(3,4) by (cases ds) auto
  have p: "strto_prefix 10 t = t" for t by (auto simp: strto_prefix_def split: list.splits)
  have ns: "\<not> isspace_c c" "c \<noteq> CHR ''-''" "c \<noteq> CHR ''+''"
    by (rule digit_not_space_or_sign [OF c(2)]; simp)+
  have pm: "\<not> isspace_c CHR ''+''" "\<not> isspace_c CHR ''-''" by (simp_all add: isspace_c_def)
  have "\<not> isspace_c (hd (sign @ ds))" using assms(2) ns(1) pm by (elim insertE) (simp_all add: c(1))
  then have "dropWhile isspace_c (ws @ sign @ ds) = sign @ ds"
    using assms(1) by (intro dropWhile_digits) (simp_all add: list_all_iff)
  moreover have "strto_sign (sign @ ds) = (sign = ''-'', ds)"
    using assms(2) ns(2,3) by (elim insertE) (simp_all add: c(1) strto_sign_def)
  moreover have "takeWhile (is_digit_of 10) ds = ds" "dropWhile (is_digit_of 10) ds = []"
    using assms(4) by (simp_all add: takeWhile_eq_all_conv dropWhile_eq_Nil_conv list_all_iff)
  ultimately show ?thesis using assms(3) by (simp add: strto_scan_def p)
qed

lemma strto_scan_10_complete:
  assumes "s \<noteq> []" and "strto_scan 10 s = (neg, n, [])"
  obtains ws sign ds where "s = ws @ sign @ ds" and "list_all isspace_c ws" and "sign \<in> {[], ''+'', ''-''}"
    and "ds \<noteq> []" and "list_all (is_digit_of 10) ds" and "n = digits_val 10 ds" and "neg \<longleftrightarrow> sign = ''-''"
proof -
  define ws t where "ws = takeWhile isspace_c s" and "t = dropWhile isspace_c s"
  obtain m ds where m: "strto_sign t = (m, ds)" by force
  have p: "strto_prefix 10 u = u" for u by (auto simp: strto_prefix_def split: list.splits)
  have ds: "takeWhile (is_digit_of 10) ds \<noteq> []" "m = neg" "n = digits_val 10 (takeWhile (is_digit_of 10) ds)"
    "dropWhile (is_digit_of 10) ds = []"
    using assms m by (auto simp: strto_scan_def p Let_def t_def [symmetric] split: if_splits)
  then have all: "list_all (is_digit_of 10) ds" "takeWhile (is_digit_of 10) ds = ds"
    by (simp_all add: dropWhile_eq_Nil_conv list_all_iff takeWhile_eq_all_conv)
  obtain sign where sign: "t = sign @ ds" "sign \<in> {[], ''+'', ''-''}" "neg \<longleftrightarrow> sign = ''-''"
    using m ds(2) by (cases t) (auto simp: strto_sign_def split: if_splits)
  show ?thesis
    using ds(1,3) all sign by (intro that [of ws sign ds])
      (auto simp: ws_def sign(1) [symmetric] t_def list_all_iff dest: set_takeWhileD)
qed

lemma parse_ws_millis_digits:
  assumes "v \<noteq> []" and "is_digit_of 10 (hd v)"
  shows "parse_ws_millis v = Inr w \<longleftrightarrow> list_all (is_digit_of 10) v \<and> digits_val 10 v = unat w"
proof -
  obtain n "end" where r: "strtoul 10 v = (n, end)" by (metis surj_pair)
  have "parse_ws_millis v = Inr w \<longleftrightarrow> end = [] \<and> n \<le> UINT32_MAX \<and> w = word_of_nat n"
    using assms r by (auto simp: parse_ws_millis_def)
  also have "\<dots> \<longleftrightarrow> strtoul 10 v = (unat w, [])" using r u32_of_nat_iff [of n w] by auto
  also have "\<dots> \<longleftrightarrow> list_all (is_digit_of 10) v \<and> digits_val 10 v = unat w"
    using strtoul_10_complete [OF assms(2,1), of "unat w"] min_ULONG_u32 [of "unat w" "digits_val 10 v"]
      u32_of_nat_iff [of "unat w" w] by auto
  finally show ?thesis .
qed

text \<open>The whole-line reads of the bearer file.\<close>

lemma fgets_chunk_line:
  assumes "newline \<notin> set t"
  shows "fgets_chunk n (t @ newline # r) = (if length t < n then t @ [newline] else take n t)"
  using assms
proof (induction t arbitrary: n)
  case Nil
  then show ?case by (cases n) auto
next
  case (Cons c t)
  then show ?case by (cases n) auto
qed

lemma fgets_chunk_no_newline: "newline \<notin> set t \<Longrightarrow> fgets_chunk n t = take n t"
proof (induction t arbitrary: n)
  case Nil
  then show ?case by (cases n) auto
next
  case (Cons c t)
  then show ?case by (cases n) auto
qed

lemma length_fgets_chunk: "length (fgets_chunk n bytes) \<le> n"
  by (induction n bytes rule: fgets_chunk.induct) auto

lemma newline_not_NUL [simp]: "newline \<noteq> NUL" "NUL \<noteq> newline"
  by (simp_all add: newline_def NUL_def)

definition plain_token :: "string \<Rightarrow> bool" where
  "plain_token t \<longleftrightarrow> t \<noteq> [] \<and> newline \<notin> set t \<and> no_nul t"

lemma parse_ws_secret_file_line:
  assumes "plain_token t" and "fopen env path = Some \<lparr>f_bytes = t @ newline # r, f_error = e, f_seekable = sk\<rparr>"
  shows "parse_ws_secret_file env path = (if length t \<le> 8190 then Inr t else Inl (E_bearer_long path))"
proof -
  have t: "t \<noteq> []" "newline \<notin> set t" "no_nul t" using assms(1) by (auto simp: plain_token_def)
  show ?thesis
  proof (cases "length t \<le> 8190")
    case True
    have "no_nul (t @ [newline])" using t by (simp add: no_nul_def)
    with True t assms(2) show ?thesis
      by (simp add: parse_ws_secret_file_def fgets_def fgets_chunk_line c_str_id Let_def)
  next
    case False
    have "no_nul (take 8191 t)" using t by (auto simp: no_nul_def dest: in_set_takeD)
    moreover have "last (take 8191 t) \<noteq> newline"
    proof -
      have "take 8191 t \<noteq> []" using t by simp
      then have "last (take 8191 t) \<in> set t" by (meson last_in_set in_set_takeD)
      then show ?thesis using t(2) by metis
    qed
    ultimately show ?thesis
      using False t assms(2)
      by (simp add: parse_ws_secret_file_def fgets_def fgets_chunk_line c_str_id Let_def)
  qed
qed

lemma fgets_chunk_newline: "newline \<notin> set (butlast (fgets_chunk n bytes))"
proof (induction n bytes rule: fgets_chunk.induct)
  case (3 n c cs)
  then show ?case by (cases "fgets_chunk n cs") auto
qed simp_all

lemma butlast_prefix_subset: "set (butlast xs) \<subseteq> set (butlast (xs @ ys))"
  by (cases ys rule: rev_cases) (auto simp: butlast_append dest: in_set_butlastD)

lemma parse_ws_secret_file_sound:
  assumes "parse_ws_secret_file env path = Inr t"
  shows "plain_token t \<and> length t \<le> 8191"
proof -
  from assms obtain f chunk rest where f: "fgets 8192 f = Some (chunk, rest)" and
    t: "t = butlast (c_str chunk) \<and> t \<noteq> [] \<and> last (c_str chunk) = newline
        \<or> t = c_str chunk \<and> t \<noteq> [] \<and> last t \<noteq> newline"
    by (auto simp: parse_ws_secret_file_def Let_def split: option.splits if_splits)
  have chunk: "chunk = fgets_chunk 8191 (f_bytes f)"
    using f by (auto simp: fgets_def Let_def split: if_splits)
  have len: "length (c_str chunk) \<le> 8191"
    using length_fgets_chunk [of 8191 "f_bytes f"] length_takeWhile_le [of "\<lambda>c. c \<noteq> NUL" chunk]
    unfolding chunk c_str_def by linarith
  have "newline \<notin> set (butlast (c_str chunk))"
    using butlast_prefix_subset [of "c_str chunk" "dropWhile (\<lambda>c. c \<noteq> NUL) chunk"]
      fgets_chunk_newline [of 8191 "f_bytes f"] unfolding chunk c_str_def by auto
  moreover have "set (c_str chunk) \<subseteq> insert (last (c_str chunk)) (set (butlast (c_str chunk)))"
    by (cases "c_str chunk" rule: rev_cases) auto
  ultimately have "newline \<notin> set t" using t by auto
  moreover have "no_nul t"
    using t no_nul_c_str [of chunk] by (auto simp: no_nul_def dest: in_set_butlastD)
  ultimately show ?thesis using t len by (auto simp: plain_token_def)
qed

subsection \<open>Which peers pass the WebSocket check\<close>

lemma validate_ws_peer_ok_iff:
  "validate_ws_peer p = None \<longleftrightarrow>
     \<not> peer_has p WGPEER_HAS_TRANSPORT
     \<or> (case transport p of
          WGPEER_TRANSPORT_UDP \<Rightarrow> ws_url p = None \<and> \<not> peer_has p WGPEER_HAS_WS_SETTINGS
        | WGPEER_TRANSPORT_WEBSOCKET \<Rightarrow> wstunnel_target p = None \<and> (ws_url p \<noteq> None \<longleftrightarrow> endpoint p \<noteq> Sa_none)
        | WGPEER_TRANSPORT_WSTUNNEL \<Rightarrow> ws_url p \<noteq> None \<and> endpoint p \<noteq> Sa_none \<and> wstunnel_target p \<noteq> None)"
  unfolding validate_ws_peer_def has_endpoint_iff Let_def by (cases "transport p") auto

section \<open>Key files\<close>

lemma char_is_space_getc: "char_is_space (of_char c) \<longleftrightarrow> isspace_c c"
proof -
  have "char_is_space (of_char c) \<longleftrightarrow> (of_char c :: int) = 32 \<or> 9 \<le> (of_char c :: int) \<and> of_char c \<le> (13 :: int)"
    using of_char_int_bounds [of c] by (intro char_is_space_iff) auto
  moreover have "c = CHR '' '' \<longleftrightarrow> (of_char c :: nat) = 32"
    by (auto simp: of_char_eq_iff [symmetric, where ?'a = nat])
  ultimately show ?thesis by (simp add: isspace_c_def of_char_int)
qed

lemma find_trailing_None_iff: "find_trailing s = None \<longleftrightarrow> (\<forall>c \<in> set s. isspace_c c)"
  by (induction s) (auto simp: char_is_space_getc)

text \<open>The characters of an encoded key can stand in a line of a configuration file.\<close>

definition token_char :: "char \<Rightarrow> bool" where
  "token_char c \<longleftrightarrow> \<not> isspace_c c \<and> c \<noteq> CHR ''#'' \<and> c \<noteq> NUL"

lemma token_char_base64_char:
  assumes "sextet i"
  shows "token_char (base64_char i)" and "base64_char i \<noteq> CHR '',''"
proof -
  define n where "n = (if i \<le> 25 then i + 65 else if i \<le> 51 then i + 71 else if i \<le> 61 then i - 4 else if i = 62 then 43 else 47)"
  have n: "43 \<le> n" "n \<le> 122" "n \<noteq> 44" using assms by (auto simp: n_def sextet_def)
  have "(of_char (base64_char i) :: int) = n"
    using base64_char_eq [OF assms] n by (simp add: n_def [symmetric])
  then have o: "int (of_char (base64_char i)) = n" by (simp only: of_char_int)
  show "token_char (base64_char i)" "base64_char i \<noteq> CHR '',''"
    using o n by (auto simp: token_char_def isspace_c_def NUL_def)
qed

lemma token_chars_base64: "c \<in> set (key_to_base64 k) \<Longrightarrow> token_char c \<and> c \<noteq> CHR '',''"
proof -
  have e: "\<forall>c \<in> set (encode_base64 x y z). token_char c \<and> c \<noteq> CHR '',''" for x y z
    using token_char_base64_char by (simp add: encode_base64_def)
  assume "c \<in> set (key_to_base64 k)"
  then have "(\<exists>i. c \<in> set (key_groups k i)) \<or> c \<in> set (key_last k) \<or> c = CHR ''=''"
    by (auto simp: key_to_base64_eq)
  then show ?thesis
    using e by (auto simp: key_groups_def key_last_def token_char_def isspace_c_def NUL_def dest!: in_set_takeD)
qed

lemma no_nul_base64: "no_nul (key_to_base64 k)"
  using token_chars_base64 by (auto simp: no_nul_def token_char_def)

lemma parse_key_print: "wf_key k \<Longrightarrow> parse_key (key_to_base64 k) = Inr k"
  by (simp add: parse_key_def key_from_to_base64)

lemma parse_key_iff: "parse_key s = Inr k \<longleftrightarrow> wf_key k \<and> s = key_to_base64 k"
  using b64.dec_iff [of s k] by (auto simp: parse_key_def split: option.splits)

lemma parse_keyfile_ok:
  assumes "wf_key k" and "\<forall>c \<in> set ws. isspace_c c"
    and "fopen env path = Some \<lparr>f_bytes = key_to_base64 k @ ws, f_error = False, f_seekable = sk\<rparr>"
  shows "parse_keyfile env path = Inr k"
  using assms find_trailing_None_iff [of ws]
  by (simp add: parse_keyfile_def key_len_defs c_str_id no_nul_base64 parse_key_print)

lemma parse_keyfile_iff:
  assumes "fopen env path = Some f" and "\<not> f_error f" and "f_bytes f \<noteq> []"
  shows "parse_keyfile env path = Inr k \<longleftrightarrow>
    wf_key k \<and> (\<exists>ws. f_bytes f = key_to_base64 k @ ws \<and> (\<forall>c \<in> set ws. isspace_c c))"
proof
  assume "parse_keyfile env path = Inr k"
  then have len: "length (f_bytes f) \<ge> 44" and key: "parse_key (c_str (take 44 (f_bytes f))) = Inr k"
    and ws: "\<forall>c \<in> set (drop 44 (f_bytes f)). isspace_c c"
    using assms find_trailing_None_iff
    by (auto simp: parse_keyfile_def key_len_defs Let_def split: if_splits option.splits)
  have "length (c_str (take 44 (f_bytes f))) = 44" using key by (auto simp: parse_key_iff)
  then have "c_str (take 44 (f_bytes f)) = take 44 (f_bytes f)"
    unfolding c_str_def using len by (metis (no_types, lifting) length_take min.absorb2 takeWhile_eq_take take_all order_refl)
  then show "wf_key k \<and> (\<exists>ws. f_bytes f = key_to_base64 k @ ws \<and> (\<forall>c \<in> set ws. isspace_c c))"
    using key ws append_take_drop_id [of 44 "f_bytes f"] by (metis parse_key_iff)
next
  assume "wf_key k \<and> (\<exists>ws. f_bytes f = key_to_base64 k @ ws \<and> (\<forall>c \<in> set ws. isspace_c c))"
  then show "parse_keyfile env path = Inr k"
    using parse_keyfile_ok [of k _ env path "f_seekable f"] assms by (cases f) auto
qed

section \<open>Netmasks\<close>

text \<open>Bit \<open>j\<close> of an address in network order, and the host part of a prefix.\<close>

definition addr_bit :: "u32 list \<Rightarrow> nat \<Rightarrow> bool" where
  "addr_bit ws j \<longleftrightarrow> bit (ws ! (j div 32)) (31 - j mod 32)"

definition addr_width :: "wgallowedip \<Rightarrow> nat" where
  "addr_width a = (if family a = AF_INET then 32 else if family a = AF_INET6 then 128 else 0)"

lemma bit_netmask: "bit (drop_bit m (NOT 0) :: u32) n \<longleftrightarrow> m + n < 32"
  by (auto simp: bit_simps)

lemma and_netmask_zero:
  "(w :: u32) AND drop_bit m (NOT 0) = 0 \<longleftrightarrow> (\<forall>j. m \<le> j \<and> j < 32 \<longrightarrow> \<not> bit w (31 - j))"
proof -
  have "w AND drop_bit m (NOT 0) = 0 \<longleftrightarrow> (\<forall>n. \<not> (bit w n \<and> m + n < 32))"
    unfolding bit_eq_iff bit_and_iff bit_netmask using bit_imp_le_length [of w] by auto
  also have "\<dots> \<longleftrightarrow> (\<forall>j. m \<le> j \<and> j < 32 \<longrightarrow> \<not> bit w (31 - j))"
  proof (intro iffI allI impI)
    fix j
    assume a: "\<forall>n. \<not> (bit w n \<and> m + n < 32)" and j: "m \<le> j \<and> j < 32"
    from a have "\<not> (bit w (31 - j) \<and> m + (31 - j) < 32)" by blast
    then show "\<not> bit w (31 - j)" using j by auto
  next
    fix n
    assume "\<forall>j. m \<le> j \<and> j < 32 \<longrightarrow> \<not> bit w (31 - j)"
    then have "m \<le> 31 - n \<and> 31 - n < 32 \<longrightarrow> \<not> bit w (31 - (31 - n))" by blast
    then show "\<not> (bit w n \<and> m + n < 32)" by auto
  qed
  finally show ?thesis .
qed

lemma netmask_loop_iff: "netmask_loop ip c i \<longleftrightarrow> (\<forall>j. c \<le> j \<and> j < 32 * i \<longrightarrow> \<not> addr_bit ip j)"
proof (induction i)
  case 0
  then show ?case by simp
next
  case (Suc i)
  show ?case
  proof (cases "c \<ge> 32 * (i + 1)")
    case True
    then show ?thesis by auto
  next
    case False
    have mask: "(if c > 32 * i then drop_bit (c - 32 * i) (NOT 0) else NOT 0 :: u32) = drop_bit (c - 32 * i) (NOT 0)"
    proof (cases "c > 32 * i")
      case no: False
      then have "c - 32 * i = 0" by simp
      with no show ?thesis by (simp only: if_False drop_bit_0 id_apply)
    qed simp
    have word: "ip ! i AND drop_bit (c - 32 * i) (NOT 0) = 0 \<longleftrightarrow>
        (\<forall>j. c \<le> j \<and> 32 * i \<le> j \<and> j < 32 * Suc i \<longrightarrow> \<not> addr_bit ip j)"
      unfolding and_netmask_zero
    proof (intro iffI allI impI)
      fix j
      assume a: "\<forall>j. c - 32 * i \<le> j \<and> j < 32 \<longrightarrow> \<not> bit (ip ! i) (31 - j)"
        and j: "c \<le> j \<and> 32 * i \<le> j \<and> j < 32 * Suc i"
      define r where "r = j - 32 * i"
      have r: "j = 32 * i + r" "r < 32" "c - 32 * i \<le> r" using j by (auto simp: r_def)
      then have "j div 32 = i" "j mod 32 = r" by auto
      then show "\<not> addr_bit ip j" using a r by (simp add: addr_bit_def)
    next
      fix r
      assume a: "\<forall>j. c \<le> j \<and> 32 * i \<le> j \<and> j < 32 * Suc i \<longrightarrow> \<not> addr_bit ip j"
        and r: "c - 32 * i \<le> r \<and> r < 32"
      then have "\<not> addr_bit ip (32 * i + r)" by auto
      moreover have "(32 * i + r) div 32 = i" "(32 * i + r) mod 32 = r" using r by auto
      ultimately show "\<not> bit (ip ! i) (31 - r)" by (simp add: addr_bit_def)
    qed
    have "netmask_loop ip c (Suc i) \<longleftrightarrow> ip ! i AND drop_bit (c - 32 * i) (NOT 0) = 0 \<and> netmask_loop ip c i"
      using False mask by (simp add: Let_def)
    also have "\<dots> \<longleftrightarrow> (\<forall>j. c \<le> j \<and> j < 32 * Suc i \<longrightarrow> \<not> addr_bit ip j)"
    proof (intro iffI allI impI)
      fix j
      assume "ip ! i AND drop_bit (c - 32 * i) (NOT 0) = 0 \<and> netmask_loop ip c i" "c \<le> j \<and> j < 32 * Suc i"
      then show "\<not> addr_bit ip j" unfolding word Suc.IH by (cases "32 * i \<le> j") auto
    next
      assume "\<forall>j. c \<le> j \<and> j < 32 * Suc i \<longrightarrow> \<not> addr_bit ip j"
      then show "ip ! i AND drop_bit (c - 32 * i) (NOT 0) = 0 \<and> netmask_loop ip c i"
        unfolding word Suc.IH by auto
    qed
    finally show ?thesis .
  qed
qed

lemma validate_netmask_iff:
  "validate_netmask a \<longleftrightarrow> (\<forall>j. unat (cidr a) \<le> j \<and> j < addr_width a \<longrightarrow> \<not> addr_bit (ip_words a) j)"
  by (simp add: validate_netmask_def netmask_loop_iff addr_width_def)

section \<open>Lists of allowed IPs\<close>

definition cursor_ok :: "nat option \<Rightarrow> 'a list \<Rightarrow> bool" where
  "cursor_ok cur xs \<longleftrightarrow> (case cur of None \<Rightarrow> xs = [] | Some i \<Rightarrow> Suc i = length xs)"

lemma link_after_append: "cursor_ok cur xs \<Longrightarrow> link_after cur x xs = xs @ [x]"
  by (auto simp: cursor_ok_def link_after_def split: option.splits)

lemma cursor_ok_next: "cursor_ok cur xs \<Longrightarrow> cursor_ok (cursor_next cur) (xs @ [x])"
  by (auto simp: cursor_ok_def cursor_next_def split: option.splits)

lemma cursor_ok_Nil [simp]: "cursor_ok None []"
  by (simp add: cursor_ok_def)

text \<open>What one entry of the list denotes, and whether it makes the list incremental.\<close>

definition aip_entry :: "sysenv \<Rightarrow> string \<Rightarrow> cfg_error + wgallowedip" where
  "aip_entry env e =
     map_sum id fst
       (parse_allowedip env (if char_at e 0 = CHR ''-'' then WGALLOWEDIP_REMOVE_ME else 0)
          (if char_at e 0 = CHR ''-'' \<or> char_at e 0 = CHR ''+'' then tl e else e))"

definition incremental :: "string \<Rightarrow> bool" where
  "incremental e \<longleftrightarrow> char_at e 0 = CHR ''-'' \<or> char_at e 0 = CHR ''+''"

definition clear_replace :: "bool \<Rightarrow> u32 \<Rightarrow> u32" where
  "clear_replace inc f = (if inc then f AND NOT WGPEER_REPLACE_ALLOWEDIPS else f)"

lemma clear_replace_twice [simp]: "clear_replace a (clear_replace b f) = clear_replace (a \<or> b) f"
  by (simp add: clear_replace_def and.assoc)

lemma parse_ip_prefix_eq:
  "parse_ip_prefix p 0 e =
     (p\<lparr>peer_flags := clear_replace (incremental e) (peer_flags p)\<rparr>,
      if char_at e 0 = CHR ''-'' then WGALLOWEDIP_REMOVE_ME else 0,
      if char_at e 0 = CHR ''-'' \<or> char_at e 0 = CHR ''+'' then tl e else e)"
  by (simp add: parse_ip_prefix_def incremental_def clear_replace_def)

lemma allowedips_loop_Some:
  assumes "cursor_ok cur (allowedips p)" and "strsep s CHR '','' = (e, rest)"
  shows "allowedips_loop env p cur (Some s) =
    (case aip_entry env e of
       Inl err \<Rightarrow> Inl err
     | Inr a \<Rightarrow> allowedips_loop env
         (p\<lparr>peer_flags := clear_replace (incremental e) (peer_flags p), allowedips := allowedips p @ [a]\<rparr>)
         (cursor_next cur) rest)"
  using assms
  by (auto simp: parse_ip_prefix_eq aip_entry_def link_after_append split: sum.splits)

text \<open>Entries joined by commas.\<close>

fun comma_join :: "string list \<Rightarrow> string" where
  "comma_join [] = []"
| "comma_join [e] = e"
| "comma_join (e # f # es) = e @ CHR '','' # comma_join (f # es)"

lemma strsep_comma_join:
  assumes "CHR '','' \<notin> set e"
  shows "strsep (comma_join (e # es)) CHR '','' = (e, if es = [] then None else Some (comma_join es))"
  using assms by (cases es) (simp_all add: strsep_no_delim strsep_delim)

lemma comma_join_exists: "\<exists>es. s = comma_join es \<and> es \<noteq> [] \<and> (\<forall>e \<in> set es. CHR '','' \<notin> set e)"
proof (induction s rule: length_induct)
  case (1 s)
  show ?case
  proof (cases "CHR '','' \<in> set s")
    case False
    then show ?thesis by (intro exI [of _ "[s]"]) simp
  next
    case True
    then obtain e r where s: "s = e @ CHR '','' # r" "CHR '','' \<notin> set e" by (meson split_list_first)
    with 1 obtain es where es: "r = comma_join es" "es \<noteq> []" "\<forall>e \<in> set es. CHR '','' \<notin> set e"
      by (metis (no_types, lifting) add_Suc_right le_add2 le_imp_less_Suc length_Cons length_append)
    then have "s = comma_join (e # es)" using s by (cases es) auto
    with es s show ?thesis by (intro exI [of _ "e # es"]) auto
  qed
qed

lemma allowedips_loop_join:
  assumes "cursor_ok cur (allowedips p)" and "es \<noteq> []" and "\<forall>e \<in> set es. CHR '','' \<notin> set e"
    and "list_all2 (\<lambda>e a. aip_entry env e = Inr a) es as"
  shows "\<exists>cur'. allowedips_loop env p cur (Some (comma_join es)) =
      Inr (p\<lparr>peer_flags := clear_replace (list_ex incremental es) (peer_flags p), allowedips := allowedips p @ as\<rparr>, cur')
    \<and> cursor_ok cur' (allowedips p @ as)"
  using assms
proof (induction es arbitrary: p cur as)
  case Nil
  then show ?case by simp
next
  case (Cons e es)
  from Cons.prems(4) obtain a as' where as: "as = a # as'" "aip_entry env e = Inr a"
      "list_all2 (\<lambda>e a. aip_entry env e = Inr a) es as'"
    by (auto simp: list_all2_Cons1)
  let ?p = "p\<lparr>peer_flags := clear_replace (incremental e) (peer_flags p), allowedips := allowedips p @ [a]\<rparr>"
  have c: "cursor_ok (cursor_next cur) (allowedips ?p)" using Cons.prems(1) by (simp add: cursor_ok_next)
  have step: "allowedips_loop env p cur (Some (comma_join (e # es))) =
      allowedips_loop env ?p (cursor_next cur) (if es = [] then None else Some (comma_join es))"
    using allowedips_loop_Some [OF Cons.prems(1) strsep_comma_join [of e es]] Cons.prems(3) as(2) by simp
  show ?case
  proof (cases "es = []")
    case True
    then show ?thesis using step as c by simp
  next
    case False
    with Cons.IH [OF c False _ as(3)] Cons.prems(3) obtain cur' where
      "allowedips_loop env ?p (cursor_next cur) (Some (comma_join es)) =
         Inr (?p\<lparr>peer_flags := clear_replace (list_ex incremental es) (peer_flags ?p), allowedips := allowedips ?p @ as'\<rparr>, cur')"
      "cursor_ok cur' (allowedips ?p @ as')" by auto
    with False step as show ?thesis by (auto simp: disj_commute)
  qed
qed

lemma allowedips_loop_first_error:
  assumes "cursor_ok cur (allowedips p)" and "\<forall>e \<in> set (es @ e # fs). CHR '','' \<notin> set e"
    and "list_all2 (\<lambda>e a. aip_entry env e = Inr a) es as" and "aip_entry env e = Inl err"
  shows "allowedips_loop env p cur (Some (comma_join (es @ e # fs))) = Inl err"
  using assms
proof (induction es arbitrary: p cur as)
  case Nil
  then show ?case using allowedips_loop_Some [OF Nil.prems(1) strsep_comma_join [of e fs]] by simp
next
  case (Cons x es)
  then obtain a as' where as: "as = a # as'" "aip_entry env x = Inr a"
      "list_all2 (\<lambda>e a. aip_entry env e = Inr a) es as'"
    by (auto simp: list_all2_Cons1)
  let ?p = "p\<lparr>peer_flags := clear_replace (incremental x) (peer_flags p), allowedips := allowedips p @ [a]\<rparr>"
  have c: "cursor_ok (cursor_next cur) (allowedips ?p)" using Cons.prems(1) by (simp add: cursor_ok_next)
  have "CHR '','' \<notin> set x" using Cons.prems(2) by simp
  then have "allowedips_loop env p cur (Some (comma_join (x # (es @ e # fs)))) =
      allowedips_loop env ?p (cursor_next cur) (Some (comma_join (es @ e # fs)))"
    using allowedips_loop_Some [OF Cons.prems(1) strsep_comma_join [of x "es @ e # fs"]] as(2) by simp
  moreover have "\<forall>e \<in> set (es @ e # fs). CHR '','' \<notin> set e" using Cons.prems(2) by simp
  ultimately show ?case using Cons.IH [OF c _ as(3) Cons.prems(4)] by simp
qed

text \<open>Every list is read entry by entry: all of them parse, or the first bad one is reported.\<close>

lemma entries_ok_or_first_error:
  "(\<exists>as. list_all2 (\<lambda>e a. aip_entry env e = Inr a) es as)
   \<or> (\<exists>pre e post as err. es = pre @ e # post \<and> list_all2 (\<lambda>e a. aip_entry env e = Inr a) pre as \<and> aip_entry env e = Inl err)"
proof (induction es)
  case Nil
  then show ?case by simp
next
  case (Cons e es)
  show ?case
  proof (cases "aip_entry env e")
    case (Inl err)
    then have "e # es = [] @ e # es \<and> list_all2 (\<lambda>e a. aip_entry env e = Inr a) [] [] \<and> aip_entry env e = Inl err" by simp
    then show ?thesis by blast
  next
    case (Inr a)
    from Cons.IH show ?thesis
    proof (elim disjE exE conjE)
      fix as
      assume "list_all2 (\<lambda>e a. aip_entry env e = Inr a) es as"
      with Inr have "list_all2 (\<lambda>e a. aip_entry env e = Inr a) (e # es) (a # as)" by simp
      then show ?thesis by blast
    next
      fix pre e' post as err
      assume "es = pre @ e' # post" "list_all2 (\<lambda>e a. aip_entry env e = Inr a) pre as" "aip_entry env e' = Inl err"
      with Inr have "e # es = (e # pre) @ e' # post \<and> list_all2 (\<lambda>e a. aip_entry env e = Inr a) (e # pre) (a # as)
          \<and> aip_entry env e' = Inl err" by simp
      then show ?thesis by blast
    qed
  qed
qed

lemma parse_allowedips_Inr:
  assumes "parse_allowedips env p cur v = Inr (p', cur')" and "cursor_ok cur (allowedips p)"
  obtains es as where "v = comma_join es" and "\<forall>e \<in> set es. CHR '','' \<notin> set e"
    and "list_all2 (\<lambda>e a. aip_entry env e = Inr a) es as" and "es = [] \<longleftrightarrow> v = []"
    and "p' = p\<lparr>peer_flags := clear_replace (list_ex incremental es) (peer_flags p OR WGPEER_REPLACE_ALLOWEDIPS),
                allowedips := allowedips p @ as\<rparr>"
    and "cursor_ok cur' (allowedips p')"
proof (cases "v = []")
  case True
  with assms(1) have "p' = peer_or WGPEER_REPLACE_ALLOWEDIPS p" "cur' = cur"
    by (simp_all add: parse_allowedips_def Let_def)
  then show ?thesis
    using True assms(2) by (intro that [of "[]" "[]"]) (simp_all add: peer_or_def clear_replace_def)
next
  case False
  let ?p = "peer_or WGPEER_REPLACE_ALLOWEDIPS p"
  obtain es where es: "v = comma_join es" "es \<noteq> []" "\<forall>e \<in> set es. CHR '','' \<notin> set e"
    using comma_join_exists by blast
  have loop: "allowedips_loop env ?p cur (Some (comma_join es)) = Inr (p', cur')"
    using assms(1) False es(1) by (simp add: parse_allowedips_def Let_def)
  have c: "cursor_ok cur (allowedips ?p)" using assms(2) by (simp add: peer_or_def)
  obtain as where as: "list_all2 (\<lambda>e a. aip_entry env e = Inr a) es as"
  proof (rule disjE [OF entries_ok_or_first_error [of env es]])
    assume "\<exists>pre e post as err. es = pre @ e # post \<and> list_all2 (\<lambda>e a. aip_entry env e = Inr a) pre as \<and> aip_entry env e = Inl err"
    then obtain pre e post bs err where bad: "es = pre @ e # post" "list_all2 (\<lambda>e a. aip_entry env e = Inr a) pre bs"
      "aip_entry env e = Inl err" by blast
    have "allowedips_loop env ?p cur (Some (comma_join es)) = Inl err"
      unfolding bad(1) using c es(3) bad(2,3) unfolding bad(1) by (rule allowedips_loop_first_error)
    with loop show ?thesis by simp
  qed (use that in blast)
  obtain cur2 where "allowedips_loop env ?p cur (Some (comma_join es)) =
      Inr (?p\<lparr>peer_flags := clear_replace (list_ex incremental es) (peer_flags ?p), allowedips := allowedips ?p @ as\<rparr>, cur2)"
    "cursor_ok cur2 (allowedips ?p @ as)"
    using allowedips_loop_join [OF c es(2,3) as] by blast
  with loop have p': "p' = ?p\<lparr>peer_flags := clear_replace (list_ex incremental es) (peer_flags ?p), allowedips := allowedips ?p @ as\<rparr>"
    and "cursor_ok cur' (allowedips p')" by simp_all
  with es(2) False show ?thesis by (intro that [OF es(1,3) as]) (simp_all add: peer_or_def)
qed

subsection \<open>One entry\<close>

definition valid_prefix :: "wgallowedip \<Rightarrow> bool" where
  "valid_prefix a \<longleftrightarrow> family a = AF_INET \<and> unat (cidr a) \<le> 32 \<or> family a = AF_INET6 \<and> unat (cidr a) \<le> 128"

lemma parse_ip_family: "parse_ip env a s = Inr b \<Longrightarrow> family b = AF_INET \<or> family b = AF_INET6"
  by (auto simp: parse_ip_def Let_def set_ip4_def af_defs split: if_splits option.splits)

lemma parse_cidr_bound:
  assumes "parse_cidr fam m = Some c"
  shows "fam = AF_INET \<Longrightarrow> c \<le> 32" and "fam = AF_INET6 \<Longrightarrow> c \<le> 128"
  using assms by (auto simp: parse_cidr_def af_defs split: option.splits if_splits prod.splits)

lemma parse_allowedip_Inr:
  assumes "parse_allowedip env flags s = Inr (a, warn)"
  obtains ip m b c where "strsep s CHR ''/'' = (ip, m)" and "parse_ip env zero_allowedip ip = Inr b"
    and "parse_cidr (family b) m = Some c" and "a = b\<lparr>cidr := word_of_nat c, aip_flags := flags\<rparr>"
    and "warn = (if validate_netmask a then None else Some (ip, m))"
  using assms that unfolding parse_allowedip_def
  by (cases "strsep s CHR ''/''") (auto simp: Let_def split: sum.splits option.splits)

lemma parse_allowedip_valid:
  assumes "parse_allowedip env flags s = Inr (a, warn)"
  shows "valid_prefix a" and "aip_flags a = flags"
    and "warn = (if validate_netmask a then None else Some (strsep s CHR ''/''))"
proof -
  obtain ip m b c where e: "strsep s CHR ''/'' = (ip, m)" "parse_ip env zero_allowedip ip = Inr b"
    "parse_cidr (family b) m = Some c" "a = b\<lparr>cidr := word_of_nat c, aip_flags := flags\<rparr>"
    "warn = (if validate_netmask a then None else Some (ip, m))"
    using assms by (rule parse_allowedip_Inr)
  note fam = parse_ip_family [OF e(2)] parse_cidr_bound [OF e(3)]
  then have "c \<le> 128" by fastforce
  then have "unat (word_of_nat c :: u8) = c" by (simp add: unat_of_nat)
  then show "valid_prefix a" "aip_flags a = flags" using e(4) fam by (auto simp: valid_prefix_def)
  show "warn = (if validate_netmask a then None else Some (strsep s CHR ''/''))" using e by simp
qed

text \<open>The warning about host bits prints the mask, which is then not NULL.\<close>

lemma parse_allowedip_warn_mask:
  assumes "parse_allowedip env flags s = Inr (a, Some (ip, m))"
  shows "\<exists>t. m = Some t"
proof (rule ccontr)
  assume "\<not> (\<exists>t. m = Some t)"
  then have m: "m = None" by simp
  obtain b c where e: "parse_cidr (family b) m = Some c" "a = b\<lparr>cidr := word_of_nat c, aip_flags := flags\<rparr>"
    "\<not> validate_netmask a"
    using assms by (rule parse_allowedip_Inr) (auto split: if_splits)
  have "unat (cidr a) = addr_width a"
    using e(1,2) m by (auto simp: parse_cidr_def addr_width_def split: if_splits)
  then show False using e(3) unfolding validate_netmask_iff by linarith
qed

definition wf_env :: "sysenv \<Rightarrow> bool" where
  "wf_env env \<longleftrightarrow> (\<forall>s w. inet_pton6 env s = Some w \<longrightarrow> length w = 4)
     \<and> (\<forall>n s k r. getaddrinfo env n s k = Inr r \<longrightarrow> wf_sockaddr (ai_addr r) \<and> sa_family (ai_addr r) = ai_family r)"

lemma parse_ip_wf: "wf_env env \<Longrightarrow> wf_allowedip a \<Longrightarrow> parse_ip env a s = Inr b \<Longrightarrow> wf_allowedip b"
  by (auto simp: parse_ip_def wf_env_def wf_allowedip_def Let_def set_ip4_def split: if_splits option.splits)

lemma wf_zero_allowedip [simp]: "wf_allowedip zero_allowedip"
  by (simp add: wf_allowedip_def zero_allowedip_def)

lemma parse_allowedip_wf:
  assumes "wf_env env" and "parse_allowedip env flags s = Inr (a, warn)"
  shows "wf_allowedip a"
proof -
  from assms(2) obtain ip b c where "parse_ip env zero_allowedip ip = Inr b" "a = b\<lparr>cidr := word_of_nat c, aip_flags := flags\<rparr>"
    by (rule parse_allowedip_Inr)
  with parse_ip_wf [OF assms(1) wf_zero_allowedip] show ?thesis by (auto simp: wf_allowedip_def)
qed

lemma aip_entry_valid:
  assumes "aip_entry env e = Inr a"
  shows "valid_prefix a" and "aip_flags a = (if char_at e 0 = CHR ''-'' then WGALLOWEDIP_REMOVE_ME else 0)"
    and "wf_env env \<Longrightarrow> wf_allowedip a"
proof -
  define fl s where "fl = (if char_at e 0 = CHR ''-'' then WGALLOWEDIP_REMOVE_ME else 0)"
    and "s = (if char_at e 0 = CHR ''-'' \<or> char_at e 0 = CHR ''+'' then tl e else e)"
  from assms obtain w where "parse_allowedip env fl s = Inr (a, w)"
    unfolding aip_entry_def fl_def [symmetric] s_def [symmetric] by (cases "parse_allowedip env fl s") auto
  from parse_allowedip_valid [OF this] parse_allowedip_wf [OF _ this]
  show "valid_prefix a" "aip_flags a = (if char_at e 0 = CHR ''-'' then WGALLOWEDIP_REMOVE_ME else 0)"
    "wf_env env \<Longrightarrow> wf_allowedip a"
    by (simp_all add: fl_def)
qed

end
