(* ===== verification/Config.thy ===== *)
theory Config
  imports ConfigValueFacts
begin

text \<open>
  The configuration readers of \<open>src/src/config.c\<close>: the line dispatcher \<open>process_line\<close> with its context
  (\<open>struct config_ctx\<close>), \<open>config_read_init\<close>, \<open>config_read_line\<close>, \<open>config_read_finish\<close>, and the argument
  loop \<open>config_read_cmd\<close> of \<open>wg set\<close>.

  An if-else chain over keys is the list of its keys and branches, tried in order by \<open>key_dispatch\<close>. The
  pointers \<open>last_peer\<close> and \<open>last_allowedip\<close> are indices into the lists they point into.
\<close>

record config_ctx =
  device :: wgdevice
  last_peer :: "nat option"
  last_allowedip :: "nat option"
  is_peer_section :: bool
  is_device_section :: bool

section \<open>Combining fallible steps\<close>

definition map_run :: "('a \<Rightarrow> 'b) \<Rightarrow> ('e, 'a) run \<Rightarrow> ('e, 'b) run" where
  "map_run f r = map_option (map_sum id f) r"

lemma map_run_Some_Inr_iff: "map_run f r = Some (Inr y) \<longleftrightarrow> (\<exists>x. r = Some (Inr x) \<and> y = f x)"
  by (cases r; cases "the r") (auto simp: map_run_def)

lemma map_run_Some_Inl_iff: "map_run f r = Some (Inl e) \<longleftrightarrow> r = Some (Inl e)"
  by (cases r; cases "the r") (auto simp: map_run_def)

lemma map_run_None_iff [simp]: "map_run f r = None \<longleftrightarrow> r = None"
  by (simp add: map_run_def)

section \<open>The keys of a configuration file\<close>

text \<open>A branch of the device section reads a value and updates the device.\<close>

type_synonym device_branch = "string \<Rightarrow> wgdevice \<Rightarrow> (cfg_error, wgdevice) run"

text \<open>A branch of the peer section updates the last peer and its last allowed IP.\<close>

type_synonym peer_state = "wgpeer \<times> nat option"
type_synonym peer_branch = "string \<Rightarrow> peer_state \<Rightarrow> (cfg_error, peer_state) run"

definition key_match :: "string \<Rightarrow> string \<Rightarrow> string option" where
  "key_match key line = get_value line (key @ ''='')"

text \<open>\<open>!strncasecmp(line, "Key=", sizeof("Key=") - 1)\<close>, which also accepts an empty value.\<close>

definition prefix_match :: "string \<Rightarrow> string \<Rightarrow> string option" where
  "prefix_match key line =
     (let k = key @ ''='' in if strncaseeq line k (length k) then Some (drop (length k) line) else None)"

fun key_dispatch :: "((string \<Rightarrow> string option) \<times> (string \<Rightarrow> 's \<Rightarrow> (cfg_error, 's) run)) list \<Rightarrow> string \<Rightarrow> 's \<Rightarrow> (cfg_error, 's) run" where
  "key_dispatch [] line s = Some (Inl (E_line line))"
| "key_dispatch ((match, branch) # rest) line s =
     (case match line of Some value \<Rightarrow> branch value s | None \<Rightarrow> key_dispatch rest line s)"

definition set_ws_str :: "(string option \<Rightarrow> wgdevice \<Rightarrow> wgdevice) \<Rightarrow> u32 \<Rightarrow> device_branch" where
  "set_ws_str upd b value dev =
     (let (s, flags) = parse_ws_device_str (dev_flags dev) b value
      in Some (Inr (upd s (dev\<lparr>dev_flags := flags\<rparr>))))"

definition set_listen_port :: "sysenv \<Rightarrow> device_branch" where
  "set_listen_port env value dev =
     Some (map_sum id (\<lambda>(port, flags). dev\<lparr>listen_port := port, dev_flags := flags\<rparr>) (parse_port env (dev_flags dev) value))"

definition set_fwmark :: device_branch where
  "set_fwmark value dev =
     Some (map_sum id (\<lambda>(mark, flags). dev\<lparr>fwmark := mark, dev_flags := flags\<rparr>) (parse_fwmark (dev_flags dev) value))"

definition set_ws_listen :: device_branch where
  "set_ws_listen value dev =
     Some (map_sum id (\<lambda>(s, flags). dev\<lparr>ws_listen := s, dev_flags := flags\<rparr>) (parse_ws_listen (dev_flags dev) value))"

definition set_private_key :: "cfg_error + key \<Rightarrow> wgdevice \<Rightarrow> (cfg_error, wgdevice) run" where
  "set_private_key r dev = Some (map_sum id (\<lambda>k. dev_or WGDEVICE_HAS_PRIVATE_KEY (dev\<lparr>private_key := k\<rparr>)) r)"

definition device_keys :: "sysenv \<Rightarrow> ((string \<Rightarrow> string option) \<times> device_branch) list" where
  "device_keys env =
     [(key_match ''ListenPort'', set_listen_port env),
      (key_match ''FwMark'', set_fwmark),
      (key_match ''PrivateKey'', \<lambda>v. set_private_key (parse_key v)),
      (prefix_match ''WSListen'', set_ws_listen),
      (prefix_match ''WSServerTLSCert'', set_ws_str (\<lambda>s. ws_server_tls_cert_update (\<lambda>_. s)) WGDEVICE_HAS_WS_SERVER_TLS_CERT),
      (prefix_match ''WSServerTLSKey'', set_ws_str (\<lambda>s. ws_server_tls_key_update (\<lambda>_. s)) WGDEVICE_HAS_WS_SERVER_TLS_KEY),
      (prefix_match ''WSServerBearer'', set_ws_str (\<lambda>s. ws_server_bearer_update (\<lambda>_. s)) WGDEVICE_HAS_WS_SERVER_BEARER),
      (prefix_match ''WSTrustedProxies'', set_ws_str (\<lambda>s. ws_trusted_proxies_update (\<lambda>_. s)) WGDEVICE_HAS_WS_TRUSTED_PROXIES)]"

text \<open>
  A field of a peer set from a parsed value, with the flag bits the code sets once the value has
  been accepted (\<open>0\<close> where it sets none).
\<close>

definition set_peer :: "(string \<Rightarrow> cfg_error + 'a) \<Rightarrow> ('a \<Rightarrow> wgpeer \<Rightarrow> wgpeer) \<Rightarrow> u32 \<Rightarrow> peer_branch" where
  "set_peer parse upd b value st = Some (map_sum id (\<lambda>x. (peer_or b (upd x (fst st)), snd st)) (parse value))"

definition set_endpoint :: "sysenv \<Rightarrow> peer_branch" where
  "set_endpoint env value st =
     (let (peer, last) = st
      in map_run (\<lambda>p. (p, last))
           (if is_ws_url value then parse_ws_endpoint env peer value
            else map_run (\<lambda>addr. peer\<lparr>endpoint := addr\<rparr>) (parse_endpoint env value)))"

definition set_allowedips :: "sysenv \<Rightarrow> peer_branch" where
  "set_allowedips env value st = Some (parse_allowedips env (fst st) (snd st) value)"

definition set_keepalive :: peer_branch where
  "set_keepalive value st =
     Some (map_sum id (\<lambda>(n, flags). ((fst st)\<lparr>persistent_keepalive_interval := n, peer_flags := flags\<rparr>, snd st))
            (parse_persistent_keepalive (peer_flags (fst st)) value))"

definition peer_keys :: "sysenv \<Rightarrow> ((string \<Rightarrow> string option) \<times> peer_branch) list" where
  "peer_keys env =
     [(key_match ''Endpoint'', set_endpoint env),
      (key_match ''PublicKey'', set_peer parse_key (\<lambda>k. peer_public_key_update (\<lambda>_. k)) WGPEER_HAS_PUBLIC_KEY),
      (key_match ''AllowedIPs'', set_allowedips env),
      (key_match ''PersistentKeepalive'', set_keepalive),
      (key_match ''PresharedKey'', set_peer parse_key (\<lambda>k. preshared_key_update (\<lambda>_. k)) WGPEER_HAS_PRESHARED_KEY),
      (key_match ''WSMode'', set_peer parse_ws_mode (\<lambda>t. transport_update (\<lambda>_. t)) 0),
      (key_match ''WSTunnelTarget'', set_peer parse_ws_target (\<lambda>s. wstunnel_target_update (\<lambda>_. Some s)) WGPEER_HAS_WS_SETTINGS),
      (key_match ''WSBearer'', set_peer parse_ws_secret (\<lambda>s. ws_bearer_update (\<lambda>_. Some s)) WGPEER_HAS_WS_SETTINGS),
      (key_match ''WSMask'', set_peer parse_ws_bool (\<lambda>b. ws_mask_update (\<lambda>_. b)) WGPEER_HAS_WS_SETTINGS),
      (key_match ''WSTLSCA'', set_peer parse_ws_str (\<lambda>s. ws_tls_ca_update (\<lambda>_. Some s)) WGPEER_HAS_WS_SETTINGS),
      (key_match ''WSTLSCert'', set_peer parse_ws_str (\<lambda>s. ws_tls_cert_update (\<lambda>_. Some s)) WGPEER_HAS_WS_SETTINGS),
      (key_match ''WSTLSKey'', set_peer parse_ws_str (\<lambda>s. ws_tls_key_update (\<lambda>_. Some s)) WGPEER_HAS_WS_SETTINGS),
      (key_match ''WSTLSInsecure'', set_peer parse_ws_bool (\<lambda>b. ws_tls_insecure_update (\<lambda>_. b)) WGPEER_HAS_WS_SETTINGS),
      (key_match ''WSPingInterval'', set_peer parse_ws_millis (\<lambda>n. ws_ping_interval_ms_update (\<lambda>_. n)) WGPEER_HAS_WS_SETTINGS),
      (key_match ''WSBackoffMin'', set_peer parse_ws_millis (\<lambda>n. ws_backoff_min_ms_update (\<lambda>_. n)) WGPEER_HAS_WS_SETTINGS),
      (key_match ''WSBackoffMax'', set_peer parse_ws_millis (\<lambda>n. ws_backoff_max_ms_update (\<lambda>_. n)) WGPEER_HAS_WS_SETTINGS)]"

section \<open>Lines\<close>

definition add_peer :: "wgpeer \<Rightarrow> config_ctx \<Rightarrow> config_ctx" where
  "add_peer p ctx =
     ctx\<lparr>last_allowedip := None,
         device := (device ctx)\<lparr>peers := link_after (last_peer ctx) p (peers (device ctx))\<rparr>,
         last_peer := cursor_next (last_peer ctx)\<rparr>"

text \<open>Running a branch on the peer \<open>ctx->last_peer\<close> points to.\<close>

definition on_last_peer :: "(peer_state \<Rightarrow> (cfg_error, peer_state) run) \<Rightarrow> config_ctx \<Rightarrow> (cfg_error, config_ctx) run" where
  "on_last_peer f ctx =
     (case last_peer ctx of
        None \<Rightarrow> Some (Inl E_null_deref)
      | Some i \<Rightarrow>
          map_run (\<lambda>(p, last). ctx\<lparr>device := (device ctx)\<lparr>peers := (peers (device ctx))[i := p]\<rparr>, last_allowedip := last\<rparr>)
            (f (peers (device ctx) ! i, last_allowedip ctx)))"

definition process_line :: "sysenv \<Rightarrow> string \<Rightarrow> config_ctx \<Rightarrow> (cfg_error, config_ctx) run" where
  "process_line env line ctx =
     (if strcaseeq line ''[Interface]'' then
        Some (Inr (ctx\<lparr>is_peer_section := False, is_device_section := True\<rparr>))
      else if strcaseeq line ''[Peer]'' then
        Some (Inr ((add_peer (peer_or (WGPEER_REPLACE_ALLOWEDIPS OR WGPEER_HAS_TRANSPORT) zero_peer) ctx)
                   \<lparr>is_peer_section := True, is_device_section := False\<rparr>))
      else if is_device_section ctx then
        map_run (\<lambda>dev. ctx\<lparr>device := dev\<rparr>) (key_dispatch (device_keys env) line (device ctx))
      else if is_peer_section ctx then on_last_peer (key_dispatch (peer_keys env) line) ctx
      else Some (Inl (E_line line)))"

definition COMMENT_CHAR :: char where "COMMENT_CHAR = CHR ''#''"

definition clean_line :: "string \<Rightarrow> string" where
  "clean_line input = filter (\<lambda>c. \<not> char_is_space (c_int c)) (takeWhile (\<lambda>c. c \<noteq> COMMENT_CHAR) input)"

definition config_read_line :: "sysenv \<Rightarrow> string \<Rightarrow> config_ctx \<Rightarrow> (cfg_error, config_ctx) run" where
  "config_read_line env input ctx =
     (let line = clean_line input in if line = [] then Some (Inr ctx) else process_line env line ctx)"

definition config_read_init :: "bool \<Rightarrow> config_ctx" where
  "config_read_init is_append =
     \<lparr>device = (if is_append then zero_device
                else dev_or (WGDEVICE_REPLACE_PEERS OR WGDEVICE_HAS_PRIVATE_KEY OR WGDEVICE_HAS_FWMARK OR WGDEVICE_HAS_LISTEN_PORT)
                       zero_device),
      last_peer = None, last_allowedip = None, is_peer_section = False, is_device_section = False\<rparr>"

fun finish_peers :: "wgpeer list \<Rightarrow> cfg_error option" where
  "finish_peers [] = None"
| "finish_peers (p # ps) =
     (if \<not> peer_has p WGPEER_HAS_PUBLIC_KEY then Some E_missing_public_key
      else case validate_ws_peer p of Some e \<Rightarrow> Some (E_ws_peer e) | None \<Rightarrow> finish_peers ps)"

definition config_read_finish :: "config_ctx \<Rightarrow> cfg_error + wgdevice" where
  "config_read_finish ctx =
     (case finish_peers (peers (device ctx)) of Some e \<Rightarrow> Inl e | None \<Rightarrow> Inr (device ctx))"

text \<open>Reading all the lines of a file, as \<open>setconf_main\<close> does.\<close>

definition config_read :: "sysenv \<Rightarrow> bool \<Rightarrow> string list \<Rightarrow> (cfg_error, wgdevice) run" where
  "config_read env is_append lines =
     (case run_steps (config_read_line env) lines (config_read_init is_append) of
        None \<Rightarrow> None
      | Some (Inl e) \<Rightarrow> Some (Inl e)
      | Some (Inr ctx) \<Rightarrow> Some (config_read_finish ctx))"

section \<open>The arguments of wg set\<close>

definition strip_spaces :: "string \<Rightarrow> string" where
  "strip_spaces s = filter (\<lambda>c. \<not> char_is_space (c_int c)) s"

text \<open>
  The branches that need no peer yet, and those that need one. The branches of each kind are in two
  groups, as the code has them; no name occurs twice, so that the order between the groups does not matter.
\<close>

definition device_ws_args :: "sysenv \<Rightarrow> (string \<times> device_branch) list" where
  "device_ws_args env =
     [(''ws-listen'', set_ws_listen),
      (''ws-server-tls-cert'', set_ws_str (\<lambda>s. ws_server_tls_cert_update (\<lambda>_. s)) WGDEVICE_HAS_WS_SERVER_TLS_CERT),
      (''ws-server-tls-key'', set_ws_str (\<lambda>s. ws_server_tls_key_update (\<lambda>_. s)) WGDEVICE_HAS_WS_SERVER_TLS_KEY),
      (''ws-server-bearer'', \<lambda>v dev. Some (map_sum id (\<lambda>s. dev_or WGDEVICE_HAS_WS_SERVER_BEARER (dev\<lparr>ws_server_bearer := Some s\<rparr>))
                                            (parse_ws_secret_file env v))),
      (''ws-trusted-proxies'', set_ws_str (\<lambda>s. ws_trusted_proxies_update (\<lambda>_. s)) WGDEVICE_HAS_WS_TRUSTED_PROXIES)]"

definition device_args :: "sysenv \<Rightarrow> (string \<times> device_branch) list" where
  "device_args env =
     [(''listen-port'', set_listen_port env),
      (''fwmark'', set_fwmark),
      (''private-key'', \<lambda>v. set_private_key (parse_keyfile env v))] @ device_ws_args env"

definition peer_ws_args :: "sysenv \<Rightarrow> (string \<times> peer_branch) list" where
  "peer_ws_args env =
     [(''endpoint'', \<lambda>v st. set_endpoint env v (peer_or WGPEER_HAS_TRANSPORT (fst st), snd st)),
      (''ws-mode'', \<lambda>v st. set_peer parse_ws_mode (\<lambda>t. transport_update (\<lambda>_. t)) 0 v (peer_or WGPEER_HAS_TRANSPORT (fst st), snd st)),
      (''wstunnel-target'', set_peer parse_ws_target (\<lambda>s. wstunnel_target_update (\<lambda>_. Some s)) WGPEER_HAS_WS_SETTINGS),
      (''ws-bearer'', set_peer (parse_ws_secret_file env) (\<lambda>s. ws_bearer_update (\<lambda>_. Some s)) WGPEER_HAS_WS_SETTINGS),
      (''ws-mask'', set_peer parse_ws_bool (\<lambda>b. ws_mask_update (\<lambda>_. b)) WGPEER_HAS_WS_SETTINGS),
      (''ws-tls-ca'', set_peer parse_ws_str (\<lambda>s. ws_tls_ca_update (\<lambda>_. Some s)) WGPEER_HAS_WS_SETTINGS),
      (''ws-tls-cert'', set_peer parse_ws_str (\<lambda>s. ws_tls_cert_update (\<lambda>_. Some s)) WGPEER_HAS_WS_SETTINGS),
      (''ws-tls-key'', set_peer parse_ws_str (\<lambda>s. ws_tls_key_update (\<lambda>_. Some s)) WGPEER_HAS_WS_SETTINGS),
      (''ws-tls-insecure'', set_peer parse_ws_bool (\<lambda>b. ws_tls_insecure_update (\<lambda>_. b)) WGPEER_HAS_WS_SETTINGS),
      (''ws-ping-interval'', set_peer parse_ws_millis (\<lambda>n. ws_ping_interval_ms_update (\<lambda>_. n)) WGPEER_HAS_WS_SETTINGS),
      (''ws-backoff-min'', set_peer parse_ws_millis (\<lambda>n. ws_backoff_min_ms_update (\<lambda>_. n)) WGPEER_HAS_WS_SETTINGS),
      (''ws-backoff-max'', set_peer parse_ws_millis (\<lambda>n. ws_backoff_max_ms_update (\<lambda>_. n)) WGPEER_HAS_WS_SETTINGS)]"

definition peer_args :: "sysenv \<Rightarrow> (string \<times> peer_branch) list" where
  "peer_args env = peer_ws_args env @
     [(''allowed-ips'', \<lambda>v. set_allowedips env (strip_spaces v)),
      (''persistent-keepalive'', set_keepalive),
      (''preshared-key'', set_peer (parse_keyfile env) (\<lambda>k. preshared_key_update (\<lambda>_. k)) WGPEER_HAS_PRESHARED_KEY)]"

text \<open>
  The state of the loop is the device with the pointers \<open>peer\<close> and \<open>allowedip\<close>, kept in a context
  whose section flags it does not use. One step consumes \<open>remove\<close> alone, or a name and its value.
\<close>

definition cmd_step :: "sysenv \<Rightarrow> string \<Rightarrow> string \<Rightarrow> config_ctx \<Rightarrow> (cfg_error, config_ctx) run" where
  "cmd_step env name arg ctx =
     (if name = ''peer'' then
        (let ctx' = add_peer zero_peer ctx
         in on_last_peer (set_peer parse_key (\<lambda>k. peer_public_key_update (\<lambda>_. k)) WGPEER_HAS_PUBLIC_KEY arg) ctx')
      else if last_peer ctx = None then
        (case map_of (device_args env) name of
           Some branch \<Rightarrow> map_run (\<lambda>dev. ctx\<lparr>device := dev\<rparr>) (branch arg (device ctx))
         | None \<Rightarrow> Some (Inl (E_argument name)))
      else
        (case map_of (peer_args env) name of
           Some branch \<Rightarrow> on_last_peer (branch arg) ctx
         | None \<Rightarrow> Some (Inl (E_argument name))))"

definition cmd_remove :: "config_ctx \<Rightarrow> (cfg_error, config_ctx) run" where
  "cmd_remove ctx = on_last_peer (\<lambda>(p, last). Some (Inr (peer_or WGPEER_REMOVE_ME p, last))) ctx"

fun cmd_loop :: "sysenv \<Rightarrow> string list \<Rightarrow> config_ctx \<Rightarrow> (cfg_error, config_ctx) run" where
  "cmd_loop env [] ctx = Some (Inr ctx)"
| "cmd_loop env [name] ctx =
     (if name = ''remove'' \<and> last_peer ctx \<noteq> None then cmd_remove ctx else Some (Inl (E_argument name)))"
| "cmd_loop env (name # arg # argv) ctx =
     (if name = ''remove'' \<and> last_peer ctx \<noteq> None then
        (case cmd_remove ctx of
           Some (Inr ctx') \<Rightarrow> cmd_loop env (arg # argv) ctx'
         | r \<Rightarrow> r)
      else
        (case cmd_step env name arg ctx of
           Some (Inr ctx') \<Rightarrow> cmd_loop env argv ctx'
         | r \<Rightarrow> r))"

fun first_ws_problem :: "wgpeer list \<Rightarrow> ws_problem option" where
  "first_ws_problem [] = None"
| "first_ws_problem (p # ps) = (case validate_ws_peer p of Some e \<Rightarrow> Some e | None \<Rightarrow> first_ws_problem ps)"

definition config_read_cmd :: "sysenv \<Rightarrow> string list \<Rightarrow> (cfg_error, wgdevice) run" where
  "config_read_cmd env argv =
     (case cmd_loop env argv (config_read_init True) of
        None \<Rightarrow> None
      | Some (Inl e) \<Rightarrow> Some (Inl e)
      | Some (Inr ctx) \<Rightarrow>
          (case first_ws_problem (peers (device ctx)) of
             Some e \<Rightarrow> Some (Inl (E_ws_peer e))
           | None \<Rightarrow> Some (Inr (device ctx))))"

lemma map_sum_id_Inr: "map_sum id f r = Inr y \<longleftrightarrow> (\<exists>x. r = Inr x \<and> y = f x)"
  by (cases r) auto

lemma resolve_loop_Some:
  assumes "resolve_loop env h p v retries t k sl = Some (res, sl')"
  shows "\<exists>n. (\<forall>i < n. \<not> decisive env h p (k + i)) \<and> res = attempt_result env h p v (k + n) \<and> sl' = sl @ timeouts t n"
proof (cases "0 \<le> retries")
  case True
  then obtain n where "\<forall>i < n. \<not> decisive env h p (k + i)"
    "resolve_loop env h p v retries t k sl = Some (attempt_result env h p v (k + n), sl @ timeouts t n)"
    using resolve_loop_bounded by blast
  with assms show ?thesis by auto
next
  case False
  define n where "n = (LEAST i. decisive env h p (k + i))"
  have "\<exists>i. decisive env h p (k + i)" using assms False resolve_loop_returns_iff by metis
  then have n: "decisive env h p (k + n)" unfolding n_def by (rule LeastI_ex)
  have before: "\<not> decisive env h p (k + i)" if "i < n" for i using not_less_Least that unfolding n_def by blast
  have "resolve_loop env h p v retries t k sl = Some (attempt_result env h p v (k + n), sl @ timeouts t n)"
    using before n False by (intro resolve_loop_result) auto
  with before assms show ?thesis by auto
qed

section \<open>What every branch keeps\<close>

definition ws_defaults :: "wgpeer \<Rightarrow> bool" where
  "ws_defaults p \<longleftrightarrow> wstunnel_target p = None \<and> ws_bearer p = None \<and> ws_tls_ca p = None \<and> ws_tls_cert p = None
     \<and> ws_tls_key p = None \<and> \<not> ws_mask p \<and> \<not> ws_tls_insecure p \<and> ws_ping_interval_ms p = 0
     \<and> ws_backoff_min_ms p = 0 \<and> ws_backoff_max_ms p = 0"

text \<open>
  A peer as the parser builds it: a WebSocket setting is flagged as such, a key or an interval that
  was not given has its default, a URL is one, and every allowed IP is a prefix of its family.
\<close>

definition parsed_peer :: "wgpeer \<Rightarrow> bool" where
  "parsed_peer p \<longleftrightarrow>
     (peer_has p WGPEER_HAS_WS_SETTINGS \<or> ws_defaults p)
     \<and> (peer_has p WGPEER_HAS_PUBLIC_KEY \<or> peer_public_key p = zero_key)
     \<and> (peer_has p WGPEER_HAS_PRESHARED_KEY \<or> preshared_key p = zero_key)
     \<and> (peer_has p WGPEER_HAS_PERSISTENT_KEEPALIVE_INTERVAL \<or> persistent_keepalive_interval p = 0)
     \<and> (\<forall>u. ws_url p = Some u \<longrightarrow> is_ws_url u)
     \<and> (\<forall>a \<in> set (allowedips p). valid_prefix a)"

definition peer_st_inv :: "sysenv \<Rightarrow> u32 set \<Rightarrow> peer_state \<Rightarrow> bool" where
  "peer_st_inv env must st \<longleftrightarrow>
     parsed_peer (fst st) \<and> cursor_ok (snd st) (allowedips (fst st)) \<and> (\<forall>b \<in> must. peer_has (fst st) b)
     \<and> (wf_env env \<longrightarrow> wf_peer (fst st))"

definition branch_keeps :: "('s \<Rightarrow> bool) \<Rightarrow> (string \<Rightarrow> 's \<Rightarrow> (cfg_error, 's) run) \<Rightarrow> bool" where
  "branch_keeps Q b \<longleftrightarrow> (\<forall>v s s'. Q s \<longrightarrow> b v s = Some (Inr s') \<longrightarrow> Q s')"

lemma branch_keepsI: "(\<And>v s s'. Q s \<Longrightarrow> b v s = Some (Inr s') \<Longrightarrow> Q s') \<Longrightarrow> branch_keeps Q b"
  by (simp add: branch_keeps_def)

lemma key_dispatch_keeps:
  assumes "list_all (\<lambda>e. branch_keeps Q (snd e)) table" and "Q s" and "key_dispatch table line s = Some (Inr s')"
  shows "Q s'"
  using assms
  by (induction table line s rule: key_dispatch.induct) (auto simp: branch_keeps_def split: option.splits)

lemma map_of_keeps:
  assumes "list_all (\<lambda>e. branch_keeps Q (snd e)) table" and "map_of table name = Some b"
  shows "branch_keeps Q b"
  using map_of_SomeD [OF assms(2)] assms(1) by (auto simp: list_all_iff)

text \<open>Flags: only \<open>parse_ip_prefix\<close> clears one.\<close>

lemma peer_or_simps [simp]:
  "peer_flags (peer_or b p) = peer_flags p OR b" "allowedips (peer_or b p) = allowedips p"
  "peer_public_key (peer_or b p) = peer_public_key p" "preshared_key (peer_or b p) = preshared_key p"
  "endpoint (peer_or b p) = endpoint p" "ws_url (peer_or b p) = ws_url p" "transport (peer_or b p) = transport p"
  "persistent_keepalive_interval (peer_or b p) = persistent_keepalive_interval p"
  "ws_defaults (peer_or b p) = ws_defaults p" "wf_peer (peer_or b p) = wf_peer p"
  by (simp_all add: peer_or_def ws_defaults_def wf_peer_def)

lemma ws_defaults_upd [simp]:
  "ws_defaults (p\<lparr>peer_flags := f\<rparr>) = ws_defaults p" "ws_defaults (p\<lparr>peer_public_key := k\<rparr>) = ws_defaults p"
  "ws_defaults (p\<lparr>preshared_key := k\<rparr>) = ws_defaults p" "ws_defaults (p\<lparr>endpoint := a\<rparr>) = ws_defaults p"
  "ws_defaults (p\<lparr>ws_url := u\<rparr>) = ws_defaults p" "ws_defaults (p\<lparr>transport := t\<rparr>) = ws_defaults p"
  "ws_defaults (p\<lparr>persistent_keepalive_interval := n\<rparr>) = ws_defaults p"
  "ws_defaults (p\<lparr>allowedips := as\<rparr>) = ws_defaults p"
  by (simp_all add: ws_defaults_def)

definition kept_flags :: "u32 set" where
  "kept_flags = {WGPEER_HAS_TRANSPORT, WGPEER_HAS_PUBLIC_KEY}"

lemma peer_st_inv_or: "peer_st_inv env must (p, l) \<Longrightarrow> peer_st_inv env must (peer_or b p, l)"
  by (auto simp: peer_st_inv_def parsed_peer_def flag_set_or)

lemma set_peer_keeps:
  assumes "\<And>x v p l. parse v = Inr x \<Longrightarrow> peer_st_inv env must (p, l) \<Longrightarrow> peer_st_inv env must (peer_or b (upd x p), l)"
  shows "branch_keeps (peer_st_inv env must) (set_peer parse upd b)"
proof (rule branch_keepsI)
  fix v s s'
  assume s: "peer_st_inv env must s" and r: "set_peer parse upd b v s = Some (Inr s')"
  from r obtain x where "parse v = Inr x" "s' = (peer_or b (upd x (fst s)), snd s)"
    by (cases "parse v") (auto simp: set_peer_def)
  with assms [of v x "fst s" "snd s"] s show "peer_st_inv env must s'" by simp
qed

lemma parse_key_wf: "parse_key v = Inr k \<Longrightarrow> wf_key k"
  by (simp add: parse_key_iff)

lemma parse_keyfile_wf: "parse_keyfile env v = Inr k \<Longrightarrow> wf_key k"
  by (auto simp: parse_keyfile_def Let_def parse_key_wf split: option.splits if_splits)

lemmas peer_inv_defs = peer_st_inv_def parsed_peer_def wf_peer_def flag_set_or

lemma set_key_keeps:
  assumes "\<And>v k. parse v = Inr k \<Longrightarrow> wf_key k"
  shows "branch_keeps (peer_st_inv env must) (set_peer parse (\<lambda>k. peer_public_key_update (\<lambda>_. k)) WGPEER_HAS_PUBLIC_KEY)"
    and "branch_keeps (peer_st_inv env must) (set_peer parse (\<lambda>k. preshared_key_update (\<lambda>_. k)) WGPEER_HAS_PRESHARED_KEY)"
  by (rule set_peer_keeps, drule assms, simp add: peer_inv_defs)+

lemma set_mode_keeps: "branch_keeps (peer_st_inv env must) (set_peer parse (\<lambda>t. transport_update (\<lambda>_. t)) b)"
  by (rule set_peer_keeps) (auto simp: peer_inv_defs)

lemma set_ws_setting_keeps:
  "branch_keeps (peer_st_inv env must) (set_peer ps (\<lambda>s. wstunnel_target_update (\<lambda>_. Some s)) WGPEER_HAS_WS_SETTINGS)"
  "branch_keeps (peer_st_inv env must) (set_peer ps (\<lambda>s. ws_bearer_update (\<lambda>_. Some s)) WGPEER_HAS_WS_SETTINGS)"
  "branch_keeps (peer_st_inv env must) (set_peer ps (\<lambda>s. ws_tls_ca_update (\<lambda>_. Some s)) WGPEER_HAS_WS_SETTINGS)"
  "branch_keeps (peer_st_inv env must) (set_peer ps (\<lambda>s. ws_tls_cert_update (\<lambda>_. Some s)) WGPEER_HAS_WS_SETTINGS)"
  "branch_keeps (peer_st_inv env must) (set_peer ps (\<lambda>s. ws_tls_key_update (\<lambda>_. Some s)) WGPEER_HAS_WS_SETTINGS)"
  "branch_keeps (peer_st_inv env must) (set_peer pb (\<lambda>b. ws_mask_update (\<lambda>_. b)) WGPEER_HAS_WS_SETTINGS)"
  "branch_keeps (peer_st_inv env must) (set_peer pb (\<lambda>b. ws_tls_insecure_update (\<lambda>_. b)) WGPEER_HAS_WS_SETTINGS)"
  "branch_keeps (peer_st_inv env must) (set_peer pn (\<lambda>n. ws_ping_interval_ms_update (\<lambda>_. n)) WGPEER_HAS_WS_SETTINGS)"
  "branch_keeps (peer_st_inv env must) (set_peer pn (\<lambda>n. ws_backoff_min_ms_update (\<lambda>_. n)) WGPEER_HAS_WS_SETTINGS)"
  "branch_keeps (peer_st_inv env must) (set_peer pn (\<lambda>n. ws_backoff_max_ms_update (\<lambda>_. n)) WGPEER_HAS_WS_SETTINGS)"
  by (rule set_peer_keeps; simp add: peer_st_inv_def parsed_peer_def wf_peer_def flag_set_or)+

lemma set_keepalive_keeps: "branch_keeps (peer_st_inv env must) set_keepalive"
proof (rule branch_keepsI)
  fix v s s'
  assume s: "peer_st_inv env must s" and r: "set_keepalive v s = Some (Inr s')"
  from r obtain w where "s' = ((fst s)\<lparr>persistent_keepalive_interval := w,
      peer_flags := peer_flags (fst s) OR WGPEER_HAS_PERSISTENT_KEEPALIVE_INTERVAL\<rparr>, snd s)"
    by (auto simp: set_keepalive_def parse_persistent_keepalive_iff map_sum_id_Inr)
  with s show "peer_st_inv env must s'" by (auto simp: peer_inv_defs)
qed

lemma parse_endpoint_Inr:
  assumes "parse_endpoint env v = Some (Inr a)"
  shows "\<exists>h p k r. getaddrinfo env (Some h) p k = Inr r \<and> split_endpoint v = Inr (h, p)
    \<and> a = ai_addr r \<and> (is_inet r \<or> is_inet6 r)"
proof -
  obtain retries h p r sl where s: "split_endpoint v = Inr (h, p)"
    and l: "resolve_loop env h p v retries 1000000 0 [] = Some (Inr r, sl)"
    and r: "is_inet r \<or> is_inet6 r" "a = ai_addr r"
    using assms by (auto simp: parse_endpoint_def split: sum.splits option.splits prod.splits if_splits)
  from resolve_loop_Some [OF l] obtain n where "Inr r = attempt_result env h p v n" by auto
  then have "getaddrinfo env (Some h) p n = Inr r" by (auto simp: attempt_result_def split: sum.splits)
  with s r show ?thesis by blast
qed

lemma parse_endpoint_wf: "wf_env env \<Longrightarrow> parse_endpoint env v = Some (Inr a) \<Longrightarrow> wf_sockaddr a \<and> a \<noteq> Sa_none"
proof -
  assume wf: "wf_env env" and "parse_endpoint env v = Some (Inr a)"
  then obtain h p k r where r: "getaddrinfo env (Some h) p k = Inr r" "a = ai_addr r" "is_inet r \<or> is_inet6 r"
    using parse_endpoint_Inr by blast
  then have "wf_sockaddr a" "sa_family a = ai_family r" using wf unfolding wf_env_def by blast+
  with r(3) show ?thesis by (auto simp: is_inet_def is_inet6_def sa_family_def af_defs)
qed

lemma parse_ws_endpoint_Inr:
  assumes "parse_ws_endpoint env p url = Some (Inr p')"
  shows "\<exists>hp a. parse_endpoint env hp = Some (Inr a) \<and> p' = p\<lparr>endpoint := a, ws_url := Some url\<rparr>"
  using assms by (fastforce simp: parse_ws_endpoint_def split: option.splits sum.splits)

lemma set_endpoint_keeps: "branch_keeps (peer_st_inv env must) (set_endpoint env)"
proof (rule branch_keepsI)
  fix v s s'
  assume s: "peer_st_inv env must s" and r: "set_endpoint env v s = Some (Inr s')"
  show "peer_st_inv env must s'"
  proof (cases "is_ws_url v")
    case True
    with r obtain p' where p': "parse_ws_endpoint env (fst s) v = Some (Inr p')" "s' = (p', snd s)"
      by (cases s) (auto simp: set_endpoint_def map_run_Some_Inr_iff)
    obtain hp a where a: "parse_endpoint env hp = Some (Inr a)" "p' = (fst s)\<lparr>endpoint := a, ws_url := Some v\<rparr>"
      using parse_ws_endpoint_Inr [OF p'(1)] by blast
    have "wf_env env \<longrightarrow> wf_sockaddr a" using parse_endpoint_wf [OF _ a(1)] by simp
    with s True show ?thesis by (simp add: peer_inv_defs p'(2) a(2))
  next
    case False
    with r obtain a where a: "parse_endpoint env v = Some (Inr a)" "s' = ((fst s)\<lparr>endpoint := a\<rparr>, snd s)"
      by (cases s) (auto simp: set_endpoint_def map_run_Some_Inr_iff)
    have "wf_env env \<longrightarrow> wf_sockaddr a" using parse_endpoint_wf [OF _ a(1)] by simp
    with s show ?thesis by (simp add: peer_inv_defs a(2))
  qed
qed

lemma set_allowedips_keeps:
  assumes "must \<subseteq> kept_flags"
  shows "branch_keeps (peer_st_inv env must) (\<lambda>v. set_allowedips env (f v))"
proof (rule branch_keepsI)
  fix v s s'
  assume s: "peer_st_inv env must s" and r: "set_allowedips env (f v) s = Some (Inr s')"
  have cur: "cursor_ok (snd s) (allowedips (fst s))" using s by (simp add: peer_st_inv_def)
  have r': "parse_allowedips env (fst s) (snd s) (f v) = Inr (fst s', snd s')" using r by (simp add: set_allowedips_def)
  obtain es as where as: "list_all2 (\<lambda>e a. aip_entry env e = Inr a) es as"
    "fst s' = (fst s)\<lparr>peer_flags := clear_replace (list_ex incremental es) (peer_flags (fst s) OR WGPEER_REPLACE_ALLOWEDIPS),
                allowedips := allowedips (fst s) @ as\<rparr>"
    "cursor_ok (snd s') (allowedips (fst s'))"
    by (rule parse_allowedips_Inr [OF r' cur])
  have "\<forall>a \<in> set as. valid_prefix a \<and> (wf_env env \<longrightarrow> wf_allowedip a)"
    using as(1) by (induction rule: list_all2_induct) (auto simp: aip_entry_valid)
  note new = this
  have flags: "flag_set (clear_replace i (g OR WGPEER_REPLACE_ALLOWEDIPS)) b \<longleftrightarrow> flag_set g b"
    if "b \<in> {WGPEER_HAS_PUBLIC_KEY, WGPEER_HAS_PRESHARED_KEY,
      WGPEER_HAS_PERSISTENT_KEEPALIVE_INTERVAL, WGPEER_HAS_TRANSPORT, WGPEER_HAS_WS_SETTINGS}" for i g b
    using that by (auto simp: clear_replace_def flag_set_or)
  have "\<forall>b \<in> must. flag_set (clear_replace i (g OR WGPEER_REPLACE_ALLOWEDIPS)) b \<longleftrightarrow> flag_set g b" for i g
    using assms flags by (auto simp: kept_flags_def)
  then have must: "(\<forall>b \<in> must. peer_has (fst s') b) \<longleftrightarrow> (\<forall>b \<in> must. peer_has (fst s) b)"
    unfolding as(2) by simp
  have "parsed_peer (fst s')"
    using s new unfolding as(2) peer_st_inv_def parsed_peer_def by (simp add: flags ball_Un)
  moreover have "wf_env env \<longrightarrow> wf_peer (fst s')"
    using s new unfolding as(2) peer_st_inv_def wf_peer_def by (auto simp: ball_Un)
  ultimately show "peer_st_inv env must s'"
    using s as(3) must unfolding peer_st_inv_def by simp
qed

section \<open>The device branches\<close>

definition parsed_device :: "wgdevice \<Rightarrow> bool" where
  "parsed_device d \<longleftrightarrow>
     (dev_has d WGDEVICE_HAS_PRIVATE_KEY \<or> private_key d = zero_key)
     \<and> (dev_has d WGDEVICE_HAS_FWMARK \<or> fwmark d = 0)
     \<and> (dev_has d WGDEVICE_HAS_LISTEN_PORT \<or> listen_port d = 0)
     \<and> (dev_has d WGDEVICE_HAS_WS_LISTEN \<or> ws_listen d = None)
     \<and> (dev_has d WGDEVICE_HAS_WS_SERVER_TLS_CERT \<or> ws_server_tls_cert d = None)
     \<and> (dev_has d WGDEVICE_HAS_WS_SERVER_TLS_KEY \<or> ws_server_tls_key d = None)
     \<and> (dev_has d WGDEVICE_HAS_WS_SERVER_BEARER \<or> ws_server_bearer d = None)
     \<and> (dev_has d WGDEVICE_HAS_WS_TRUSTED_PROXIES \<or> ws_trusted_proxies d = None)
     \<and> (\<forall>u. ws_listen d = Some u \<longrightarrow> is_ws_url u)
     \<and> wf_key (private_key d) \<and> wf_key (dev_public_key d)"

definition dev_inv :: "wgpeer list \<Rightarrow> wgdevice \<Rightarrow> bool" where
  "dev_inv ps d \<longleftrightarrow> parsed_device d \<and> peers d = ps"

lemmas dev_inv_defs = dev_inv_def parsed_device_def flag_set_or

lemma set_listen_port_keeps: "branch_keeps (dev_inv ps) (set_listen_port env)"
  by (rule branch_keepsI)
    (auto simp: set_listen_port_def map_sum_id_Inr parse_port_def dev_inv_defs split: if_splits sum.splits)

lemma set_fwmark_keeps: "branch_keeps (dev_inv ps) set_fwmark"
proof (rule branch_keepsI)
  fix v d d'
  assume d: "dev_inv ps d" and "set_fwmark v d = Some (Inr d')"
  then obtain w f where p: "parse_fwmark (dev_flags d) v = Inr (w, f)" and d': "d' = d\<lparr>fwmark := w, dev_flags := f\<rparr>"
    by (auto simp: set_fwmark_def map_sum_id_Inr)
  from p have "f = dev_flags d OR WGDEVICE_HAS_FWMARK" by (simp only: parse_fwmark_iff)
  with d d' show "dev_inv ps d'" by (simp add: dev_inv_defs)
qed

lemma set_ws_listen_keeps: "branch_keeps (dev_inv ps) set_ws_listen"
  by (rule branch_keepsI)
    (auto simp: set_ws_listen_def map_sum_id_Inr parse_ws_listen_def dev_inv_defs split: if_splits)

lemma set_private_key_keeps:
  assumes "\<And>v k. parse v = Inr k \<Longrightarrow> wf_key k"
  shows "branch_keeps (dev_inv ps) (\<lambda>v. set_private_key (parse v))"
proof (rule branch_keepsI)
  fix v d d'
  assume d: "dev_inv ps d" and "set_private_key (parse v) d = Some (Inr d')"
  then obtain k where k: "parse v = Inr k" "d' = dev_or WGDEVICE_HAS_PRIVATE_KEY (d\<lparr>private_key := k\<rparr>)"
    by (auto simp: set_private_key_def map_sum_id_Inr)
  with assms [OF k(1)] d show "dev_inv ps d'" by (simp add: dev_inv_defs dev_or_def)
qed

lemma set_ws_str_keeps:
  "branch_keeps (dev_inv ps) (set_ws_str (\<lambda>s. ws_server_tls_cert_update (\<lambda>_. s)) WGDEVICE_HAS_WS_SERVER_TLS_CERT)"
  "branch_keeps (dev_inv ps) (set_ws_str (\<lambda>s. ws_server_tls_key_update (\<lambda>_. s)) WGDEVICE_HAS_WS_SERVER_TLS_KEY)"
  "branch_keeps (dev_inv ps) (set_ws_str (\<lambda>s. ws_server_bearer_update (\<lambda>_. s)) WGDEVICE_HAS_WS_SERVER_BEARER)"
  "branch_keeps (dev_inv ps) (set_ws_str (\<lambda>s. ws_trusted_proxies_update (\<lambda>_. s)) WGDEVICE_HAS_WS_TRUSTED_PROXIES)"
  by (rule branch_keepsI; clarsimp simp: set_ws_str_def parse_ws_device_str_def dev_inv_defs)+

lemma device_keys_keep: "list_all (\<lambda>e. branch_keeps (dev_inv ps) (snd e)) (device_keys env)"
  by (simp add: device_keys_def set_listen_port_keeps set_fwmark_keeps set_ws_listen_keeps set_ws_str_keeps
      set_private_key_keeps parse_key_wf)

lemma device_args_keep: "list_all (\<lambda>e. branch_keeps (dev_inv ps) (snd e)) (device_args env)"
proof -
  have "branch_keeps (dev_inv ps) (\<lambda>v dev. Some (map_sum id
      (\<lambda>s. dev_or WGDEVICE_HAS_WS_SERVER_BEARER (dev\<lparr>ws_server_bearer := Some s\<rparr>)) (parse_ws_secret_file env v)))"
    by (rule branch_keepsI) (clarsimp simp: map_sum_id_Inr dev_inv_defs dev_or_def)
  then show ?thesis
    by (simp add: device_args_def device_ws_args_def set_listen_port_keeps set_fwmark_keeps set_ws_listen_keeps set_ws_str_keeps
        set_private_key_keeps parse_keyfile_wf)
qed

section \<open>The peer branches\<close>

lemma peer_keys_keep: "must \<subseteq> kept_flags \<Longrightarrow> list_all (\<lambda>e. branch_keeps (peer_st_inv env must) (snd e)) (peer_keys env)"
  using set_allowedips_keeps [of must env "\<lambda>v. v"]
  by (simp add: peer_keys_def set_endpoint_keeps set_key_keeps parse_key_wf set_keepalive_keeps set_mode_keeps
      set_ws_setting_keeps)

lemma keeps_after_or:
  assumes "branch_keeps (peer_st_inv env must) b"
  shows "branch_keeps (peer_st_inv env must) (\<lambda>v st. b v (peer_or f (fst st), snd st))"
  using assms peer_st_inv_or unfolding branch_keeps_def by (metis prod.collapse)

lemma peer_args_keep: "must \<subseteq> kept_flags \<Longrightarrow> list_all (\<lambda>e. branch_keeps (peer_st_inv env must) (snd e)) (peer_args env)"
  using set_allowedips_keeps [of must env strip_spaces]
  by (simp add: peer_args_def peer_ws_args_def keeps_after_or set_endpoint_keeps set_key_keeps parse_keyfile_wf set_keepalive_keeps
      set_mode_keeps set_ws_setting_keeps)

section \<open>The context\<close>

definition ctx_inv :: "sysenv \<Rightarrow> u32 set \<Rightarrow> config_ctx \<Rightarrow> bool" where
  "ctx_inv env must ctx \<longleftrightarrow>
     cursor_ok (last_peer ctx) (peers (device ctx))
     \<and> (last_peer ctx = None \<longrightarrow> last_allowedip ctx = None)
     \<and> (\<forall>i. last_peer ctx = Some i \<longrightarrow> cursor_ok (last_allowedip ctx) (allowedips (peers (device ctx) ! i)))
     \<and> (is_peer_section ctx \<longrightarrow> last_peer ctx \<noteq> None)
     \<and> parsed_device (device ctx)
     \<and> (\<forall>p \<in> set (peers (device ctx)). parsed_peer p \<and> (\<forall>b \<in> must. peer_has p b) \<and> (wf_env env \<longrightarrow> wf_peer p))"

lemma ctx_inv_init: "ctx_inv env must (config_read_init a)"
  by (simp add: ctx_inv_def config_read_init_def zero_device_def dev_or_def parsed_device_def flag_set_or)

lemma parsed_device_peers [simp]: "parsed_device (d\<lparr>peers := ps\<rparr>) = parsed_device d"
  by (simp add: parsed_device_def)

lemma ctx_inv_sections:
  assumes "ctx_inv env must ctx" and "p \<longrightarrow> last_peer ctx \<noteq> None"
  shows "ctx_inv env must (ctx\<lparr>is_peer_section := p, is_device_section := d\<rparr>)"
  using assms by (simp add: ctx_inv_def)

lemma ctx_inv_device:
  assumes "ctx_inv env must ctx" and "dev_inv (peers (device ctx)) d"
  shows "ctx_inv env must (ctx\<lparr>device := d\<rparr>)"
  using assms by (simp add: ctx_inv_def dev_inv_def)

lemma ctx_inv_add_peer:
  assumes "ctx_inv env must ctx" and "peer_st_inv env must (p, l)"
  shows "ctx_inv env must ((add_peer p ctx)\<lparr>last_allowedip := l\<rparr>)"
proof -
  have c: "cursor_ok (last_peer ctx) (peers (device ctx))" using assms(1) by (simp add: ctx_inv_def)
  then have n: "cursor_next (last_peer ctx) = Some (length (peers (device ctx)))"
    by (auto simp: cursor_next_def cursor_ok_def split: option.splits)
  have c': "cursor_ok (Some (length (peers (device ctx)))) (peers (device ctx) @ [p])" by (simp add: cursor_ok_def)
  have "parsed_peer p" "cursor_ok l (allowedips p)" "\<forall>b \<in> must. peer_has p b" "wf_env env \<longrightarrow> wf_peer p"
    using assms(2) by (simp_all add: peer_st_inv_def)
  with assms(1) c c' show ?thesis
    unfolding ctx_inv_def add_peer_def by (simp add: link_after_append n)
qed

lemma add_peer_last_allowedip: "add_peer p ctx = (add_peer p ctx)\<lparr>last_allowedip := None\<rparr>"
  by (simp add: add_peer_def)

lemma ctx_inv_on_last_peer:
  assumes "ctx_inv env must ctx" and "\<And>st st'. peer_st_inv env must st \<Longrightarrow> f st = Some (Inr st') \<Longrightarrow> peer_st_inv env must st'"
    and "on_last_peer f ctx = Some (Inr ctx')"
  shows "ctx_inv env must ctx'"
proof -
  obtain i where i: "last_peer ctx = Some i" using assms(3) by (cases "last_peer ctx") (auto simp: on_last_peer_def)
  then have len: "i < length (peers (device ctx))" using assms(1) by (simp add: ctx_inv_def cursor_ok_def)
  obtain p l where f: "f (peers (device ctx) ! i, last_allowedip ctx) = Some (Inr (p, l))"
    and ctx': "ctx' = ctx\<lparr>device := (device ctx)\<lparr>peers := (peers (device ctx))[i := p]\<rparr>, last_allowedip := l\<rparr>"
    using assms(3) i by (auto simp: on_last_peer_def map_run_Some_Inr_iff)
  have "peer_st_inv env must (peers (device ctx) ! i, last_allowedip ctx)"
    using assms(1) i len by (auto simp: ctx_inv_def peer_st_inv_def)
  from assms(2) [OF this f] have new: "peer_st_inv env must (p, l)" .
  have "q \<in> set ((peers (device ctx))[i := p]) \<Longrightarrow> q = p \<or> q \<in> set (peers (device ctx))" for q
    using set_update_subset_insert [of "peers (device ctx)" i p] by auto
  then show ?thesis
    using assms(1) new i len by (auto simp: ctx_inv_def ctx' peer_st_inv_def cursor_ok_def)
qed

lemma zero_peer_inv: "peer_st_inv env {} (zero_peer, None)"
  by (simp add: peer_st_inv_def parsed_peer_def ws_defaults_def zero_peer_def wf_peer_def wf_sockaddr_def)

lemma file_peer_inv:
  "peer_st_inv env {WGPEER_HAS_TRANSPORT} (peer_or (WGPEER_REPLACE_ALLOWEDIPS OR WGPEER_HAS_TRANSPORT) zero_peer, None)"
  using zero_peer_inv [of env] by (simp add: peer_st_inv_def parsed_peer_def flag_set_or)

lemma process_line_cases:
  assumes "process_line env line ctx = Some (Inr ctx')"
  obtains (interface) "strcaseeq line ''[Interface]''" "ctx' = ctx\<lparr>is_peer_section := False, is_device_section := True\<rparr>"
    | (peer) "strcaseeq line ''[Peer]''"
      "ctx' = (add_peer (peer_or (WGPEER_REPLACE_ALLOWEDIPS OR WGPEER_HAS_TRANSPORT) zero_peer) ctx)
                   \<lparr>is_peer_section := True, is_device_section := False\<rparr>"
    | (device_key) dev where "\<not> strcaseeq line ''[Peer]''" "is_device_section ctx" "ctx' = ctx\<lparr>device := dev\<rparr>"
      "key_dispatch (device_keys env) line (device ctx) = Some (Inr dev)"
    | (peer_key) "\<not> strcaseeq line ''[Peer]''" "\<not> is_device_section ctx" "is_peer_section ctx"
      "on_last_peer (key_dispatch (peer_keys env) line) ctx = Some (Inr ctx')"
proof (cases "strcaseeq line ''[Interface]''")
  case True
  then show ?thesis using assms by (intro interface) (simp_all add: process_line_def)
next
  case i: False
  show ?thesis
  proof (cases "strcaseeq line ''[Peer]''")
    case True
    then show ?thesis using assms i by (intro peer) (simp_all add: process_line_def)
  next
    case p: False
    show ?thesis
    proof (cases "is_device_section ctx")
      case True
      then have "map_run (\<lambda>dev. ctx\<lparr>device := dev\<rparr>) (key_dispatch (device_keys env) line (device ctx)) = Some (Inr ctx')"
        using assms i p by (simp add: process_line_def)
      then obtain dev where "key_dispatch (device_keys env) line (device ctx) = Some (Inr dev)" "ctx' = ctx\<lparr>device := dev\<rparr>"
        unfolding map_run_Some_Inr_iff by blast
      with True p show ?thesis by (intro device_key)
    next
      case d: False
      show ?thesis
      proof (cases "is_peer_section ctx")
        case True
        then show ?thesis using assms i p d by (intro peer_key) (simp_all add: process_line_def)
      next
        case False
        then show ?thesis using assms i p d by (simp add: process_line_def)
      qed
    qed
  qed
qed

lemma process_line_inv:
  assumes "ctx_inv env {WGPEER_HAS_TRANSPORT} ctx" and "process_line env line ctx = Some (Inr ctx')"
  shows "ctx_inv env {WGPEER_HAS_TRANSPORT} ctx'"
  using assms(2)
proof (cases rule: process_line_cases)
  case interface
  then show ?thesis using assms(1) by (simp add: ctx_inv_sections)
next
  case peer
  have "ctx_inv env {WGPEER_HAS_TRANSPORT} (add_peer (peer_or (WGPEER_REPLACE_ALLOWEDIPS OR WGPEER_HAS_TRANSPORT) zero_peer) ctx)"
    using ctx_inv_add_peer [OF assms(1) file_peer_inv] by (simp add: add_peer_last_allowedip [symmetric])
  then show ?thesis unfolding peer
    by (rule ctx_inv_sections) (simp add: add_peer_def cursor_next_def split: option.splits)
next
  case (device_key dev)
  have "dev_inv (peers (device ctx)) (device ctx)" using assms(1) by (simp add: ctx_inv_def dev_inv_def)
  then show ?thesis
    unfolding device_key(3) using assms(1) key_dispatch_keeps [OF device_keys_keep _ device_key(4)]
    by (blast intro: ctx_inv_device)
next
  case peer_key
  have "list_all (\<lambda>e. branch_keeps (peer_st_inv env {WGPEER_HAS_TRANSPORT}) (snd e)) (peer_keys env)"
    by (rule peer_keys_keep) (simp add: kept_flags_def)
  then show ?thesis
    using key_dispatch_keeps [of "peer_st_inv env {WGPEER_HAS_TRANSPORT}" "peer_keys env"]
    by (intro ctx_inv_on_last_peer [OF assms(1) _ peer_key(4)]) blast
qed

lemma config_read_line_inv:
  assumes "ctx_inv env {WGPEER_HAS_TRANSPORT} ctx" and "config_read_line env input ctx = Some (Inr ctx')"
  shows "ctx_inv env {WGPEER_HAS_TRANSPORT} ctx'"
  using assms process_line_inv [OF assms(1), of "clean_line input" ctx']
  by (cases "clean_line input = []") (simp_all add: config_read_line_def Let_def)

interpretation cfg: guarded_step "config_read_line env" "ctx_inv env {WGPEER_HAS_TRANSPORT}" for env
  by unfold_locales (rule config_read_line_inv)

section \<open>No read through NULL, and termination\<close>

definition finite_retries :: "sysenv \<Rightarrow> bool" where
  "finite_retries env \<longleftrightarrow> getenv env ''WG_ENDPOINT_RESOLUTION_RETRIES'' \<noteq> Some ''infinity''"

definition run_safe :: "sysenv \<Rightarrow> (cfg_error, 'a) run \<Rightarrow> bool" where
  "run_safe env r \<longleftrightarrow> r \<noteq> Some (Inl E_null_deref) \<and> (finite_retries env \<longrightarrow> r \<noteq> None)"

lemma run_safe_map [simp]: "run_safe env (map_run f r) = run_safe env r"
  by (simp add: run_safe_def map_run_Some_Inl_iff)

lemma run_safe_sum [simp]: "run_safe env (Some (map_sum id f r)) \<longleftrightarrow> r \<noteq> Inl E_null_deref"
  by (cases r) (auto simp: run_safe_def)

lemma run_safe_Inr [simp]: "run_safe env (Some (Inr x))"
  by (simp add: run_safe_def)

lemma parsers_no_null [simp]:
  "parse_port env f v \<noteq> Inl E_null_deref" "parse_fwmark f v \<noteq> Inl E_null_deref" "parse_key v \<noteq> Inl E_null_deref"
  "parse_persistent_keepalive f v \<noteq> Inl E_null_deref" "parse_ws_mode v \<noteq> Inl E_null_deref"
  "parse_ws_target v \<noteq> Inl E_null_deref" "parse_ws_bool v \<noteq> Inl E_null_deref" "parse_ws_millis v \<noteq> Inl E_null_deref"
  "parse_ws_str v \<noteq> Inl E_null_deref" "parse_ws_listen f v \<noteq> Inl E_null_deref" "parse_ws_secret v \<noteq> Inl E_null_deref"
  by (auto simp: parse_port_def parse_fwmark_def parse_key_def parse_persistent_keepalive_def parse_ws_mode_def
      parse_ws_target_def parse_ws_bool_def parse_ws_millis_def parse_ws_str_def parse_ws_listen_def parse_ws_secret_def Let_def
      split: option.splits sum.splits prod.splits)

lemma parse_keyfile_no_null [simp]: "parse_keyfile env v \<noteq> Inl E_null_deref"
  by (auto simp: parse_keyfile_def Let_def split: option.splits)

lemma parse_ws_secret_file_no_null [simp]: "parse_ws_secret_file env v \<noteq> Inl E_null_deref"
  by (auto simp: parse_ws_secret_file_def Let_def split: option.splits)

lemma parse_dns_retries_cases:
  "finite_retries env \<Longrightarrow> parse_dns_retries env = Inr r \<Longrightarrow> 0 \<le> r"
  by (auto simp: parse_dns_retries_def finite_retries_def split: option.splits if_splits prod.splits)

lemma split_endpoint_no_null [simp]: "split_endpoint v \<noteq> Inl E_null_deref"
  by (auto simp: split_endpoint_def Let_def split: option.splits prod.splits)

lemma parse_dns_retries_no_null [simp]: "parse_dns_retries env \<noteq> Inl E_null_deref"
  by (auto simp: parse_dns_retries_def split: option.splits prod.splits)

lemma attempt_result_no_null [simp]: "attempt_result env h p v k \<noteq> Inl E_null_deref"
  by (cases "getaddrinfo env (Some h) p k") (simp_all add: attempt_result_def)

lemma parse_endpoint_safe: "run_safe env (parse_endpoint env v)"
proof (cases "parse_dns_retries env")
  case (Inl e)
  then show ?thesis using parse_dns_retries_no_null [of env] by (auto simp: parse_endpoint_def run_safe_def)
next
  case (Inr retries)
  show ?thesis
  proof (cases "split_endpoint v")
    case (Inl e)
    then show ?thesis
      using \<open>parse_dns_retries env = Inr retries\<close> split_endpoint_no_null [of v] by (auto simp: parse_endpoint_def run_safe_def)
  next
    case hp: (Inr hp)
    obtain h p where hp': "hp = (h, p)" by (cases hp)
    let ?r = "resolve_loop env h p v retries 1000000 0 []"
    have "?r \<noteq> Some (Inl E_null_deref, sl)" for sl
      using resolve_loop_Some [of env h p v retries 1000000 0 "[]" "Inl E_null_deref" sl]
        attempt_result_no_null by metis
    moreover have "finite_retries env \<longrightarrow> ?r \<noteq> None"
      using resolve_loop_returns_iff [of env h p v retries 1000000 0 "[]"] parse_dns_retries_cases [OF _ Inr] by auto
    ultimately show ?thesis
      using Inr hp hp' by (auto simp: parse_endpoint_def run_safe_def split: option.splits sum.splits)
  qed
qed

lemma parse_ws_endpoint_safe: "run_safe env (parse_ws_endpoint env p v)"
proof (cases "ws_url_split v 256 16")
  case None
  then show ?thesis by (simp add: parse_ws_endpoint_def run_safe_def)
next
  case (Some hp)
  then show ?thesis
    using parse_endpoint_safe [of env "ws_hostport (fst hp) (snd hp)"]
    by (auto simp: parse_ws_endpoint_def run_safe_def split: option.splits sum.splits prod.splits)
qed

lemma parse_ip_no_null [simp]: "parse_ip env a s \<noteq> Inl E_null_deref"
  by (auto simp: parse_ip_def Let_def)

lemma aip_entry_no_null [simp]: "aip_entry env e \<noteq> Inl E_null_deref"
proof -
  have "parse_allowedip env fl s \<noteq> Inl E_null_deref" for fl s
    using parse_ip_no_null by (auto simp: parse_allowedip_def Let_def split: prod.splits sum.splits option.splits)
  moreover have "map_sum id f r = Inl x \<longleftrightarrow> r = Inl x" for f :: "wgallowedip \<times> (string \<times> string option) option \<Rightarrow> wgallowedip" and r and x :: cfg_error
    by (cases r) auto
  ultimately show ?thesis unfolding aip_entry_def by blast
qed

lemma parse_allowedips_no_null:
  assumes "cursor_ok cur (allowedips p)"
  shows "parse_allowedips env p cur v \<noteq> Inl E_null_deref"
proof (cases "v = []")
  case True
  then show ?thesis by (simp add: parse_allowedips_def Let_def)
next
  case False
  obtain es where es: "v = comma_join es" "es \<noteq> []" "\<forall>e \<in> set es. CHR '','' \<notin> set e"
    using comma_join_exists by blast
  let ?p = "peer_or WGPEER_REPLACE_ALLOWEDIPS p"
  have c: "cursor_ok cur (allowedips ?p)" using assms by simp
  have "allowedips_loop env ?p cur (Some (comma_join es)) \<noteq> Inl E_null_deref"
  proof (rule disjE [OF entries_ok_or_first_error [of env es]])
    assume "\<exists>as. list_all2 (\<lambda>e a. aip_entry env e = Inr a) es as"
    then obtain as where as: "list_all2 (\<lambda>e a. aip_entry env e = Inr a) es as" ..
    show ?thesis using allowedips_loop_join [OF c es(2,3) as] by (elim exE conjE) simp
  next
    assume "\<exists>pre e post as err. es = pre @ e # post \<and> list_all2 (\<lambda>e a. aip_entry env e = Inr a) pre as \<and> aip_entry env e = Inl err"
    then obtain pre e post bs err where bad: "es = pre @ e # post" "list_all2 (\<lambda>e a. aip_entry env e = Inr a) pre bs"
      "aip_entry env e = Inl err" by blast
    have "allowedips_loop env ?p cur (Some (comma_join es)) = Inl err"
      unfolding bad(1) using c es(3) bad(2,3) unfolding bad(1) by (rule allowedips_loop_first_error)
    moreover have "err \<noteq> E_null_deref" using bad(3) aip_entry_no_null by metis
    ultimately show ?thesis by simp
  qed
  with es(1) False show ?thesis by (simp add: parse_allowedips_def Let_def)
qed

text \<open>Every branch of the dispatch is safe on a state that satisfies the invariant.\<close>

definition branch_safe_on :: "sysenv \<Rightarrow> ('s \<Rightarrow> bool) \<Rightarrow> (string \<Rightarrow> 's \<Rightarrow> (cfg_error, 's) run) \<Rightarrow> bool" where
  "branch_safe_on env Q b \<longleftrightarrow> (\<forall>v s. Q s \<longrightarrow> run_safe env (b v s))"

lemma key_dispatch_safe:
  assumes "list_all (\<lambda>e. branch_safe_on env Q (snd e)) table" and "Q s"
  shows "run_safe env (key_dispatch table line s)"
  using assms
  by (induction table line s rule: key_dispatch.induct) (auto simp: branch_safe_on_def run_safe_def split: option.splits)

lemma map_of_safe:
  assumes "list_all (\<lambda>e. branch_safe_on env Q (snd e)) table" and "map_of table name = Some b" and "Q s"
  shows "run_safe env (b v s)"
  using map_of_SomeD [OF assms(2)] assms(1,3) by (auto simp: list_all_iff branch_safe_on_def)

lemma set_ws_str_safe [simp]: "run_safe env (set_ws_str upd b v d)"
  by (simp add: set_ws_str_def parse_ws_device_str_def)

lemmas device_branch_defs = set_listen_port_def set_fwmark_def set_ws_listen_def set_private_key_def

lemma device_keys_safe: "list_all (\<lambda>e. branch_safe_on env Q (snd e)) (device_keys env)"
  by (simp add: device_keys_def branch_safe_on_def device_branch_defs)

lemma device_args_safe: "list_all (\<lambda>e. branch_safe_on env Q (snd e)) (device_args env)"
  by (simp add: device_args_def device_ws_args_def branch_safe_on_def device_branch_defs)

lemma set_peer_safe [simp]: "parse v \<noteq> Inl E_null_deref \<Longrightarrow> run_safe env (set_peer parse upd b v st)"
  by (simp add: set_peer_def)

lemma set_keepalive_safe [simp]: "run_safe env (set_keepalive v st)"
  by (simp add: set_keepalive_def)

lemma set_endpoint_safe [simp]: "run_safe env (set_endpoint env v st)"
  by (cases st) (simp add: set_endpoint_def parse_endpoint_safe parse_ws_endpoint_safe)

lemma set_allowedips_safe [simp]: "peer_st_inv env must st \<Longrightarrow> run_safe env (set_allowedips env v st)"
  using parse_allowedips_no_null by (simp add: set_allowedips_def peer_st_inv_def run_safe_def)

lemma peer_keys_safe: "list_all (\<lambda>e. branch_safe_on env (peer_st_inv env must) (snd e)) (peer_keys env)"
  by (simp add: peer_keys_def branch_safe_on_def)

lemma peer_args_safe: "list_all (\<lambda>e. branch_safe_on env (peer_st_inv env must) (snd e)) (peer_args env)"
  by (simp add: peer_args_def peer_ws_args_def branch_safe_on_def)

lemma ctx_inv_last_peer:
  assumes "ctx_inv env must ctx" and "last_peer ctx = Some i"
  shows "peer_st_inv env must (peers (device ctx) ! i, last_allowedip ctx)"
proof -
  have "i < length (peers (device ctx))" using assms by (simp add: ctx_inv_def cursor_ok_def)
  with assms show ?thesis by (simp add: ctx_inv_def peer_st_inv_def)
qed

lemma on_last_peer_safe:
  assumes "ctx_inv env must ctx" and "last_peer ctx \<noteq> None" and "\<And>st. peer_st_inv env must st \<Longrightarrow> run_safe env (f st)"
  shows "run_safe env (on_last_peer f ctx)"
proof -
  obtain i where i: "last_peer ctx = Some i" using assms(2) by blast
  from assms(3) [OF ctx_inv_last_peer [OF assms(1) i]] show ?thesis by (simp add: on_last_peer_def i)
qed

lemma process_line_safe:
  assumes "ctx_inv env must ctx"
  shows "run_safe env (process_line env line ctx)"
proof -
  have d: "run_safe env (key_dispatch (device_keys env) line (device ctx))"
    using key_dispatch_safe [OF device_keys_safe [of env "\<lambda>_. True"]] by simp
  have p: "run_safe env (on_last_peer (key_dispatch (peer_keys env) line) ctx)" if "is_peer_section ctx"
  proof (rule on_last_peer_safe [OF assms])
    show "last_peer ctx \<noteq> None" using assms that by (simp add: ctx_inv_def)
    show "run_safe env (key_dispatch (peer_keys env) line st)" if "peer_st_inv env must st" for st
      using peer_keys_safe that by (rule key_dispatch_safe)
  qed
  show ?thesis using d p by (simp add: process_line_def) (simp add: run_safe_def)
qed

lemma config_read_line_safe: "ctx_inv env must ctx \<Longrightarrow> run_safe env (config_read_line env input ctx)"
  by (simp add: config_read_line_def Let_def process_line_safe)

lemma run_steps_safe:
  assumes "ctx_inv env {WGPEER_HAS_TRANSPORT} ctx"
  shows "run_safe env (run_steps (config_read_line env) lines ctx)"
  using assms
proof (induction lines arbitrary: ctx)
  case Nil
  then show ?case by simp
next
  case (Cons l ls)
  note safe = config_read_line_safe [OF Cons.prems, of l]
  show ?case
  proof (cases "config_read_line env l ctx")
    case None
    then show ?thesis using safe by (simp add: run_safe_def)
  next
    case (Some r)
    then show ?thesis
      using safe Cons.IH config_read_line_inv [OF Cons.prems] by (cases r) (auto simp: run_safe_def)
  qed
qed

section \<open>What is accepted\<close>

lemma finish_peers_None:
  "finish_peers ps = None \<longleftrightarrow> (\<forall>p \<in> set ps. peer_has p WGPEER_HAS_PUBLIC_KEY \<and> validate_ws_peer p = None)"
  by (induction ps) (auto split: option.splits)

lemma first_ws_problem_None: "first_ws_problem ps = None \<longleftrightarrow> (\<forall>p \<in> set ps. validate_ws_peer p = None)"
  by (induction ps) (auto split: option.splits)

lemma finish_peers_no_null: "finish_peers ps \<noteq> Some E_null_deref"
  by (induction ps) (auto split: option.splits)

lemma config_read_Inr:
  assumes "config_read env a lines = Some (Inr d)"
  obtains ctx where "run_steps (config_read_line env) lines (config_read_init a) = Some (Inr ctx)" and "d = device ctx"
    and "ctx_inv env {WGPEER_HAS_TRANSPORT} ctx"
    and "\<forall>p \<in> set (peers d). peer_has p WGPEER_HAS_PUBLIC_KEY \<and> validate_ws_peer p = None"
proof -
  from assms obtain ctx where ctx: "run_steps (config_read_line env) lines (config_read_init a) = Some (Inr ctx)"
    and fin: "config_read_finish ctx = Inr d"
    by (auto simp: config_read_def split: option.splits sum.splits)
  from fin have d: "finish_peers (peers (device ctx)) = None" "d = device ctx"
    by (auto simp: config_read_finish_def split: option.splits)
  show ?thesis
    using that [OF ctx d(2) cfg.run_inv [OF ctx_inv_init ctx]] d(1) unfolding finish_peers_None d(2) by blast
qed

lemma accepted_peer:
  assumes "parsed_peer p" and "peer_has p WGPEER_HAS_TRANSPORT" and "validate_ws_peer p = None"
  shows "transport p = WGPEER_TRANSPORT_UDP \<Longrightarrow> ws_url p = None \<and> ws_defaults p"
    and "transport p = WGPEER_TRANSPORT_WSTUNNEL \<Longrightarrow> ws_url p \<noteq> None \<and> wstunnel_target p \<noteq> None \<and> endpoint p \<noteq> Sa_none"
    and "transport p = WGPEER_TRANSPORT_WEBSOCKET \<Longrightarrow> wstunnel_target p = None \<and> (ws_url p = None \<longleftrightarrow> endpoint p = Sa_none)"
  using assms by (auto simp: validate_ws_peer_ok_iff parsed_peer_def)

lemma config_read_safe: "run_safe env (config_read env a lines)"
  using run_steps_safe [OF ctx_inv_init, of env lines a] finish_peers_no_null
  by (auto simp: run_safe_def config_read_def config_read_finish_def split: option.splits sum.splits)

subsection \<open>The argument loop\<close>

lemma on_last_peer_add_peer:
  assumes "cursor_ok (last_peer ctx) (peers (device ctx))"
  shows "on_last_peer f (add_peer p ctx) = map_run (\<lambda>(q, l). (add_peer q ctx)\<lparr>last_allowedip := l\<rparr>) (f (p, None))"
proof -
  have n: "cursor_next (last_peer ctx) = Some (length (peers (device ctx)))"
    using assms by (auto simp: cursor_next_def cursor_ok_def split: option.splits)
  have "(\<lambda>(q, l). (add_peer p ctx)\<lparr>device := (device (add_peer p ctx))\<lparr>peers := (peers (device (add_peer p ctx)))[length (peers (device ctx)) := q]\<rparr>, last_allowedip := l\<rparr>)
      = (\<lambda>(q, l). (add_peer q ctx)\<lparr>last_allowedip := l\<rparr>)"
    unfolding add_peer_def link_after_append [OF assms] by (rule ext) (cases ctx, auto)
  then show ?thesis
    by (simp add: on_last_peer_def add_peer_def n link_after_append [OF assms])
qed

lemma branch_keepsD: "branch_keeps Q b \<Longrightarrow> Q s \<Longrightarrow> b v s = Some (Inr s') \<Longrightarrow> Q s'"
  unfolding branch_keeps_def by blast

lemma cmd_peer_inv:
  assumes "set_peer parse_key (\<lambda>k. peer_public_key_update (\<lambda>_. k)) WGPEER_HAS_PUBLIC_KEY arg (zero_peer, None) = Some (Inr (q, l))"
  shows "peer_st_inv env {WGPEER_HAS_PUBLIC_KEY} (q, l)"
proof -
  have "peer_st_inv env {} (q, l)"
    using set_key_keeps(1) [OF parse_key_wf] zero_peer_inv assms by (rule branch_keepsD)
  moreover have "peer_has q WGPEER_HAS_PUBLIC_KEY"
    using assms by (auto simp: set_peer_def map_sum_id_Inr flag_set_or)
  ultimately show ?thesis by (simp add: peer_st_inv_def)
qed

lemma cmd_step_inv:
  assumes "ctx_inv env {WGPEER_HAS_PUBLIC_KEY} ctx" and "cmd_step env name arg ctx = Some (Inr ctx')"
  shows "ctx_inv env {WGPEER_HAS_PUBLIC_KEY} ctx'"
proof (cases "name = ''peer''")
  case True
  have c: "cursor_ok (last_peer ctx) (peers (device ctx))" using assms(1) by (simp add: ctx_inv_def)
  from assms(2) True obtain q l where
    q: "set_peer parse_key (\<lambda>k. peer_public_key_update (\<lambda>_. k)) WGPEER_HAS_PUBLIC_KEY arg (zero_peer, None) = Some (Inr (q, l))"
    and ctx': "ctx' = (add_peer q ctx)\<lparr>last_allowedip := l\<rparr>"
    by (auto simp: cmd_step_def on_last_peer_add_peer [OF c] map_run_Some_Inr_iff)
  show ?thesis unfolding ctx' using assms(1) cmd_peer_inv [OF q] by (rule ctx_inv_add_peer)
next
  case np: False
  show ?thesis
  proof (cases "last_peer ctx")
    case None
    with np assms(2) obtain b dev where b: "map_of (device_args env) name = Some b" "b arg (device ctx) = Some (Inr dev)"
      "ctx' = ctx\<lparr>device := dev\<rparr>"
      by (auto simp: cmd_step_def map_run_Some_Inr_iff split: option.splits)
    have "dev_inv (peers (device ctx)) (device ctx)" using assms(1) by (simp add: ctx_inv_def dev_inv_def)
    then have "dev_inv (peers (device ctx)) dev"
      using map_of_keeps [OF device_args_keep b(1)] b(2) unfolding branch_keeps_def by blast
    with assms(1) show ?thesis unfolding b(3) by (rule ctx_inv_device)
  next
    case (Some i)
    with np assms(2) obtain b where b: "map_of (peer_args env) name = Some b" "on_last_peer (b arg) ctx = Some (Inr ctx')"
      by (auto simp: cmd_step_def split: option.splits)
    have "branch_keeps (peer_st_inv env {WGPEER_HAS_PUBLIC_KEY}) b"
      using map_of_keeps [OF peer_args_keep b(1)] by (simp add: kept_flags_def)
    then show ?thesis
      unfolding branch_keeps_def by (intro ctx_inv_on_last_peer [OF assms(1) _ b(2)]) blast
  qed
qed

lemma cmd_remove_inv:
  assumes "ctx_inv env must ctx" and "cmd_remove ctx = Some (Inr ctx')"
  shows "ctx_inv env must ctx'"
  using assms(2) unfolding cmd_remove_def
  by (rule ctx_inv_on_last_peer [OF assms(1), rotated]) (auto intro: peer_st_inv_or)

lemma cmd_loop_inv:
  assumes "ctx_inv env {WGPEER_HAS_PUBLIC_KEY} ctx" and "cmd_loop env argv ctx = Some (Inr ctx')"
  shows "ctx_inv env {WGPEER_HAS_PUBLIC_KEY} ctx'"
  using assms
proof (induction env argv ctx rule: cmd_loop.induct)
  case (1 env ctx)
  then show ?case by simp
next
  case (2 env name ctx)
  then show ?case using cmd_remove_inv by (auto split: if_splits)
next
  case (3 env name arg argv ctx)
  show ?case
  proof (cases "name = ''remove'' \<and> last_peer ctx \<noteq> None")
    case True
    with "3.prems"(2) obtain c where c: "cmd_remove ctx = Some (Inr c)" "cmd_loop env (arg # argv) c = Some (Inr ctx')"
      by (auto split: option.splits sum.splits)
    show ?thesis by (rule "3.IH"(1) [OF True c(1) refl cmd_remove_inv [OF "3.prems"(1) c(1)] c(2)])
  next
    case False
    with "3.prems"(2) obtain c where c: "cmd_step env name arg ctx = Some (Inr c)" "cmd_loop env argv c = Some (Inr ctx')"
      by (auto split: option.splits sum.splits)
    show ?thesis by (rule "3.IH"(2) [OF False c(1) refl cmd_step_inv [OF "3.prems"(1) c(1)] c(2)])
  qed
qed

lemma cmd_step_safe:
  assumes "ctx_inv env {WGPEER_HAS_PUBLIC_KEY} ctx"
  shows "run_safe env (cmd_step env name arg ctx)"
proof -
  have c: "cursor_ok (last_peer ctx) (peers (device ctx))" using assms by (simp add: ctx_inv_def)
  have dev: "run_safe env (b arg (device ctx))" if "map_of (device_args env) name = Some b" for b
    using map_of_safe [OF device_args_safe [of env "\<lambda>_. True"] that] by simp
  have peer: "run_safe env (on_last_peer (b arg) ctx)" if "map_of (peer_args env) name = Some b" "last_peer ctx \<noteq> None" for b
    using on_last_peer_safe [OF assms that(2)] map_of_safe [OF peer_args_safe that(1)] by blast
  show ?thesis
  proof (cases "name = ''peer''")
    case True
    then show ?thesis by (simp add: cmd_step_def on_last_peer_add_peer [OF c])
  next
    case False
    then show ?thesis
      using dev peer
      by (cases "last_peer ctx") (auto simp: cmd_step_def split: option.splits, (simp add: run_safe_def)+)
  qed
qed

lemma cmd_remove_safe: "ctx_inv env must ctx \<Longrightarrow> last_peer ctx \<noteq> None \<Longrightarrow> run_safe env (cmd_remove ctx)"
  unfolding cmd_remove_def by (rule on_last_peer_safe) auto

lemma run_safe_cases:
  assumes "run_safe env r" and "\<And>s. r = Some (Inr s) \<Longrightarrow> run_safe env (g s)"
  shows "run_safe env (case r of Some (Inr s) \<Rightarrow> g s | r \<Rightarrow> r)"
proof (cases r)
  case None
  then show ?thesis using assms(1) by simp
next
  case (Some x)
  then show ?thesis using assms by (cases x) auto
qed

lemma cmd_loop_safe:
  assumes "ctx_inv env {WGPEER_HAS_PUBLIC_KEY} ctx"
  shows "run_safe env (cmd_loop env argv ctx)"
  using assms
proof (induction env argv ctx rule: cmd_loop.induct)
  case (1 env ctx)
  then show ?case by simp
next
  case (2 env name ctx)
  then show ?case using cmd_remove_safe by (auto simp: run_safe_def)
next
  case (3 env name arg argv ctx)
  show ?case
  proof (cases "name = ''remove'' \<and> last_peer ctx \<noteq> None")
    case True
    have "run_safe env (case cmd_remove ctx of Some (Inr c) \<Rightarrow> cmd_loop env (arg # argv) c | r \<Rightarrow> r)"
      using True "3.prems" "3.IH"(1) [OF True] cmd_remove_inv [OF "3.prems"]
      by (intro run_safe_cases cmd_remove_safe) auto
    then show ?thesis using True by simp
  next
    case False
    have "run_safe env (case cmd_step env name arg ctx of Some (Inr c) \<Rightarrow> cmd_loop env argv c | r \<Rightarrow> r)"
      using "3.prems" "3.IH"(2) [OF False] cmd_step_inv [OF "3.prems"]
      by (intro run_safe_cases cmd_step_safe) auto
    then show ?thesis using False by auto
  qed
qed

lemma config_read_cmd_safe: "run_safe env (config_read_cmd env argv)"
  using cmd_loop_safe [OF ctx_inv_init, of env argv True]
  by (auto simp: run_safe_def config_read_cmd_def split: option.splits sum.splits)

lemma config_read_cmd_Inr:
  assumes "config_read_cmd env argv = Some (Inr d)"
  shows "parsed_device d \<and> (\<forall>p \<in> set (peers d). parsed_peer p \<and> peer_has p WGPEER_HAS_PUBLIC_KEY \<and> validate_ws_peer p = None)"
proof -
  from assms obtain ctx where "cmd_loop env argv (config_read_init True) = Some (Inr ctx)" "d = device ctx"
    "first_ws_problem (peers d) = None"
    by (auto simp: config_read_cmd_def split: option.splits sum.splits)
  with cmd_loop_inv [OF ctx_inv_init, of env argv True ctx] show ?thesis
    by (simp add: ctx_inv_def first_ws_problem_None)
qed

section \<open>Device flags\<close>

text \<open>The flags the code may set while it reads a value; the others do not change.\<close>

lemma on_last_peer_device:
  assumes "on_last_peer f ctx = Some (Inr ctx')"
  shows "dev_flags (device ctx') = dev_flags (device ctx)" and "length (peers (device ctx')) = length (peers (device ctx))"
    and "is_peer_section ctx' = is_peer_section ctx"
  using assms by (auto simp: on_last_peer_def map_run_Some_Inr_iff split: option.splits)

definition keeps_flag :: "u32 \<Rightarrow> bool \<Rightarrow> wgdevice \<Rightarrow> bool" where
  "keeps_flag b c d \<longleftrightarrow> dev_has d b = c"

lemma set_listen_port_flag:
  "\<not> flag_set WGDEVICE_HAS_LISTEN_PORT b \<Longrightarrow> branch_keeps (keeps_flag b c) (set_listen_port env)"
  by (rule branch_keepsI)
    (auto simp: set_listen_port_def map_sum_id_Inr parse_port_def keeps_flag_def flag_set_or split: if_splits sum.splits)

lemma set_fwmark_flag: "\<not> flag_set WGDEVICE_HAS_FWMARK b \<Longrightarrow> branch_keeps (keeps_flag b c) set_fwmark"
proof (rule branch_keepsI)
  fix v d d'
  assume b: "\<not> flag_set WGDEVICE_HAS_FWMARK b" and d: "keeps_flag b c d" and "set_fwmark v d = Some (Inr d')"
  then obtain w f where p: "parse_fwmark (dev_flags d) v = Inr (w, f)" and d': "d' = d\<lparr>fwmark := w, dev_flags := f\<rparr>"
    by (auto simp: set_fwmark_def map_sum_id_Inr)
  from p have "f = dev_flags d OR WGDEVICE_HAS_FWMARK" by (simp only: parse_fwmark_iff)
  with b d d' show "keeps_flag b c d'" by (simp add: keeps_flag_def flag_set_or)
qed

lemma set_private_key_flag:
  "\<not> flag_set WGDEVICE_HAS_PRIVATE_KEY b \<Longrightarrow> branch_keeps (keeps_flag b c) (\<lambda>v. set_private_key (parse v))"
  by (rule branch_keepsI) (auto simp: set_private_key_def map_sum_id_Inr keeps_flag_def dev_or_def flag_set_or)

lemma set_ws_listen_flag: "\<not> flag_set WGDEVICE_HAS_WS_LISTEN b \<Longrightarrow> branch_keeps (keeps_flag b c) set_ws_listen"
  by (rule branch_keepsI)
    (auto simp: set_ws_listen_def map_sum_id_Inr parse_ws_listen_def keeps_flag_def flag_set_or split: if_splits)

lemma set_ws_str_flag:
  assumes "\<not> flag_set f b" and "\<And>s d. dev_flags (upd s d) = dev_flags d"
  shows "branch_keeps (keeps_flag b c) (set_ws_str upd f)"
  by (rule branch_keepsI) (auto simp: set_ws_str_def parse_ws_device_str_def keeps_flag_def flag_set_or assms)

lemmas device_flag_branches = set_listen_port_flag set_fwmark_flag set_private_key_flag set_ws_listen_flag set_ws_str_flag

lemma device_args_replace_peers: "list_all (\<lambda>e. branch_keeps (keeps_flag WGDEVICE_REPLACE_PEERS c) (snd e)) (device_args env)"
proof -
  have "branch_keeps (keeps_flag WGDEVICE_REPLACE_PEERS c) (\<lambda>v dev. Some (map_sum id
      (\<lambda>s. dev_or WGDEVICE_HAS_WS_SERVER_BEARER (dev\<lparr>ws_server_bearer := Some s\<rparr>)) (parse_ws_secret_file env v)))"
    by (rule branch_keepsI) (auto simp: map_sum_id_Inr keeps_flag_def dev_or_def flag_set_or)
  then show ?thesis by (simp add: device_args_def device_ws_args_def device_flag_branches)
qed

lemma cmd_step_replace_peers:
  assumes "cmd_step env name arg ctx = Some (Inr ctx')"
  shows "dev_has (device ctx') WGDEVICE_REPLACE_PEERS = dev_has (device ctx) WGDEVICE_REPLACE_PEERS"
proof (cases "name = ''peer''")
  case True
  with assms on_last_peer_device(1) show ?thesis by (fastforce simp: cmd_step_def add_peer_def)
next
  case np: False
  show ?thesis
  proof (cases "last_peer ctx")
    case None
    with np assms obtain b dev where b: "map_of (device_args env) name = Some b" "b arg (device ctx) = Some (Inr dev)"
      "ctx' = ctx\<lparr>device := dev\<rparr>"
      by (auto simp: cmd_step_def map_run_Some_Inr_iff split: option.splits)
    let ?c = "dev_has (device ctx) WGDEVICE_REPLACE_PEERS"
    have "keeps_flag WGDEVICE_REPLACE_PEERS ?c dev"
      using branch_keepsD [OF map_of_keeps [OF device_args_replace_peers b(1), of ?c] _ b(2)] by (simp add: keeps_flag_def)
    then show ?thesis by (simp add: b(3) keeps_flag_def)
  next
    case (Some i)
    with np assms on_last_peer_device(1) show ?thesis by (fastforce simp: cmd_step_def split: option.splits)
  qed
qed

lemma cmd_loop_replace_peers:
  assumes "cmd_loop env argv ctx = Some (Inr ctx')"
  shows "dev_has (device ctx') WGDEVICE_REPLACE_PEERS = dev_has (device ctx) WGDEVICE_REPLACE_PEERS"
  using assms
proof (induction env argv ctx rule: cmd_loop.induct)
  case (1 env ctx)
  then show ?case by simp
next
  case (2 env name ctx)
  then show ?case using on_last_peer_device(1) by (fastforce simp: cmd_remove_def split: if_splits)
next
  case (3 env name arg argv ctx)
  show ?case
  proof (cases "name = ''remove'' \<and> last_peer ctx \<noteq> None")
    case True
    with "3.prems" obtain c where c: "cmd_remove ctx = Some (Inr c)" "cmd_loop env (arg # argv) c = Some (Inr ctx')"
      by (auto split: option.splits sum.splits)
    show ?thesis using "3.IH"(1) [OF True c(1) refl c(2)] on_last_peer_device(1) [OF c(1) [unfolded cmd_remove_def]] by simp
  next
    case False
    with "3.prems" obtain c where c: "cmd_step env name arg ctx = Some (Inr c)" "cmd_loop env argv c = Some (Inr ctx')"
      by (auto split: option.splits sum.splits)
    show ?thesis using "3.IH"(2) [OF False c(1) refl c(2)] cmd_step_replace_peers [OF c(1)] by simp
  qed
qed

definition ws_device_flags :: "u32 list" where
  "ws_device_flags = [WGDEVICE_HAS_WS_LISTEN, WGDEVICE_HAS_WS_SERVER_TLS_CERT, WGDEVICE_HAS_WS_SERVER_TLS_KEY,
     WGDEVICE_HAS_WS_SERVER_BEARER, WGDEVICE_HAS_WS_TRUSTED_PROXIES]"

definition ws_line :: "string \<Rightarrow> bool" where
  "ws_line input \<longleftrightarrow> strncaseeq (clean_line input) ''WS'' 2"

lemma strncaseeq_shorter: "strncaseeq s (t @ u) (length (t @ u)) \<Longrightarrow> strncaseeq s t (length t)"
proof (induction t arbitrary: s)
  case Nil
  then show ?case by simp
next
  case (Cons c t)
  then show ?case by (cases s) auto
qed

lemma prefix_match_ws:
  assumes "\<not> strncaseeq line ''WS'' 2"
  shows "prefix_match (''WS'' @ k) line = None"
proof -
  have "\<not> strncaseeq line (''WS'' @ k @ ''='') (length (''WS'' @ k @ ''=''))"
    using strncaseeq_shorter [of line "''WS''" "k @ ''=''"] assms by (auto simp: numeral_2_eq_2)
  then show ?thesis by (simp add: prefix_match_def)
qed

lemma device_line_no_ws:
  assumes "\<not> strncaseeq line ''WS'' 2" and "key_dispatch (device_keys env) line d = Some (Inr d')"
    and "b \<in> set ws_device_flags"
  shows "dev_has d' b = dev_has d b"
proof -
  let ?t = "take 3 (device_keys env)"
  have none: "prefix_match ''WSListen'' line = None" "prefix_match ''WSServerTLSCert'' line = None"
    "prefix_match ''WSServerTLSKey'' line = None" "prefix_match ''WSServerBearer'' line = None"
    "prefix_match ''WSTrustedProxies'' line = None"
    using prefix_match_ws [OF assms(1)] by (metis append_Cons append_Nil)+
  have "key_dispatch ?t line d = Some (Inr d')"
    using assms(2) none by (simp add: device_keys_def split: option.splits)
  moreover have "list_all (\<lambda>e. branch_keeps (keeps_flag b c) (snd e)) ?t" for c
    using assms(3) by (auto simp: device_keys_def device_flag_branches ws_device_flags_def)
  ultimately have "keeps_flag b (dev_has d b) d'"
    using key_dispatch_keeps [of "keeps_flag b (dev_has d b)" ?t d line d'] by (simp add: keeps_flag_def)
  then show ?thesis by (simp add: keeps_flag_def)
qed

lemma config_read_line_no_ws:
  assumes "\<not> ws_line input" and "config_read_line env input ctx = Some (Inr ctx')" and "b \<in> set ws_device_flags"
  shows "dev_has (device ctx') b = dev_has (device ctx) b"
proof (cases "clean_line input = []")
  case True
  then show ?thesis using assms(2) by (simp add: config_read_line_def)
next
  case False
  then have "process_line env (clean_line input) ctx = Some (Inr ctx')"
    using assms(2) by (simp add: config_read_line_def Let_def)
  then show ?thesis
  proof (cases rule: process_line_cases)
    case (device_key dev)
    then show ?thesis using device_line_no_ws assms(1,3) by (simp add: ws_line_def)
  next
    case peer_key
    then show ?thesis using on_last_peer_device(1) by metis
  qed (simp_all add: add_peer_def)
qed

lemma run_steps_no_ws:
  assumes "\<forall>l \<in> set lines. \<not> ws_line l" and "run_steps (config_read_line env) lines ctx = Some (Inr ctx')"
    and "b \<in> set ws_device_flags"
  shows "dev_has (device ctx') b = dev_has (device ctx) b"
  using assms(1,2)
proof (induction lines arbitrary: ctx)
  case Nil
  then show ?case by simp
next
  case (Cons l ls)
  then obtain c where c: "config_read_line env l ctx = Some (Inr c)" "run_steps (config_read_line env) ls c = Some (Inr ctx')"
    by (auto split: option.splits sum.splits)
  with Cons config_read_line_no_ws [OF _ c(1) assms(3)] show ?case by simp
qed

lemma config_read_no_ws:
  assumes "\<forall>l \<in> set lines. \<not> ws_line l" and "config_read env a lines = Some (Inr d)" and "b \<in> set ws_device_flags"
  shows "\<not> dev_has d b"
proof -
  obtain ctx where "run_steps (config_read_line env) lines (config_read_init a) = Some (Inr ctx)" "d = device ctx"
    using assms(2) by (rule config_read_Inr)
  with run_steps_no_ws [OF assms(1) _ assms(3)] have "dev_has d b = dev_has (device (config_read_init a)) b" by blast
  also have "\<not> \<dots>" using assms(3)
    by (auto simp: config_read_init_def zero_device_def dev_or_def flag_set_or ws_device_flags_def)
  finally show ?thesis by simp
qed

subsection \<open>One peer per section\<close>

definition peer_line :: "string \<Rightarrow> bool" where
  "peer_line input \<longleftrightarrow> strcaseeq (clean_line input) ''[Peer]''"

lemma config_read_line_peers:
  assumes "ctx_inv env must ctx" and "config_read_line env input ctx = Some (Inr ctx')"
  shows "length (peers (device ctx')) = length (peers (device ctx)) + (if peer_line input then 1 else 0)"
proof (cases "clean_line input = []")
  case True
  then show ?thesis using assms(2) by (simp add: config_read_line_def peer_line_def strcaseeq_def)
next
  case False
  then have "process_line env (clean_line input) ctx = Some (Inr ctx')"
    using assms(2) by (simp add: config_read_line_def Let_def)
  then show ?thesis
  proof (cases rule: process_line_cases)
    case interface
    have "\<not> strcaseeq (clean_line input) ''[Peer]''"
      using interface(1) by (auto simp: strcaseeq_def dest: arg_cong [of _ _ length])
    with interface show ?thesis by (simp add: peer_line_def)
  next
    case peer
    have "cursor_ok (last_peer ctx) (peers (device ctx))" using assms(1) by (simp add: ctx_inv_def)
    with peer show ?thesis by (simp add: peer_line_def add_peer_def link_after_append)
  next
    case (device_key dev)
    have "dev_inv (peers (device ctx)) (device ctx)" using assms(1) by (simp add: ctx_inv_def dev_inv_def)
    from key_dispatch_keeps [OF device_keys_keep this device_key(4)] device_key show ?thesis
      by (simp add: peer_line_def dev_inv_def)
  next
    case peer_key
    then show ?thesis using on_last_peer_device(2) [OF peer_key(4)] by (simp add: peer_line_def)
  qed
qed

lemma run_steps_peers:
  assumes "ctx_inv env {WGPEER_HAS_TRANSPORT} ctx" and "run_steps (config_read_line env) lines ctx = Some (Inr ctx')"
  shows "length (peers (device ctx')) = length (peers (device ctx)) + length (filter peer_line lines)"
  using assms
proof (induction lines arbitrary: ctx)
  case Nil
  then show ?case by simp
next
  case (Cons l ls)
  then obtain c where c: "config_read_line env l ctx = Some (Inr c)" "run_steps (config_read_line env) ls c = Some (Inr ctx')"
    by (auto split: option.splits sum.splits)
  with Cons.IH [OF config_read_line_inv [OF Cons.prems(1) c(1)] c(2)] config_read_line_peers [OF Cons.prems(1) c(1)]
  show ?case by simp
qed

end
