(* ===== verification/Bytes.thy ===== *)
theory Bytes
  imports WG_Prelude
begin

text \<open>
  Integers in memory: the bytes of a number, least significant first, and the number at the start of a list of
  bytes. The machine is little-endian; bytes behind the end of a list read as zero.
\<close>

section \<open>Encoding and decoding\<close>

fun le_bytes :: "nat \<Rightarrow> nat \<Rightarrow> u8 list" where
  "le_bytes 0 k = []"
| "le_bytes (Suc n) k = word_of_nat k # le_bytes n (k div 256)"

fun read_le :: "nat \<Rightarrow> u8 list \<Rightarrow> nat" where
  "read_le 0 bs = 0"
| "read_le (Suc n) bs = (case bs of [] \<Rightarrow> 0 | b # bs' \<Rightarrow> unat b + 256 * read_le n bs')"

definition le16 :: "u16 \<Rightarrow> u8 list" where "le16 w = le_bytes 2 (unat w)"
definition le32 :: "u32 \<Rightarrow> u8 list" where "le32 w = le_bytes 4 (unat w)"
definition le64 :: "u64 \<Rightarrow> u8 list" where "le64 w = le_bytes 8 (unat w)"

definition get16 :: "u8 list \<Rightarrow> u16" where "get16 bs = word_of_nat (read_le 2 bs)"
definition get32 :: "u8 list \<Rightarrow> u32" where "get32 bs = word_of_nat (read_le 4 bs)"
definition get64 :: "u8 list \<Rightarrow> u64" where "get64 bs = word_of_nat (read_le 8 bs)"

text \<open>Big-endian fields: addresses and ports.\<close>

definition be16 :: "u16 \<Rightarrow> u8 list" where "be16 w = rev (le16 w)"
definition be32 :: "u32 \<Rightarrow> u8 list" where "be32 w = rev (le32 w)"
definition get_be16 :: "u8 list \<Rightarrow> u16" where "get_be16 bs = get16 (rev (take 2 bs))"
definition get_be32 :: "u8 list \<Rightarrow> u32" where "get_be32 bs = get32 (rev (take 4 bs))"

definition str_bytes :: "string \<Rightarrow> u8 list" where
  "str_bytes s = map (\<lambda>c. word_of_nat (of_char c)) s"

definition bytes_str :: "u8 list \<Rightarrow> string" where
  "bytes_str bs = map (\<lambda>b. char_of (unat b)) bs"

section \<open>Round trips\<close>

lemma length_le_bytes [simp]: "length (le_bytes n k) = n"
  by (induction n arbitrary: k) simp_all

lemma read_le_bytes: "read_le n (le_bytes n k @ r) = k mod 256 ^ n"
proof (induction n arbitrary: k)
  case (Suc n)
  have "unat (word_of_nat k :: u8) = k mod 256" by (simp add: unat_of_nat)
  then show ?case using Suc [of "k div 256"] by (simp add: mod_mult2_eq)
qed simp

lemma length_le [simp]:
  "length (le16 w) = 2" "length (le32 x) = 4" "length (le64 y) = 8" "length (be16 w) = 2" "length (be32 x) = 4"
  by (simp_all add: le16_def le32_def le64_def be16_def be32_def)

lemma word_below: "unat (w :: u16) < 65536" "unat (x :: u32) < 4294967296" "unat (y :: u64) < 18446744073709551616"
  using unsigned_less [of w] unsigned_less [of x] unsigned_less [of y] by simp_all

lemma get_le [simp]: "get16 (le16 w @ r) = w" "get32 (le32 x @ r) = x" "get64 (le64 y @ r) = y"
  using word_below(1) [of w] word_below(2) [of x] word_below(3) [of y]
  by (simp_all add: get16_def get32_def get64_def le16_def le32_def le64_def read_le_bytes)

lemma get_be [simp]: "get_be16 (be16 w @ r) = w" "get_be32 (be32 x @ r) = x"
  using get_le(1) [of w "[]"] get_le(2) [of x "[]"] by (simp_all add: get_be16_def get_be32_def be16_def be32_def)

lemma drop_le [simp]: "drop 2 (le16 w @ r) = r" "drop 4 (le32 x @ r) = r" "drop 2 (be16 w @ r) = r" "drop 4 (be32 x @ r) = r"
  by simp_all

lemma bytes_str_bytes [simp]: "bytes_str (str_bytes s) = s"
  using of_char_nat_bound by (simp add: bytes_str_def str_bytes_def comp_def unat_of_nat)

end
