(* ===== verification/Curve25519.thy ===== *)
theory Curve25519
  imports Bytes
begin

text \<open>
  The 64-bit implementation of Curve25519 (\<open>src/src/curve25519-hacl64.h\<close>, with \<open>src/src/curve25519.h\<close> and
  \<open>src/src/curve25519.c\<close>).

  A field element is an array of five \<open>u64\<close>, a product before its reduction an array of five \<open>u128\<close>, and a
  point a pair of field elements. Arrays that a function changes in place are arguments that it returns;
  every operation wraps as the machine's does. Clearing memory at the end is not modelled.
\<close>

unbundle bit_operations_syntax

section \<open>The code: field elements\<close>

type_synonym u128 = "128 word"

datatype felem = Fe u64 u64 u64 u64 u64
datatype wide = Wide u128 u128 u128 u128 u128

definition u64_eq_mask :: "u64 \<Rightarrow> u64 \<Rightarrow> u64" where
  "u64_eq_mask a b =
     (let x = a XOR b;
          minus_x = NOT x + 1;
          x_or_minus_x = x OR minus_x;
          xnx = drop_bit 63 x_or_minus_x
      in xnx - 1)"

definition u64_gte_mask :: "u64 \<Rightarrow> u64 \<Rightarrow> u64" where
  "u64_gte_mask x y =
     (let x_xor_y = x XOR y;
          x_sub_y = x - y;
          x_sub_y_xor_y = x_sub_y XOR y;
          q = x_xor_y OR x_sub_y_xor_y;
          x_xor_q = x XOR q;
          x_xor_q1 = drop_bit 63 x_xor_q
      in x_xor_q1 - 1)"

definition limb_mask :: u64 where "limb_mask = 0x7ffffffffffff"

fun modulo_carry_top :: "felem \<Rightarrow> felem" where
  "modulo_carry_top (Fe b0 b1 b2 b3 b4) = Fe (b0 + 19 * drop_bit 51 b4) b1 b2 b3 (b4 AND limb_mask)"

fun fproduct_copy_from_wide :: "wide \<Rightarrow> felem" where
  "fproduct_copy_from_wide (Wide t0 t1 t2 t3 t4) = Fe (ucast t0) (ucast t1) (ucast t2) (ucast t3) (ucast t4)"

fun fproduct_sum_scalar_multiplication :: "wide \<Rightarrow> felem \<Rightarrow> u64 \<Rightarrow> wide" where
  "fproduct_sum_scalar_multiplication (Wide t0 t1 t2 t3 t4) (Fe i0 i1 i2 i3 i4) s =
     Wide (t0 + ucast i0 * ucast s) (t1 + ucast i1 * ucast s) (t2 + ucast i2 * ucast s) (t3 + ucast i3 * ucast s) (t4 + ucast i4 * ucast s)"

text \<open>One block of \<open>fproduct_carry_wide\<close>: the limb that stays, and the next one with the carry.\<close>

definition carry_wide_step :: "u128 \<Rightarrow> u128 \<Rightarrow> u128 \<times> u128" where
  "carry_wide_step tctr tctrp1 =
     (let r0 = (ucast tctr :: u64) AND limb_mask;
          c = drop_bit 51 tctr
      in (ucast r0, tctrp1 + c))"

fun fproduct_carry_wide :: "wide \<Rightarrow> wide" where
  "fproduct_carry_wide (Wide t0 t1 t2 t3 t4) =
     (let (t0, t1) = carry_wide_step t0 t1;
          (t1, t2) = carry_wide_step t1 t2;
          (t2, t3) = carry_wide_step t2 t3;
          (t3, t4) = carry_wide_step t3 t4
      in Wide t0 t1 t2 t3 t4)"

fun fmul_shift_reduce :: "felem \<Rightarrow> felem" where
  "fmul_shift_reduce (Fe i0 i1 i2 i3 i4) = Fe (19 * i4) i0 i1 i2 i3"

fun fmul_mul_shift_reduce :: "wide \<Rightarrow> felem \<Rightarrow> felem \<Rightarrow> wide" where
  "fmul_mul_shift_reduce output input0 (Fe j0 j1 j2 j3 j4) =
     (let output = fproduct_sum_scalar_multiplication output input0 j0;
          input1 = fmul_shift_reduce input0;
          output = fproduct_sum_scalar_multiplication output input1 j1;
          input2 = fmul_shift_reduce input1;
          output = fproduct_sum_scalar_multiplication output input2 j2;
          input3 = fmul_shift_reduce input2;
          output = fproduct_sum_scalar_multiplication output input3 j3;
          input4 = fmul_shift_reduce input3
      in fproduct_sum_scalar_multiplication output input4 j4)"

text \<open>What follows a product in \<open>fmul_fmul\<close>, \<open>fsquare_fsquare\<close> and \<open>fscalar\<close>: the top carry.\<close>

fun wide_carry_top :: "wide \<Rightarrow> wide" where
  "wide_carry_top (Wide b0 t1 t2 t3 b4) =
     Wide (b0 + ucast (19 :: u64) * ucast (ucast (drop_bit 51 b4) :: u64)) t1 t2 t3 (b4 AND ucast limb_mask)"

fun carry_0_to_1 :: "felem \<Rightarrow> felem" where
  "carry_0_to_1 (Fe i0 i1 o2 o3 o4) = Fe (i0 AND limb_mask) (i1 + drop_bit 51 i0) o2 o3 o4"

definition fmul_fmul :: "felem \<Rightarrow> felem \<Rightarrow> felem" where
  "fmul_fmul input input21 =
     (let t = fmul_mul_shift_reduce (Wide 0 0 0 0 0) input input21;
          t = fproduct_carry_wide t;
          t = wide_carry_top t
      in carry_0_to_1 (fproduct_copy_from_wide t))"

fun fsquare_products :: "felem \<Rightarrow> wide" where
  "fsquare_products (Fe r0 r1 r2 r3 r4) =
     (let d0 = r0 * 2;
          d1 = r1 * 2;
          d2 = r2 * 2 * 19;
          d419 = r4 * 19;
          d4 = d419 * 2
      in Wide (ucast r0 * ucast r0 + ucast d4 * ucast r1 + ucast d2 * ucast r3)
              (ucast d0 * ucast r1 + ucast d4 * ucast r2 + ucast (r3 * 19) * ucast r3)
              (ucast d0 * ucast r2 + ucast r1 * ucast r1 + ucast d4 * ucast r3)
              (ucast d0 * ucast r3 + ucast d1 * ucast r2 + ucast r4 * ucast d419)
              (ucast d0 * ucast r4 + ucast d1 * ucast r3 + ucast r2 * ucast r2))"

definition fsquare_fsquare :: "felem \<Rightarrow> felem" where
  "fsquare_fsquare output =
     (let tmp = fsquare_products output;
          tmp = fproduct_carry_wide tmp;
          tmp = wide_carry_top tmp
      in carry_0_to_1 (fproduct_copy_from_wide tmp))"

text \<open>The first squaring is always done; \<open>count1\<close> is at least one.\<close>

definition fsquare_fsquare_times :: "felem \<Rightarrow> nat \<Rightarrow> felem" where
  "fsquare_fsquare_times input count1 = (fsquare_fsquare ^^ (count1 - 1)) (fsquare_fsquare input)"

definition crecip_crecip :: "felem \<Rightarrow> felem" where
  "crecip_crecip z =
     (let a = fsquare_fsquare_times z 1;
          t0 = fsquare_fsquare_times a 2;
          b = fmul_fmul t0 z;
          a = fmul_fmul b a;
          t0 = fsquare_fsquare_times a 1;
          b = fmul_fmul t0 b;
          t0 = fsquare_fsquare_times b 5;
          b = fmul_fmul t0 b;
          t0 = fsquare_fsquare_times b 10;
          c = fmul_fmul t0 b;
          t0 = fsquare_fsquare_times c 20;
          t0 = fmul_fmul t0 c;
          t0 = fsquare_fsquare_times t0 10;
          b = fmul_fmul t0 b;
          t0 = fsquare_fsquare_times b 50;
          c = fmul_fmul t0 b;
          t0 = fsquare_fsquare_times c 100;
          t0 = fmul_fmul t0 c;
          t0 = fsquare_fsquare_times t0 50;
          t0 = fmul_fmul t0 b;
          t0 = fsquare_fsquare_times t0 5
      in fmul_fmul t0 a)"

fun fsum :: "felem \<Rightarrow> felem \<Rightarrow> felem" where
  "fsum (Fe a0 a1 a2 a3 a4) (Fe b0 b1 b2 b3 b4) = Fe (a0 + b0) (a1 + b1) (a2 + b2) (a3 + b3) (a4 + b4)"

text \<open>\<open>fdifference(a, b)\<close> leaves \<open>b - a\<close> in \<open>a\<close>, with a multiple of the prime added.\<close>

fun fdifference :: "felem \<Rightarrow> felem \<Rightarrow> felem" where
  "fdifference (Fe a0 a1 a2 a3 a4) (Fe b0 b1 b2 b3 b4) =
     Fe ((b0 + 0x3fffffffffff68) - a0) ((b1 + 0x3ffffffffffff8) - a1) ((b2 + 0x3ffffffffffff8) - a2)
        ((b3 + 0x3ffffffffffff8) - a3) ((b4 + 0x3ffffffffffff8) - a4)"

fun fscalar :: "felem \<Rightarrow> u64 \<Rightarrow> felem" where
  "fscalar (Fe b0 b1 b2 b3 b4) s =
     (let tmp = Wide (ucast b0 * ucast s) (ucast b1 * ucast s) (ucast b2 * ucast s) (ucast b3 * ucast s) (ucast b4 * ucast s);
          tmp = fproduct_carry_wide tmp;
          tmp = wide_carry_top tmp
      in fproduct_copy_from_wide tmp)"

section \<open>The code: points and the ladder\<close>

type_synonym point = "felem \<times> felem"

definition point_swap_conditional_step :: "u64 \<Rightarrow> u64 \<Rightarrow> u64 \<Rightarrow> u64 \<times> u64" where
  "point_swap_conditional_step ai bi swap1 = (let x = swap1 AND (ai XOR bi) in (ai XOR x, bi XOR x))"

fun point_swap_conditional5 :: "felem \<Rightarrow> felem \<Rightarrow> u64 \<Rightarrow> felem \<times> felem" where
  "point_swap_conditional5 (Fe a0 a1 a2 a3 a4) (Fe b0 b1 b2 b3 b4) swap1 =
     (let (a4, b4) = point_swap_conditional_step a4 b4 swap1;
          (a3, b3) = point_swap_conditional_step a3 b3 swap1;
          (a2, b2) = point_swap_conditional_step a2 b2 swap1;
          (a1, b1) = point_swap_conditional_step a1 b1 swap1;
          (a0, b0) = point_swap_conditional_step a0 b0 swap1
      in (Fe a0 a1 a2 a3 a4, Fe b0 b1 b2 b3 b4))"

fun point_swap_conditional :: "point \<Rightarrow> point \<Rightarrow> u64 \<Rightarrow> point \<times> point" where
  "point_swap_conditional (ax, az) (bx, bz) iswap =
     (let swap1 = 0 - iswap;
          (ax, bx) = point_swap_conditional5 ax bx swap1;
          (az, bz) = point_swap_conditional5 az bz swap1
      in ((ax, az), (bx, bz)))"

text \<open>
  The new points \<open>pp\<close> and \<open>ppq\<close>, and what is left in \<open>p\<close> and \<open>pq\<close>, which the function uses as scratch space.
\<close>

fun addanddouble_fmonty :: "point \<Rightarrow> point \<Rightarrow> felem \<Rightarrow> point \<times> point \<times> point \<times> point" where
  "addanddouble_fmonty (x, z) (xprime, zprime) qx =
     (let origx = x;
          x = fsum x z;
          z = fdifference z origx;
          origxprime = xprime;
          xprime = fsum xprime zprime;
          zprime = fdifference zprime origxprime;
          xxprime = fmul_fmul xprime z;
          zzprime = fmul_fmul x zprime;
          origxprime = xxprime;
          xxprime = fsum xxprime zzprime;
          zzprime = fdifference zzprime origxprime;
          x3 = fsquare_fsquare_times xxprime 1;
          zzzprime = fsquare_fsquare_times zzprime 1;
          z3 = fmul_fmul zzzprime qx;
          xx = fsquare_fsquare_times x 1;
          zz = fsquare_fsquare_times z 1;
          x2 = fmul_fmul xx zz;
          zz = fdifference zz xx;
          zzz = fscalar zz 121665;
          zzz = fsum zzz xx;
          z2 = fmul_fmul zzz zz
      in ((x2, z2), (x3, z3), (x, z), (xprime, zprime)))"

text \<open>The four points of the ladder: \<open>nq\<close>, \<open>nqpq\<close>, \<open>nq2\<close> and \<open>nqpq2\<close>.\<close>

type_synonym ladder = "point \<times> point \<times> point \<times> point"

fun ladder_smallloop_cmult_small_loop_step :: "ladder \<Rightarrow> point \<Rightarrow> u8 \<Rightarrow> ladder" where
  "ladder_smallloop_cmult_small_loop_step (nq, nqpq, nq2, nqpq2) q byt =
     (let bit0 = ucast (drop_bit 7 byt) :: u64;
          (nq, nqpq) = point_swap_conditional nq nqpq bit0;
          (nq2, nqpq2, nq, nqpq) = addanddouble_fmonty nq nqpq (fst q);
          bit1 = ucast (drop_bit 7 byt) :: u64;
          (nq2, nqpq2) = point_swap_conditional nq2 nqpq2 bit1
      in (nq, nqpq, nq2, nqpq2))"

definition ladder_smallloop_cmult_small_loop_double_step :: "ladder \<Rightarrow> point \<Rightarrow> u8 \<Rightarrow> ladder" where
  "ladder_smallloop_cmult_small_loop_double_step l q byt =
     (let (nq, nqpq, nq2, nqpq2) = ladder_smallloop_cmult_small_loop_step l q byt;
          byt1 = push_bit 1 byt;
          (nq2, nqpq2, nq, nqpq) = ladder_smallloop_cmult_small_loop_step (nq2, nqpq2, nq, nqpq) q byt1
      in (nq, nqpq, nq2, nqpq2))"

fun ladder_smallloop_cmult_small_loop :: "ladder \<Rightarrow> point \<Rightarrow> u8 \<Rightarrow> nat \<Rightarrow> ladder" where
  "ladder_smallloop_cmult_small_loop l q byt 0 = l"
| "ladder_smallloop_cmult_small_loop l q byt (Suc i) =
     ladder_smallloop_cmult_small_loop (ladder_smallloop_cmult_small_loop_double_step l q byt) q (push_bit 2 byt) i"

fun ladder_bigloop_cmult_big_loop :: "u8 list \<Rightarrow> ladder \<Rightarrow> point \<Rightarrow> nat \<Rightarrow> ladder" where
  "ladder_bigloop_cmult_big_loop n1 l q 0 = l"
| "ladder_bigloop_cmult_big_loop n1 l q (Suc i) =
     ladder_bigloop_cmult_big_loop n1 (ladder_smallloop_cmult_small_loop l q (n1 ! i) 4) q i"

definition fzero :: felem where "fzero = Fe 0 0 0 0 0"
definition fone :: felem where "fone = Fe 1 0 0 0 0"

definition ladder_cmult :: "u8 list \<Rightarrow> point \<Rightarrow> point" where
  "ladder_cmult n1 q = fst (ladder_bigloop_cmult_big_loop n1 ((fone, fzero), q, (fzero, fzero), (fzero, fzero)) q 32)"

section \<open>The code: bytes\<close>

definition format_fexpand :: "u8 list \<Rightarrow> felem" where
  "format_fexpand input =
     (let i0 = get64 input;
          i1 = get64 (drop 6 input);
          i2 = get64 (drop 12 input);
          i3 = get64 (drop 19 input);
          i4 = get64 (drop 24 input)
      in Fe (i0 AND limb_mask) (drop_bit 3 i1 AND limb_mask) (drop_bit 6 i2 AND limb_mask) (drop_bit 1 i3 AND limb_mask) (drop_bit 12 i4 AND limb_mask))"

fun format_fcontract_first_carry_pass :: "felem \<Rightarrow> felem" where
  "format_fcontract_first_carry_pass (Fe t0 t1 t2 t3 t4) =
     (let t1_sum = t1 + drop_bit 51 t0;
          t0_low = t0 AND limb_mask;
          t2_sum = t2 + drop_bit 51 t1_sum;
          t1_low = t1_sum AND limb_mask;
          t3_sum = t3 + drop_bit 51 t2_sum;
          t2_low = t2_sum AND limb_mask;
          t4_sum = t4 + drop_bit 51 t3_sum;
          t3_low = t3_sum AND limb_mask
      in Fe t0_low t1_low t2_low t3_low t4_sum)"

definition format_fcontract_first_carry_full :: "felem \<Rightarrow> felem" where
  "format_fcontract_first_carry_full input = modulo_carry_top (format_fcontract_first_carry_pass input)"

fun format_fcontract_second_carry_pass :: "felem \<Rightarrow> felem" where
  "format_fcontract_second_carry_pass (Fe t0 t1 t2 t3 t4) =
     (let t1_sum = t1 + drop_bit 51 t0;
          t0_low = t0 AND limb_mask;
          t2_sum = t2 + drop_bit 51 t1_sum;
          t1_low = t1_sum AND limb_mask;
          t3_sum = t3 + drop_bit 51 t2_sum;
          t2_low = t2_sum AND limb_mask;
          t4_sum = t4 + drop_bit 51 t3_sum;
          t3_low = t3_sum AND limb_mask
      in Fe t0_low t1_low t2_low t3_low t4_sum)"

definition format_fcontract_second_carry_full :: "felem \<Rightarrow> felem" where
  "format_fcontract_second_carry_full input = carry_0_to_1 (modulo_carry_top (format_fcontract_second_carry_pass input))"

fun format_fcontract_trim :: "felem \<Rightarrow> felem" where
  "format_fcontract_trim (Fe a0 a1 a2 a3 a4) =
     (let mask0 = u64_gte_mask a0 0x7ffffffffffed;
          mask1 = u64_eq_mask a1 limb_mask;
          mask2 = u64_eq_mask a2 limb_mask;
          mask3 = u64_eq_mask a3 limb_mask;
          mask4 = u64_eq_mask a4 limb_mask;
          m = (((mask0 AND mask1) AND mask2) AND mask3) AND mask4
      in Fe (a0 - (0x7ffffffffffed AND m)) (a1 - (limb_mask AND m)) (a2 - (limb_mask AND m)) (a3 - (limb_mask AND m)) (a4 - (limb_mask AND m)))"

fun format_fcontract_store :: "felem \<Rightarrow> u8 list" where
  "format_fcontract_store (Fe t0 t1 t2 t3 t4) =
     (let o0 = push_bit 51 t1 OR t0;
          o1 = push_bit 38 t2 OR drop_bit 13 t1;
          o2 = push_bit 25 t3 OR drop_bit 26 t2;
          o3 = push_bit 12 t4 OR drop_bit 39 t3
      in le64 o0 @ le64 o1 @ le64 o2 @ le64 o3)"

definition format_fcontract :: "felem \<Rightarrow> u8 list" where
  "format_fcontract input =
     format_fcontract_store (format_fcontract_trim (format_fcontract_second_carry_full (format_fcontract_first_carry_full input)))"

fun format_scalar_of_point :: "point \<Rightarrow> u8 list" where
  "format_scalar_of_point (x, z) = (let zmone = crecip_crecip z; sc = fmul_fmul x zmone in format_fcontract sc)"

definition curve25519_clamp_secret :: "u8 list \<Rightarrow> u8 list" where
  "curve25519_clamp_secret secret = secret[0 := secret ! 0 AND 248, 31 := (secret ! 31 AND 127) OR 64]"

definition curve25519_generic :: "u8 list \<Rightarrow> u8 list \<Rightarrow> u8 list" where
  "curve25519_generic secret basepoint =
     (let q = (format_fexpand basepoint, fone);
          e = curve25519_clamp_secret secret
      in format_scalar_of_point (ladder_cmult e q))"

definition curve25519 :: "u8 list \<Rightarrow> u8 list \<Rightarrow> u8 list" where
  "curve25519 secret basepoint = curve25519_generic secret basepoint"

definition curve25519_generate_public :: "u8 list \<Rightarrow> u8 list" where
  "curve25519_generate_public secret = curve25519 secret (9 # replicate 31 0)"

end
