(* ===== verification/Uapi.thy ===== *)
theory Uapi
  imports Config Curve25519
begin

text \<open>
  The userspace configuration protocol of \<open>src/src/ipc-uapi.h\<close>: \<open>userspace_set_device\<close> writes a device as
  lines \<open>key=value\<close> and reads the result code, \<open>userspace_get_device\<close> asks for a device and parses the
  lines of the answer.

  A text written with \<open>fprintf\<close> is the list of its lines as pairs of key and value, flattened by
  \<open>uapi_text\<close>. The name resolver, address formatting and the socket
  are arguments (\<open>uapi_env\<close>): the socket maps the request to the bytes of the answer and the \<open>errno\<close> that
  the read after them leaves. Branches of the loop are values of \<open>uapi_step\<close>: going on with the next
  line, \<open>break\<close>, or \<open>goto err\<close> with a return code.
\<close>

section \<open>The system interface\<close>

record uapi_env =
  sys :: sysenv
  inet_ntop4 :: "u32 \<Rightarrow> string option"
  inet_ntop6 :: "u32 list \<Rightarrow> string option"
  getnameinfo :: "sockaddr \<Rightarrow> (string \<times> string) option"
  interface_file :: "string \<Rightarrow> int + (string \<Rightarrow> string \<times> int)"

definition EPROTO :: int where "EPROTO = 71"
definition ERANGE :: int where "ERANGE = 34"
definition ENETUNREACH :: int where "ENETUNREACH = 101"

text \<open>\<open>getline\<close>: the next line with its newline, and the rest; \<open>None\<close> at the end of the input.\<close>

definition getline :: "string \<Rightarrow> (string \<times> string) option" where
  "getline input =
     (if input = [] then None
      else let l = takeWhile (\<lambda>c. c \<noteq> newline) input; r = dropWhile (\<lambda>c. c \<noteq> newline) input
           in Some (l @ take 1 r, drop 1 r))"

lemma getline_shorter: "getline input = Some (l, rest) \<Longrightarrow> length rest < length input"
proof -
  assume "getline input = Some (l, rest)"
  then have "rest = drop 1 (dropWhile (\<lambda>c. c \<noteq> newline) input)" "input \<noteq> []"
    by (auto simp: getline_def Let_def split: if_splits)
  then show ?thesis
    using length_dropWhile_le [of "\<lambda>c. c \<noteq> newline" input] by (cases input) auto
qed

section \<open>Writing a device\<close>

type_synonym kvs = "(string \<times> string) list"

definition uapi_text :: "kvs \<Rightarrow> string" where
  "uapi_text ls = concat (map (\<lambda>(k, v). k @ ''='' @ v @ [newline]) ls)"

definition emit_if :: "bool \<Rightarrow> string \<Rightarrow> string \<Rightarrow> kvs" where
  "emit_if c k v = (if c then [(k, v)] else [])"

definition emit_opt :: "string \<Rightarrow> string option \<Rightarrow> kvs" where
  "emit_opt k s = (case s of None \<Rightarrow> [] | Some v \<Rightarrow> [(k, v)])"

definition str_or_empty :: "string option \<Rightarrow> string" where
  "str_or_empty s = (case s of None \<Rightarrow> [] | Some v \<Rightarrow> v)"

definition transport_name :: "wgpeer_transport \<Rightarrow> string" where
  "transport_name t =
     (if t = WGPEER_TRANSPORT_WSTUNNEL then ''wstunnel''
      else if t = WGPEER_TRANSPORT_WEBSOCKET then ''websocket'' else ''udp'')"

definition endpoint_kvs :: "uapi_env \<Rightarrow> sockaddr \<Rightarrow> kvs" where
  "endpoint_kvs env a =
     (if has_endpoint a then
        (case getnameinfo env a of
           None \<Rightarrow> []
         | Some (host, service) \<Rightarrow>
             if sa_family a = AF_INET6 \<and> strchr host CHR '':'' \<noteq> None
             then [(''endpoint'', ''['' @ host @ '']:'' @ service)]
             else [(''endpoint'', host @ '':'' @ service)])
      else [])"

definition allowedip_kvs :: "uapi_env \<Rightarrow> wgallowedip \<Rightarrow> kvs" where
  "allowedip_kvs env a =
     (case (if family a = AF_INET then inet_ntop4 env (ip4 a)
            else if family a = AF_INET6 then inet_ntop6 env (ip_words a) else None) of
        None \<Rightarrow> []
      | Some ip \<Rightarrow>
          [(''allowed_ip'',
            (if flag_set (aip_flags a) WGALLOWEDIP_REMOVE_ME then ''-'' else []) @ ip @ ''/'' @ print_u (unat (cidr a)))])"

definition ws_kvs :: "wgpeer \<Rightarrow> kvs" where
  "ws_kvs p =
     (if transport p \<noteq> WGPEER_TRANSPORT_UDP
         \<or> (peer_has p WGPEER_HAS_WS_SETTINGS \<and> \<not> peer_has p WGPEER_HAS_TRANSPORT) then
        emit_opt ''ws_url'' (ws_url p)
        @ emit_opt ''wstunnel_target'' (wstunnel_target p)
        @ emit_opt ''ws_bearer'' (ws_bearer p)
        @ emit_if (ws_mask p) ''ws_mask'' ''true''
        @ emit_opt ''ws_tls_ca'' (ws_tls_ca p)
        @ emit_opt ''ws_tls_cert'' (ws_tls_cert p)
        @ emit_opt ''ws_tls_key'' (ws_tls_key p)
        @ emit_if (ws_tls_insecure p) ''ws_tls_insecure'' ''true''
        @ emit_if (ws_ping_interval_ms p \<noteq> 0) ''ws_ping_interval'' (print_u (unat (ws_ping_interval_ms p)))
        @ emit_if (ws_backoff_min_ms p \<noteq> 0) ''ws_backoff_min'' (print_u (unat (ws_backoff_min_ms p)))
        @ emit_if (ws_backoff_max_ms p \<noteq> 0) ''ws_backoff_max'' (print_u (unat (ws_backoff_max_ms p)))
      else [])"

definition peer_kvs :: "uapi_env \<Rightarrow> wgpeer \<Rightarrow> kvs" where
  "peer_kvs env p =
     (''public_key'', key_to_hex (peer_public_key p)) #
     (if peer_has p WGPEER_REMOVE_ME then [(''remove'', ''true'')]
      else
        emit_if (peer_has p WGPEER_HAS_PRESHARED_KEY) ''preshared_key'' (key_to_hex (preshared_key p))
        @ emit_if (peer_has p WGPEER_HAS_TRANSPORT) ''transport'' (transport_name (transport p))
        @ endpoint_kvs env (endpoint p)
        @ ws_kvs p
        @ emit_if (peer_has p WGPEER_HAS_PERSISTENT_KEEPALIVE_INTERVAL) ''persistent_keepalive_interval''
            (print_u (unat (persistent_keepalive_interval p)))
        @ emit_if (peer_has p WGPEER_REPLACE_ALLOWEDIPS) ''replace_allowed_ips'' ''true''
        @ concat (map (allowedip_kvs env) (allowedips p)))"

definition device_kvs :: "wgdevice \<Rightarrow> kvs" where
  "device_kvs d =
     emit_if (dev_has d WGDEVICE_HAS_PRIVATE_KEY) ''private_key'' (key_to_hex (private_key d))
     @ emit_if (dev_has d WGDEVICE_HAS_LISTEN_PORT) ''listen_port'' (print_u (unat (listen_port d)))
     @ emit_if (dev_has d WGDEVICE_HAS_FWMARK) ''fwmark'' (print_u (unat (fwmark d)))
     @ emit_if (dev_has d WGDEVICE_HAS_WS_LISTEN) ''ws_listen'' (str_or_empty (ws_listen d))
     @ emit_if (dev_has d WGDEVICE_HAS_WS_SERVER_TLS_CERT) ''ws_server_tls_cert'' (str_or_empty (ws_server_tls_cert d))
     @ emit_if (dev_has d WGDEVICE_HAS_WS_SERVER_TLS_KEY) ''ws_server_tls_key'' (str_or_empty (ws_server_tls_key d))
     @ emit_if (dev_has d WGDEVICE_HAS_WS_SERVER_BEARER) ''ws_server_bearer'' (str_or_empty (ws_server_bearer d))
     @ emit_if (dev_has d WGDEVICE_HAS_WS_TRUSTED_PROXIES) ''ws_trusted_proxies'' (str_or_empty (ws_trusted_proxies d))
     @ emit_if (dev_has d WGDEVICE_REPLACE_PEERS) ''replace_peers'' ''true''"

definition set_kvs :: "uapi_env \<Rightarrow> wgdevice \<Rightarrow> kvs" where
  "set_kvs env d = (''set'', ''1'') # device_kvs d @ concat (map (peer_kvs env) (peers d))"

definition set_request :: "uapi_env \<Rightarrow> wgdevice \<Rightarrow> string" where
  "set_request env d = uapi_text (set_kvs env d) @ [newline]"

section \<open>The answer to a set request\<close>

definition INT_MIN :: int where "INT_MIN = - 2147483648"

text \<open>What \<open>strtoll\<close> leaves in \<open>errno\<close>.\<close>

definition strtoll_errno :: "string \<Rightarrow> int" where
  "strtoll_errno s =
     (let (neg, v, _) = strto_scan 10 s
      in if v > (if neg then 9223372036854775808 else 9223372036854775807) then ERANGE else 0)"

definition no_error :: "int \<Rightarrow> int" where
  "no_error e = (if e \<noteq> 0 then - e else - EPROTO)"

text \<open>The loop over the lines; \<open>rd\<close> is \<open>errno\<close> after the failing read at the end.\<close>

function set_reply :: "int \<Rightarrow> string \<Rightarrow> int \<Rightarrow> int" where
  "set_reply rd input set_errno =
     (case getline input of
        None \<Rightarrow> no_error rd
      | Some (l, rest) \<Rightarrow>
          (let line = c_str l
           in if line = [newline] then set_errno
              else (case strchr line CHR ''='' of
                      None \<Rightarrow> no_error 0
                    | Some eq \<Rightarrow>
                        if line = [] \<or> last line \<noteq> newline then no_error 0
                        else
                          let key = takeWhile (\<lambda>c. c \<noteq> CHR ''='') line; value = butlast (tl eq)
                          in if key = ''errno'' then
                               (if char_at value 0 \<noteq> CHR ''-'' \<and> \<not> char_is_digit (c_int (char_at value 0)) then no_error 0
                                else let (num, end) = strtoll 10 value
                                     in if end \<noteq> [] \<or> num > int INT_MAX \<or> num < INT_MIN
                                        then no_error (strtoll_errno value)
                                        else set_reply rd rest num)
                             else set_reply rd rest set_errno)))"
  by pat_completeness auto
termination
  by (relation "measure (\<lambda>(_, input, _). length input)") (auto dest: getline_shorter)

definition userspace_set_device :: "uapi_env \<Rightarrow> wgdevice \<Rightarrow> int" where
  "userspace_set_device env d =
     (case interface_file env (dev_name d) of
        Inl e \<Rightarrow> - e
      | Inr daemon \<Rightarrow>
          let (reply, rd) = daemon (set_request env d) in set_reply rd reply (- EPROTO))"

section \<open>Reading a device\<close>

record uapi_state =
  udev :: wgdevice
  upeer :: "nat option"
  uaip :: "nat option"
  uret :: int

datatype 'a uapi_step = Go 'a | Break | Err int

fun go_map :: "('a \<Rightarrow> 'b) \<Rightarrow> 'a uapi_step \<Rightarrow> 'b uapi_step" where
  "go_map f (Go x) = Go (f x)"
| "go_map f Break = Break"
| "go_map f (Err r) = Err r"

definition go_or_break :: "('a \<Rightarrow> 'b) \<Rightarrow> 'a option \<Rightarrow> 'b uapi_step" where
  "go_or_break f x = (case x of None \<Rightarrow> Break | Some y \<Rightarrow> Go (f y))"

text \<open>The macro \<open>NUM(max)\<close>, whose \<open>break\<close> leaves the loop.\<close>

definition uapi_num :: "nat \<Rightarrow> string \<Rightarrow> nat option" where
  "uapi_num bound value =
     (if \<not> char_is_digit (c_int (char_at value 0)) then None
      else let (num, end) = strtoul 10 value in if end \<noteq> [] \<or> num > bound then None else Some num)"

definition uapi_dup :: "(string option \<Rightarrow> 'a) \<Rightarrow> string \<Rightarrow> 'a uapi_step" where
  "uapi_dup set_field value = Go (set_field (Some value))"

type_synonym uapi_device_branch = "string \<Rightarrow> wgdevice \<Rightarrow> wgdevice uapi_step"
type_synonym uapi_peer_branch = "string \<Rightarrow> peer_state \<Rightarrow> peer_state uapi_step"

definition uapi_device_keys :: "uapi_env \<Rightarrow> (string \<times> uapi_device_branch) list" where
  "uapi_device_keys env =
     [(''private_key'', \<lambda>v d. go_or_break (\<lambda>k. dev_or (WGDEVICE_HAS_PRIVATE_KEY OR WGDEVICE_HAS_PUBLIC_KEY)
                                   (d\<lparr>private_key := k, dev_public_key := curve25519_generate_public k\<rparr>)) (key_from_hex v)),
      (''listen_port'', \<lambda>v d. go_or_break (\<lambda>n. dev_or WGDEVICE_HAS_LISTEN_PORT (d\<lparr>listen_port := word_of_nat n\<rparr>)) (uapi_num 0xffff v)),
      (''fwmark'', \<lambda>v d. go_or_break (\<lambda>n. dev_or WGDEVICE_HAS_FWMARK (d\<lparr>fwmark := word_of_nat n\<rparr>)) (uapi_num 0xffffffff v)),
      (''ws_listen'', \<lambda>v d. uapi_dup (\<lambda>s. dev_or WGDEVICE_HAS_WS_LISTEN (d\<lparr>ws_listen := s\<rparr>)) v),
      (''ws_server_tls_cert'', \<lambda>v d. uapi_dup (\<lambda>s. dev_or WGDEVICE_HAS_WS_SERVER_TLS_CERT (d\<lparr>ws_server_tls_cert := s\<rparr>)) v),
      (''ws_server_tls_key'', \<lambda>v d. uapi_dup (\<lambda>s. dev_or WGDEVICE_HAS_WS_SERVER_TLS_KEY (d\<lparr>ws_server_tls_key := s\<rparr>)) v),
      (''ws_server_bearer'', \<lambda>v d. uapi_dup (\<lambda>s. dev_or WGDEVICE_HAS_WS_SERVER_BEARER (d\<lparr>ws_server_bearer := s\<rparr>)) v),
      (''ws_trusted_proxies'', \<lambda>v d. uapi_dup (\<lambda>s. dev_or WGDEVICE_HAS_WS_TRUSTED_PROXIES (d\<lparr>ws_trusted_proxies := s\<rparr>)) v)]"

definition uapi_endpoint :: "sysenv \<Rightarrow> string \<Rightarrow> sockaddr uapi_step" where
  "uapi_endpoint env value =
     (case split_endpoint value of
        Inl _ \<Rightarrow> Break
      | Inr (begin, end) \<Rightarrow>
          (case getaddrinfo env (Some begin) end 0 of
             Inl _ \<Rightarrow> Err ENETUNREACH
           | Inr resolved \<Rightarrow> if is_inet resolved \<or> is_inet6 resolved then Go (ai_addr resolved) else Break))"

definition uapi_transport :: "string \<Rightarrow> wgpeer_transport" where
  "uapi_transport value =
     (if value = ''wstunnel'' then WGPEER_TRANSPORT_WSTUNNEL
      else if value = ''websocket'' then WGPEER_TRANSPORT_WEBSOCKET else WGPEER_TRANSPORT_UDP)"

text \<open>The prefix length is stored in eight bits before it is compared with 32 or 128.\<close>

definition uapi_allowedip :: "sysenv \<Rightarrow> uapi_peer_branch" where
  "uapi_allowedip env value st =
     (let (ip, mask_str) = strsep value CHR ''/''
      in case mask_str of
           None \<Rightarrow> Break
         | Some m \<Rightarrow>
             if \<not> char_is_digit (c_int (char_at m 0)) then Break
             else
               let a0 = zero_allowedip\<lparr>family := AF_UNSPEC\<rparr>;
                   a1 = (if strchr ip CHR '':'' \<noteq> None
                         then (case inet_pton6 env ip of Some w \<Rightarrow> a0\<lparr>ip_words := w, family := AF_INET6\<rparr> | None \<Rightarrow> a0)
                         else (case inet_pton4 env ip of Some w \<Rightarrow> (set_ip4 w a0)\<lparr>family := AF_INET\<rparr> | None \<Rightarrow> a0));
                   (c, end) = strtoul 10 m;
                   a2 = a1\<lparr>cidr := word_of_nat c\<rparr>
               in if end \<noteq> [] \<or> family a2 = AF_UNSPEC \<or> (family a2 = AF_INET6 \<and> cidr a2 > 128) \<or> (family a2 = AF_INET \<and> cidr a2 > 32)
                  then Break
                  else Go ((fst st)\<lparr>allowedips := link_after (snd st) a2 (allowedips (fst st))\<rparr>, cursor_next (snd st)))"

definition on_peer :: "(string \<Rightarrow> wgpeer \<Rightarrow> wgpeer uapi_step) \<Rightarrow> uapi_peer_branch" where
  "on_peer f value st = go_map (\<lambda>p. (p, snd st)) (f value (fst st))"

definition uapi_peer_keys :: "uapi_env \<Rightarrow> (string \<times> uapi_peer_branch) list" where
  "uapi_peer_keys env =
     [(''preshared_key'', on_peer (\<lambda>v p. go_or_break (\<lambda>k. let q = p\<lparr>preshared_key := k\<rparr>
                                       in if \<not> key_is_zero k then peer_or WGPEER_HAS_PRESHARED_KEY q else q) (key_from_hex v))),
      (''endpoint'', on_peer (\<lambda>v p. go_map (\<lambda>a. p\<lparr>endpoint := a\<rparr>) (uapi_endpoint (sys env) v))),
      (''transport'', on_peer (\<lambda>v p. Go (peer_or WGPEER_HAS_TRANSPORT (p\<lparr>transport := uapi_transport v\<rparr>)))),
      (''ws_url'', on_peer (\<lambda>v p. uapi_dup (\<lambda>s. p\<lparr>ws_url := s\<rparr>) v)),
      (''wstunnel_target'', on_peer (\<lambda>v p. uapi_dup (\<lambda>s. p\<lparr>wstunnel_target := s\<rparr>) v)),
      (''ws_bearer'', on_peer (\<lambda>v p. uapi_dup (\<lambda>s. p\<lparr>ws_bearer := s\<rparr>) v)),
      (''ws_tls_ca'', on_peer (\<lambda>v p. uapi_dup (\<lambda>s. p\<lparr>ws_tls_ca := s\<rparr>) v)),
      (''ws_tls_cert'', on_peer (\<lambda>v p. uapi_dup (\<lambda>s. p\<lparr>ws_tls_cert := s\<rparr>) v)),
      (''ws_tls_key'', on_peer (\<lambda>v p. uapi_dup (\<lambda>s. p\<lparr>ws_tls_key := s\<rparr>) v)),
      (''ws_mask'', on_peer (\<lambda>v p. Go (p\<lparr>ws_mask := (v = ''true'')\<rparr>))),
      (''ws_tls_insecure'', on_peer (\<lambda>v p. Go (p\<lparr>ws_tls_insecure := (v = ''true'')\<rparr>))),
      (''ws_ping_interval'', on_peer (\<lambda>v p. go_or_break (\<lambda>n. p\<lparr>ws_ping_interval_ms := word_of_nat n\<rparr>) (uapi_num 0xffffffff v))),
      (''ws_backoff_min'', on_peer (\<lambda>v p. go_or_break (\<lambda>n. p\<lparr>ws_backoff_min_ms := word_of_nat n\<rparr>) (uapi_num 0xffffffff v))),
      (''ws_backoff_max'', on_peer (\<lambda>v p. go_or_break (\<lambda>n. p\<lparr>ws_backoff_max_ms := word_of_nat n\<rparr>) (uapi_num 0xffffffff v))),
      (''persistent_keepalive_interval'', on_peer (\<lambda>v p. go_or_break (\<lambda>n. peer_or WGPEER_HAS_PERSISTENT_KEEPALIVE_INTERVAL
                                              (p\<lparr>persistent_keepalive_interval := word_of_nat n\<rparr>)) (uapi_num 0xffff v))),
      (''allowed_ip'', uapi_allowedip (sys env)),
      (''last_handshake_time_sec'', on_peer (\<lambda>v p. go_or_break (\<lambda>n. p\<lparr>last_handshake_sec := int n\<rparr>) (uapi_num 0x7fffffffffffffff v))),
      (''last_handshake_time_nsec'', on_peer (\<lambda>v p. go_or_break (\<lambda>n. p\<lparr>last_handshake_nsec := int n\<rparr>) (uapi_num 0x7fffffffffffffff v))),
      (''rx_bytes'', on_peer (\<lambda>v p. go_or_break (\<lambda>n. p\<lparr>rx_bytes := word_of_nat n\<rparr>) (uapi_num 0xffffffffffffffff v))),
      (''tx_bytes'', on_peer (\<lambda>v p. go_or_break (\<lambda>n. p\<lparr>tx_bytes := word_of_nat n\<rparr>) (uapi_num 0xffffffffffffffff v)))]"

definition on_upeer :: "nat \<Rightarrow> (peer_state \<Rightarrow> peer_state uapi_step) \<Rightarrow> uapi_state \<Rightarrow> uapi_state uapi_step" where
  "on_upeer i f st =
     go_map (\<lambda>(p, cur). st\<lparr>udev := (udev st)\<lparr>peers := (peers (udev st))[i := p]\<rparr>, uaip := cur\<rparr>)
       (f (peers (udev st) ! i, uaip st))"

text \<open>One line of the answer. A key that no branch knows is ignored.\<close>

definition uapi_line :: "uapi_env \<Rightarrow> string \<Rightarrow> string \<Rightarrow> uapi_state \<Rightarrow> uapi_state uapi_step" where
  "uapi_line env key value st =
     (if key = ''public_key'' then
        (case key_from_hex value of
           None \<Rightarrow> Break
         | Some k \<Rightarrow>
             Go (st\<lparr>uaip := None,
                    udev := (udev st)\<lparr>peers := link_after (upeer st) (peer_or WGPEER_HAS_PUBLIC_KEY (zero_peer\<lparr>peer_public_key := k\<rparr>)) (peers (udev st))\<rparr>,
                    upeer := cursor_next (upeer st)\<rparr>))
      else if key = ''errno'' then go_or_break (\<lambda>n. st\<lparr>uret := - int n\<rparr>) (uapi_num 0x7fffffff value)
      else
        (case upeer st of
           None \<Rightarrow>
             (case map_of (uapi_device_keys env) key of
                Some f \<Rightarrow> go_map (\<lambda>d. st\<lparr>udev := d\<rparr>) (f value (udev st))
              | None \<Rightarrow> Go st)
         | Some i \<Rightarrow>
             (case map_of (uapi_peer_keys env) key of
                Some f \<Rightarrow> on_upeer i (f value) st
              | None \<Rightarrow> Go st)))"

text \<open>The loop: the device, or the non-zero return code with which it was released.\<close>

definition uapi_finish :: "int \<Rightarrow> wgdevice \<Rightarrow> int + wgdevice" where
  "uapi_finish ret d = (if ret \<noteq> 0 then Inl ret else Inr d)"

function get_reply :: "uapi_env \<Rightarrow> string \<Rightarrow> uapi_state \<Rightarrow> int + wgdevice" where
  "get_reply env input st =
     (case getline input of
        None \<Rightarrow> Inl (- EPROTO)
      | Some (l, rest) \<Rightarrow>
          (let line = c_str l
           in if line = [newline] then uapi_finish (uret st) (udev st)
              else (case strchr line CHR ''='' of
                      None \<Rightarrow> Inl (- EPROTO)
                    | Some eq \<Rightarrow>
                        if line = [] \<or> last line \<noteq> newline then Inl (- EPROTO)
                        else (case uapi_line env (takeWhile (\<lambda>c. c \<noteq> CHR ''='') line) (butlast (tl eq)) st of
                                Break \<Rightarrow> Inl (- EPROTO)
                              | Err r \<Rightarrow> uapi_finish r (udev st)
                              | Go st' \<Rightarrow> get_reply env rest st'))))"
  by pat_completeness auto
termination
  by (relation "measure (\<lambda>(_, input, _). length input)") (auto dest: getline_shorter)

definition userspace_get_device :: "uapi_env \<Rightarrow> string \<Rightarrow> int + wgdevice" where
  "userspace_get_device env iface =
     (case interface_file env iface of
        Inl e \<Rightarrow> Inl (- e)
      | Inr daemon \<Rightarrow>
          let (reply, _) = daemon (''get=1'' @ [newline, newline])
          in get_reply env reply \<lparr>udev = set_dev_name iface zero_device, upeer = None, uaip = None, uret = - EPROTO\<rparr>)"

end
