(* ===== verification/UapiFacts.thy ===== *)
theory UapiFacts
  imports Uapi
begin

text \<open>
  Lemmas on the userspace protocol: how the parser of answers reads back the lines that the writer of
  requests produces. \<open>uapi_lines\<close> runs the line branches over a list of keys and values, and
  \<open>peer_lines\<close> the branches that work on the current peer.
\<close>

section \<open>Lines\<close>

text \<open>Keys and values that survive being written as a line.\<close>

definition line_safe :: "string \<Rightarrow> bool" where
  "line_safe v \<longleftrightarrow> newline \<notin> set v \<and> NUL \<notin> set v"

definition good_kv :: "string \<times> string \<Rightarrow> bool" where
  "good_kv kv \<longleftrightarrow> line_safe (fst kv) \<and> CHR ''='' \<notin> set (fst kv) \<and> line_safe (snd kv)"

fun go_bind :: "'a uapi_step \<Rightarrow> ('a \<Rightarrow> 'b uapi_step) \<Rightarrow> 'b uapi_step" where
  "go_bind (Go x) f = f x"
| "go_bind Break f = Break"
| "go_bind (Err r) f = Err r"

fun kv_lines :: "(string \<Rightarrow> string \<Rightarrow> 's \<Rightarrow> 's uapi_step) \<Rightarrow> kvs \<Rightarrow> 's \<Rightarrow> 's uapi_step" where
  "kv_lines line [] st = Go st"
| "kv_lines line ((k, v) # ls) st = go_bind (line k v st) (kv_lines line ls)"

abbreviation uapi_lines :: "uapi_env \<Rightarrow> kvs \<Rightarrow> uapi_state \<Rightarrow> uapi_state uapi_step" where
  "uapi_lines env \<equiv> kv_lines (uapi_line env)"

lemma go_bind_assoc [simp]: "go_bind (go_bind x f) g = go_bind x (\<lambda>y. go_bind (f y) g)"
  by (cases x) auto

lemma go_map_go_map [simp]: "go_map f (go_map g x) = go_map (\<lambda>y. f (g y)) x"
  by (cases x) auto

lemma go_bind_Go_iff: "go_bind x f = Go y \<longleftrightarrow> (\<exists>z. x = Go z \<and> f z = Go y)"
  by (cases x) auto

lemma kv_lines_append: "kv_lines line (xs @ ys) st = go_bind (kv_lines line xs st) (kv_lines line ys)"
  by (induction xs arbitrary: st) (auto intro!: arg_cong [where f = "go_bind _"] ext)

lemma line_safe_append [simp]: "line_safe (a @ b) \<longleftrightarrow> line_safe a \<and> line_safe b"
  by (auto simp: line_safe_def)

lemma line_safe_Nil [simp]: "line_safe []"
  by (simp add: line_safe_def)

lemma line_safe_Cons [simp]: "line_safe (c # s) \<longleftrightarrow> c \<noteq> newline \<and> c \<noteq> NUL \<and> line_safe s"
  by (auto simp: line_safe_def)

lemma CHR_neq_ctrl [simp]:
  "(48 :: nat) \<le> of_char c \<Longrightarrow> c \<noteq> newline" "(48 :: nat) \<le> of_char c \<Longrightarrow> c \<noteq> NUL"
  by (auto simp: newline_def NUL_def)

lemma line_safe_digits: "b \<le> 16 \<Longrightarrow> list_all (is_digit_of b) s \<Longrightarrow> line_safe s"
proof (induction s)
  case (Cons c s)
  then have "digit_val c < 16" by (simp add: is_digit_of_def)
  then have "c \<noteq> newline" "c \<noteq> NUL" by (auto simp: digit_val_def newline_def NUL_def)
  then show ?case using Cons by simp
qed simp

lemma line_safe_print_u [simp]: "line_safe (print_u n)"
  using line_safe_digits [of 10, OF _ list_all_print_radix] by simp

lemma list_all_key_to_hex: "list_all (is_digit_of 16) (key_to_hex k)"
proof -
  have "unat b div 16 < 16" for b :: u8 using u8_bound [of b] by auto
  then show ?thesis unfolding key_to_hex_eq by (auto simp: list_all_iff)
qed

lemma line_safe_key_to_hex [simp]: "line_safe (key_to_hex k)"
  by (rule line_safe_digits [of 16, OF _ list_all_key_to_hex]) simp

lemma getline_line:
  assumes "line_safe s"
  shows "getline (s @ newline # rest) = Some (s @ [newline], rest)"
  using assms by (simp add: getline_def Let_def line_safe_def)

lemma c_str_line: "line_safe s \<Longrightarrow> c_str (s @ [newline]) = s @ [newline]"
  by (rule c_str_id) (auto simp: no_nul_def line_safe_def newline_def NUL_def)

lemma uapi_text_simps [simp]:
  "uapi_text [] = []"
  "uapi_text ((k, v) # ls) = k @ CHR ''='' # v @ newline # uapi_text ls"
  "uapi_text (xs @ ys) = uapi_text xs @ uapi_text ys"
  by (simp_all add: uapi_text_def)

declare get_reply.simps [simp del] set_reply.simps [simp del]

lemma kv_line:
  assumes "good_kv (k, v)"
  shows "getline (k @ CHR ''='' # v @ newline # rest) = Some (k @ CHR ''='' # v @ [newline], rest)"
    and "c_str (k @ CHR ''='' # v @ [newline]) = k @ CHR ''='' # v @ [newline]"
    and "strchr (k @ CHR ''='' # v @ [newline]) CHR ''='' = Some (CHR ''='' # v @ [newline])"
    and "takeWhile (\<lambda>c. c \<noteq> CHR ''='') (k @ CHR ''='' # v @ [newline]) = k"
proof -
  have s: "line_safe (k @ CHR ''='' # v)" "CHR ''='' \<notin> set k"
    using assms by (auto simp: good_kv_def newline_def NUL_def)
  show "getline (k @ CHR ''='' # v @ newline # rest) = Some (k @ CHR ''='' # v @ [newline], rest)"
    using getline_line [OF s(1), of rest] by simp
  show "c_str (k @ CHR ''='' # v @ [newline]) = k @ CHR ''='' # v @ [newline]"
    using c_str_line [OF s(1)] by simp
  show "strchr (k @ CHR ''='' # v @ [newline]) CHR ''='' = Some (CHR ''='' # v @ [newline])"
    using s(2) by (rule strchr_first)
  show "takeWhile (\<lambda>c. c \<noteq> CHR ''='') (k @ CHR ''='' # v @ [newline]) = k"
    using s(2) by simp
qed

lemma get_reply_kv:
  assumes "good_kv (k, v)"
  shows "get_reply env (k @ CHR ''='' # v @ newline # rest) st =
    (case uapi_line env k v st of Break \<Rightarrow> Inl (- EPROTO) | Err r \<Rightarrow> uapi_finish r (udev st)
     | Go st' \<Rightarrow> get_reply env rest st')"
  using kv_line [OF assms] by (subst get_reply.simps) (simp split: uapi_step.split)

lemma get_reply_blank: "get_reply env (newline # rest) st = uapi_finish (uret st) (udev st)"
  by (subst get_reply.simps) (simp add: getline_def c_str_def)

lemma get_reply_lines:
  assumes "list_all good_kv ls" and "uapi_lines env ls st = Go st'"
  shows "get_reply env (uapi_text ls @ rest) st = get_reply env rest st'"
  using assms
proof (induction ls arbitrary: st)
  case (Cons kv ls)
  then show ?case by (cases kv) (auto simp: get_reply_kv go_bind_Go_iff)
qed simp

lemma set_reply_kv:
  assumes "good_kv (k, v)" and "k \<noteq> ''errno''"
  shows "set_reply rd (k @ CHR ''='' # v @ newline # rest) e = set_reply rd rest e"
  using kv_line [OF assms(1)] assms(2) by (subst set_reply.simps) simp

section \<open>Numbers\<close>

lemma uapi_num_print [simp]:
  assumes "n \<le> bound" and "bound \<le> ULONG_MAX"
  shows "uapi_num bound (print_u n) = Some n"
proof -
  have "is_digit_of 10 (char_at (print_u n) 0)"
    using print_radix_digits [of 10 n] by (simp add: digit_first_iff)
  then show ?thesis using assms by (simp add: uapi_num_def)
qed

lemma uapi_num_unat [simp]:
  "uapi_num 0xffff (print_u (unat (w :: u16))) = Some (unat w)"
  "uapi_num 0xffffffff (print_u (unat (x :: u32))) = Some (unat x)"
  "uapi_num 0xffffffffffffffff (print_u (unat (y :: u64))) = Some (unat y)"
  using unsigned_less [where 'a = nat, of w] unsigned_less [where 'a = nat, of x] unsigned_less [where 'a = nat, of y]
  by (auto intro!: uapi_num_print simp: ULONG_MAX_def)

lemma uapi_num_bound: "uapi_num bound v = Some n \<Longrightarrow> n \<le> bound"
  by (auto simp: uapi_num_def split: if_splits prod.splits)

section \<open>The branches of the current peer\<close>

text \<open>The state whose current peer is \<open>p\<close>, the last of the list.\<close>

definition at_peer :: "uapi_state \<Rightarrow> wgpeer list \<Rightarrow> peer_state \<Rightarrow> uapi_state" where
  "at_peer st ps pc = st\<lparr>udev := (udev st)\<lparr>peers := ps @ [fst pc]\<rparr>, upeer := Some (length ps), uaip := snd pc\<rparr>"

definition uapi_peer_line :: "uapi_env \<Rightarrow> string \<Rightarrow> string \<Rightarrow> peer_state \<Rightarrow> peer_state uapi_step" where
  "uapi_peer_line env k v pc = (case map_of (uapi_peer_keys env) k of Some f \<Rightarrow> f v pc | None \<Rightarrow> Go pc)"

abbreviation peer_lines :: "uapi_env \<Rightarrow> kvs \<Rightarrow> peer_state \<Rightarrow> peer_state uapi_step" where
  "peer_lines env \<equiv> kv_lines (uapi_peer_line env)"

lemma uapi_line_at_peer:
  assumes "k \<noteq> ''public_key''" and "k \<noteq> ''errno''"
  shows "uapi_line env k v (at_peer st ps pc) = go_map (at_peer st ps) (uapi_peer_line env k v pc)"
proof (cases "map_of (uapi_peer_keys env) k")
  case None
  then show ?thesis using assms by (simp add: uapi_line_def at_peer_def uapi_peer_line_def)
next
  case (Some f)
  have "uapi_line env k v (at_peer st ps pc) = on_upeer (length ps) (f v) (at_peer st ps pc)"
    using assms Some by (simp add: uapi_line_def at_peer_def)
  also have "\<dots> = go_map (at_peer st ps) (f v pc)"
    by (cases "f v pc") (auto simp: on_upeer_def at_peer_def)
  finally show ?thesis using Some by (simp add: uapi_peer_line_def)
qed

lemma uapi_lines_at_peer:
  assumes "list_all (\<lambda>kv. fst kv \<noteq> ''public_key'' \<and> fst kv \<noteq> ''errno'') ls"
  shows "uapi_lines env ls (at_peer st ps pc) = go_map (at_peer st ps) (peer_lines env ls pc)"
  using assms
proof (induction ls arbitrary: pc)
  case (Cons kv ls)
  then show ?case
    by (cases kv; cases "uapi_peer_line env (fst kv) (snd kv) pc") (simp_all add: uapi_line_at_peer)
qed simp

lemma uapi_peer_line_keys [simp]:
  "uapi_peer_line env ''preshared_key'' v (p, cur) = go_or_break (\<lambda>k. (if key_is_zero k then p\<lparr>preshared_key := k\<rparr>
     else peer_or WGPEER_HAS_PRESHARED_KEY (p\<lparr>preshared_key := k\<rparr>), cur)) (key_from_hex v)"
  "uapi_peer_line env ''endpoint'' v (p, cur) = go_map (\<lambda>a. (p\<lparr>endpoint := a\<rparr>, cur)) (uapi_endpoint (sys env) v)"
  "uapi_peer_line env ''transport'' v (p, cur) = Go (peer_or WGPEER_HAS_TRANSPORT (p\<lparr>transport := uapi_transport v\<rparr>), cur)"
  "uapi_peer_line env ''ws_url'' v (p, cur) = Go (p\<lparr>ws_url := Some v\<rparr>, cur)"
  "uapi_peer_line env ''wstunnel_target'' v (p, cur) = Go (p\<lparr>wstunnel_target := Some v\<rparr>, cur)"
  "uapi_peer_line env ''ws_bearer'' v (p, cur) = Go (p\<lparr>ws_bearer := Some v\<rparr>, cur)"
  "uapi_peer_line env ''ws_tls_ca'' v (p, cur) = Go (p\<lparr>ws_tls_ca := Some v\<rparr>, cur)"
  "uapi_peer_line env ''ws_tls_cert'' v (p, cur) = Go (p\<lparr>ws_tls_cert := Some v\<rparr>, cur)"
  "uapi_peer_line env ''ws_tls_key'' v (p, cur) = Go (p\<lparr>ws_tls_key := Some v\<rparr>, cur)"
  "uapi_peer_line env ''ws_mask'' v (p, cur) = Go (p\<lparr>ws_mask := (v = ''true'')\<rparr>, cur)"
  "uapi_peer_line env ''ws_tls_insecure'' v (p, cur) = Go (p\<lparr>ws_tls_insecure := (v = ''true'')\<rparr>, cur)"
  "uapi_peer_line env ''ws_ping_interval'' v (p, cur) = go_or_break (\<lambda>n. (p\<lparr>ws_ping_interval_ms := word_of_nat n\<rparr>, cur)) (uapi_num 0xffffffff v)"
  "uapi_peer_line env ''ws_backoff_min'' v (p, cur) = go_or_break (\<lambda>n. (p\<lparr>ws_backoff_min_ms := word_of_nat n\<rparr>, cur)) (uapi_num 0xffffffff v)"
  "uapi_peer_line env ''ws_backoff_max'' v (p, cur) = go_or_break (\<lambda>n. (p\<lparr>ws_backoff_max_ms := word_of_nat n\<rparr>, cur)) (uapi_num 0xffffffff v)"
  "uapi_peer_line env ''persistent_keepalive_interval'' v (p, cur) = go_or_break (\<lambda>n. (peer_or WGPEER_HAS_PERSISTENT_KEEPALIVE_INTERVAL
     (p\<lparr>persistent_keepalive_interval := word_of_nat n\<rparr>), cur)) (uapi_num 0xffff v)"
  "uapi_peer_line env ''allowed_ip'' v (p, cur) = uapi_allowedip (sys env) v (p, cur)"
  "uapi_peer_line env ''replace_allowed_ips'' v (p, cur) = Go (p, cur)"
  by (simp_all add: uapi_peer_line_def uapi_peer_keys_def on_peer_def go_or_break_def uapi_dup_def Let_def split: option.split)

section \<open>A device as the daemon lists it\<close>

text \<open>
  What the parser makes of the lines that were written for a peer and for a device: only what the
  flags announce, and the public key computed from the private key.
\<close>

definition sends_ws :: "wgpeer \<Rightarrow> bool" where
  "sends_ws p \<longleftrightarrow> transport p \<noteq> WGPEER_TRANSPORT_UDP
     \<or> (peer_has p WGPEER_HAS_WS_SETTINGS \<and> \<not> peer_has p WGPEER_HAS_TRANSPORT)"

definition when_flag :: "bool \<Rightarrow> u32 \<Rightarrow> u32" where
  "when_flag c b = (if c then b else 0)"

definition echoed_peer :: "wgpeer \<Rightarrow> wgpeer" where
  "echoed_peer p =
     zero_peer\<lparr>
       peer_flags := WGPEER_HAS_PUBLIC_KEY
         OR when_flag (peer_has p WGPEER_HAS_PRESHARED_KEY \<and> \<not> key_is_zero (preshared_key p)) WGPEER_HAS_PRESHARED_KEY
         OR when_flag (peer_has p WGPEER_HAS_TRANSPORT) WGPEER_HAS_TRANSPORT
         OR when_flag (peer_has p WGPEER_HAS_PERSISTENT_KEEPALIVE_INTERVAL) WGPEER_HAS_PERSISTENT_KEEPALIVE_INTERVAL,
       peer_public_key := peer_public_key p,
       preshared_key := if peer_has p WGPEER_HAS_PRESHARED_KEY then preshared_key p else zero_key,
       endpoint := endpoint p,
       persistent_keepalive_interval :=
         if peer_has p WGPEER_HAS_PERSISTENT_KEEPALIVE_INTERVAL then persistent_keepalive_interval p else 0,
       transport := if peer_has p WGPEER_HAS_TRANSPORT then transport p else WGPEER_TRANSPORT_UDP,
       ws_url := if sends_ws p then ws_url p else None,
       wstunnel_target := if sends_ws p then wstunnel_target p else None,
       ws_bearer := if sends_ws p then ws_bearer p else None,
       ws_tls_ca := if sends_ws p then ws_tls_ca p else None,
       ws_tls_cert := if sends_ws p then ws_tls_cert p else None,
       ws_tls_key := if sends_ws p then ws_tls_key p else None,
       ws_ping_interval_ms := if sends_ws p then ws_ping_interval_ms p else 0,
       ws_backoff_min_ms := if sends_ws p then ws_backoff_min_ms p else 0,
       ws_backoff_max_ms := if sends_ws p then ws_backoff_max_ms p else 0,
       ws_mask := sends_ws p \<and> ws_mask p,
       ws_tls_insecure := sends_ws p \<and> ws_tls_insecure p,
       allowedips := allowedips p\<rparr>"

definition when_str :: "bool \<Rightarrow> string option \<Rightarrow> string option" where
  "when_str c s = (if c then Some (str_or_empty s) else None)"

definition echoed_device :: "uapi_env \<Rightarrow> string \<Rightarrow> wgdevice \<Rightarrow> wgdevice" where
  "echoed_device env iface d =
     (set_dev_name iface zero_device)\<lparr>
       dev_flags :=
         when_flag (dev_has d WGDEVICE_HAS_PRIVATE_KEY) (WGDEVICE_HAS_PRIVATE_KEY OR WGDEVICE_HAS_PUBLIC_KEY)
         OR when_flag (dev_has d WGDEVICE_HAS_LISTEN_PORT) WGDEVICE_HAS_LISTEN_PORT
         OR when_flag (dev_has d WGDEVICE_HAS_FWMARK) WGDEVICE_HAS_FWMARK
         OR when_flag (dev_has d WGDEVICE_HAS_WS_LISTEN) WGDEVICE_HAS_WS_LISTEN
         OR when_flag (dev_has d WGDEVICE_HAS_WS_SERVER_TLS_CERT) WGDEVICE_HAS_WS_SERVER_TLS_CERT
         OR when_flag (dev_has d WGDEVICE_HAS_WS_SERVER_TLS_KEY) WGDEVICE_HAS_WS_SERVER_TLS_KEY
         OR when_flag (dev_has d WGDEVICE_HAS_WS_SERVER_BEARER) WGDEVICE_HAS_WS_SERVER_BEARER
         OR when_flag (dev_has d WGDEVICE_HAS_WS_TRUSTED_PROXIES) WGDEVICE_HAS_WS_TRUSTED_PROXIES,
       private_key := if dev_has d WGDEVICE_HAS_PRIVATE_KEY then private_key d else zero_key,
       dev_public_key := if dev_has d WGDEVICE_HAS_PRIVATE_KEY then curve25519_generate_public (private_key d) else zero_key,
       listen_port := if dev_has d WGDEVICE_HAS_LISTEN_PORT then listen_port d else 0,
       fwmark := if dev_has d WGDEVICE_HAS_FWMARK then fwmark d else 0,
       ws_listen := when_str (dev_has d WGDEVICE_HAS_WS_LISTEN) (ws_listen d),
       ws_server_tls_cert := when_str (dev_has d WGDEVICE_HAS_WS_SERVER_TLS_CERT) (ws_server_tls_cert d),
       ws_server_tls_key := when_str (dev_has d WGDEVICE_HAS_WS_SERVER_TLS_KEY) (ws_server_tls_key d),
       ws_server_bearer := when_str (dev_has d WGDEVICE_HAS_WS_SERVER_BEARER) (ws_server_bearer d),
       ws_trusted_proxies := when_str (dev_has d WGDEVICE_HAS_WS_TRUSTED_PROXIES) (ws_trusted_proxies d),
       peers := map echoed_peer (peers d)\<rparr>"

text \<open>
  What the round trip relies on: the strings hold no newline, no entry is marked for removal, and the
  numeric forms of the addresses are read back by the resolver and by \<open>inet_pton\<close>.
\<close>

definition echo_allowedip :: "uapi_env \<Rightarrow> wgallowedip \<Rightarrow> bool" where
  "echo_allowedip env a \<longleftrightarrow> valid_prefix a \<and> aip_flags a = 0 \<and>
     (if family a = AF_INET
      then (\<exists>s. inet_ntop4 env (ip4 a) = Some s \<and> inet_pton4 (sys env) s = Some (ip4 a) \<and> line_safe s
              \<and> CHR ''/'' \<notin> set s \<and> CHR '':'' \<notin> set s) \<and> ip_words a = [ip4 a, 0, 0, 0]
      else (\<exists>s. inet_ntop6 env (ip_words a) = Some s \<and> inet_pton6 (sys env) s = Some (ip_words a) \<and> line_safe s
              \<and> CHR ''/'' \<notin> set s \<and> CHR '':'' \<in> set s))"

definition echo_endpoint :: "uapi_env \<Rightarrow> sockaddr \<Rightarrow> bool" where
  "echo_endpoint env a \<longleftrightarrow> a \<noteq> Sa_none \<longrightarrow>
     (\<exists>h s r. getnameinfo env a = Some (h, s) \<and> line_safe h \<and> line_safe s \<and> s \<noteq> []
        \<and> CHR ''['' \<notin> set h \<and> CHR '']'' \<notin> set h \<and> CHR '':'' \<notin> set s
        \<and> getaddrinfo (sys env) (Some h) s 0 = Inr r \<and> (is_inet r \<or> is_inet6 r) \<and> ai_addr r = a)"

definition opt_safe :: "string option \<Rightarrow> bool" where
  "opt_safe s \<longleftrightarrow> line_safe (str_or_empty s)"

definition echo_peer :: "uapi_env \<Rightarrow> wgpeer \<Rightarrow> bool" where
  "echo_peer env p \<longleftrightarrow> \<not> peer_has p WGPEER_REMOVE_ME \<and> wf_key (peer_public_key p) \<and> wf_key (preshared_key p)
     \<and> echo_endpoint env (endpoint p) \<and> list_all (echo_allowedip env) (allowedips p)
     \<and> list_all opt_safe [ws_url p, wstunnel_target p, ws_bearer p, ws_tls_ca p, ws_tls_cert p, ws_tls_key p]"

definition echo_device :: "uapi_env \<Rightarrow> wgdevice \<Rightarrow> bool" where
  "echo_device env d \<longleftrightarrow> wf_key (private_key d) \<and> list_all (echo_peer env) (peers d)
     \<and> list_all opt_safe [ws_listen d, ws_server_tls_cert d, ws_server_tls_key d, ws_server_bearer d, ws_trusted_proxies d]"

section \<open>Reading back an allowed IP and an endpoint\<close>

lemma char_at_print_u_digit [simp]: "is_digit_of 10 (char_at (print_u n) 0)"
  using print_radix_digits [of 10 n] by (simp add: digit_first_iff)

lemma uapi_allowedip_read:
  assumes "CHR ''/'' \<notin> set ip" and "n \<le> ULONG_MAX"
    and "if CHR '':'' \<in> set ip then inet_pton6 env ip = Some w else inet_pton4 env ip = Some x"
  shows "uapi_allowedip env (ip @ CHR ''/'' # print_u n) (p, cur) =
    (let a = (if CHR '':'' \<in> set ip then zero_allowedip\<lparr>ip_words := w, family := AF_INET6, cidr := word_of_nat n\<rparr>
              else (set_ip4 x zero_allowedip)\<lparr>family := AF_INET, cidr := word_of_nat n\<rparr>)
     in if (word_of_nat n :: u8) > (if CHR '':'' \<in> set ip then 128 else 32) then Break
        else Go (p\<lparr>allowedips := link_after cur a (allowedips p)\<rparr>, cursor_next cur))"
  using assms
  by (simp add: uapi_allowedip_def strsep_delim Let_def strchr_None_iff af_defs zero_allowedip_def set_ip4_def)

lemma word_of_nat_unat_8: "unat (c :: u8) \<le> ULONG_MAX"
  using unsigned_less [where 'a = nat, of c] by (simp add: ULONG_MAX_def)

lemma peer_lines_allowedip:
  assumes "echo_allowedip env a" and "cursor_ok cur (allowedips p)"
  shows "peer_lines env (allowedip_kvs env a) (p, cur) = Go (p\<lparr>allowedips := allowedips p @ [a]\<rparr>, cursor_next cur)"
proof (cases "family a = AF_INET")
  case True
  obtain s where s: "inet_ntop4 env (ip4 a) = Some s" "inet_pton4 (sys env) s = Some (ip4 a)" "CHR ''/'' \<notin> set s" "CHR '':'' \<notin> set s"
    "ip_words a = [ip4 a, 0, 0, 0]" "aip_flags a = 0" "cidr a \<le> 32"
    using assms(1) True by (auto simp: echo_allowedip_def valid_prefix_def af_defs word_le_nat_alt)
  have "(set_ip4 (ip4 a) zero_allowedip)\<lparr>family := AF_INET, cidr := cidr a\<rparr> = a"
    using s(5,6) True by (cases a) (simp add: zero_allowedip_def set_ip4_def eval_nat_numeral)
  then show ?thesis
    using True s assms(2) uapi_allowedip_read [of s "unat (cidr a)" "sys env" _ "ip4 a" p cur] word_of_nat_unat_8
    by (simp add: allowedip_kvs_def link_after_append Let_def)
next
  case False
  obtain s where s: "inet_ntop6 env (ip_words a) = Some s" "inet_pton6 (sys env) s = Some (ip_words a)" "CHR ''/'' \<notin> set s" "CHR '':'' \<in> set s"
    "aip_flags a = 0" "cidr a \<le> 128" and f: "family a = AF_INET6"
    using assms(1) False by (auto simp: echo_allowedip_def valid_prefix_def af_defs word_le_nat_alt)
  have "zero_allowedip\<lparr>ip_words := ip_words a, family := AF_INET6, cidr := cidr a\<rparr> = a"
    using s(5) f by (cases a) (simp add: zero_allowedip_def)
  then show ?thesis
    using f s assms(2) False uapi_allowedip_read [of s "unat (cidr a)" "sys env" "ip_words a" _ p cur] word_of_nat_unat_8
    by (simp add: allowedip_kvs_def link_after_append Let_def)
qed

lemma peer_lines_allowedips:
  assumes "list_all (echo_allowedip env) as" and "cursor_ok cur (allowedips p)"
  shows "\<exists>cur'. peer_lines env (concat (map (allowedip_kvs env) as)) (p, cur) = Go (p\<lparr>allowedips := allowedips p @ as\<rparr>, cur')"
  using assms
proof (induction as arbitrary: p cur)
  case (Cons a as)
  then have "\<exists>cur'. peer_lines env (concat (map (allowedip_kvs env) as)) (p\<lparr>allowedips := allowedips p @ [a]\<rparr>, cursor_next cur)
      = Go (p\<lparr>allowedips := allowedips p @ a # as\<rparr>, cur')"
    using Cons.IH [of "cursor_next cur" "p\<lparr>allowedips := allowedips p @ [a]\<rparr>"] cursor_ok_next [of cur "allowedips p" a] by simp
  then show ?case using Cons.prems by (simp add: kv_lines_append peer_lines_allowedip)
qed simp

lemma peer_lines_endpoint:
  assumes "echo_endpoint env a" and "endpoint p = Sa_none"
  shows "peer_lines env (endpoint_kvs env a) (p, cur) = Go (p\<lparr>endpoint := a\<rparr>, cur)"
proof (cases "a = Sa_none")
  case True
  then show ?thesis using assms(2) by (simp add: endpoint_kvs_def)
next
  case False
  then obtain h s r where e: "getnameinfo env a = Some (h, s)" "s \<noteq> []" "CHR ''['' \<notin> set h" "CHR '']'' \<notin> set h" "CHR '':'' \<notin> set s"
    "getaddrinfo (sys env) (Some h) s 0 = Inr r" "is_inet r \<or> is_inet6 r" "ai_addr r = a"
    using assms(1) by (auto simp: echo_endpoint_def)
  have "h = [] \<or> hd h \<noteq> CHR ''[''" using e(3) by (cases h) auto
  then have "split_endpoint (h @ CHR '':'' # s) = Inr (h, s)" "split_endpoint (CHR ''['' # h @ CHR '']'' # CHR '':'' # s) = Inr (h, s)"
    using e(2,4,5) by (simp_all add: split_endpoint_plain split_endpoint_bracket)
  then show ?thesis using False e by (simp add: endpoint_kvs_def uapi_endpoint_def)
qed

section \<open>Reading back a peer\<close>

lemma go_bind_Go [simp]: "go_bind x Go = x" "go_bind x (\<lambda>y. Go y) = x"
  by (cases x; simp)+

lemma kv_lines_Nil [simp]: "kv_lines line [] = Go"
  by (rule ext) simp

lemma kv_lines_emit [simp]:
  "kv_lines line (emit_if c k v) st = (if c then line k v st else Go st)"
  "kv_lines line (emit_opt k s) st = (case s of None \<Rightarrow> Go st | Some v \<Rightarrow> line k v st)"
  by (auto simp: emit_if_def emit_opt_def split: option.split)

lemma go_or_break_Some [simp]: "go_or_break f (Some x) = Go (f x)"
  by (simp add: go_or_break_def)

lemma uapi_transport_name [simp]: "uapi_transport (transport_name t) = t"
  by (cases t) (simp_all add: uapi_transport_def transport_name_def)

definition ws_fields :: "wgpeer \<Rightarrow> wgpeer \<Rightarrow> wgpeer" where
  "ws_fields p q = q\<lparr>ws_url := ws_url p, wstunnel_target := wstunnel_target p, ws_bearer := ws_bearer p,
     ws_tls_ca := ws_tls_ca p, ws_tls_cert := ws_tls_cert p, ws_tls_key := ws_tls_key p,
     ws_ping_interval_ms := ws_ping_interval_ms p, ws_backoff_min_ms := ws_backoff_min_ms p,
     ws_backoff_max_ms := ws_backoff_max_ms p, ws_mask := ws_mask p, ws_tls_insecure := ws_tls_insecure p\<rparr>"

text \<open>A setting that the peer does not have yet becomes what was written.\<close>

lemma unset_field:
  "ws_url q = None \<Longrightarrow> q\<lparr>ws_url := None\<rparr> = q" "wstunnel_target q = None \<Longrightarrow> q\<lparr>wstunnel_target := None\<rparr> = q"
  "ws_bearer q = None \<Longrightarrow> q\<lparr>ws_bearer := None\<rparr> = q" "ws_tls_ca q = None \<Longrightarrow> q\<lparr>ws_tls_ca := None\<rparr> = q"
  "ws_tls_cert q = None \<Longrightarrow> q\<lparr>ws_tls_cert := None\<rparr> = q" "ws_tls_key q = None \<Longrightarrow> q\<lparr>ws_tls_key := None\<rparr> = q"
  "\<not> ws_mask q \<Longrightarrow> q\<lparr>ws_mask := False\<rparr> = q" "\<not> ws_tls_insecure q \<Longrightarrow> q\<lparr>ws_tls_insecure := False\<rparr> = q"
  "ws_ping_interval_ms q = 0 \<Longrightarrow> q\<lparr>ws_ping_interval_ms := 0\<rparr> = q"
  "ws_backoff_min_ms q = 0 \<Longrightarrow> q\<lparr>ws_backoff_min_ms := 0\<rparr> = q"
  "ws_backoff_max_ms q = 0 \<Longrightarrow> q\<lparr>ws_backoff_max_ms := 0\<rparr> = q"
  by (cases q; simp)+

lemma peer_lines_emit_field:
  "ws_url q = None \<Longrightarrow> peer_lines env (emit_opt ''ws_url'' s) (q, cur) = Go (q\<lparr>ws_url := s\<rparr>, cur)"
  "wstunnel_target q = None \<Longrightarrow> peer_lines env (emit_opt ''wstunnel_target'' s) (q, cur) = Go (q\<lparr>wstunnel_target := s\<rparr>, cur)"
  "ws_bearer q = None \<Longrightarrow> peer_lines env (emit_opt ''ws_bearer'' s) (q, cur) = Go (q\<lparr>ws_bearer := s\<rparr>, cur)"
  "ws_tls_ca q = None \<Longrightarrow> peer_lines env (emit_opt ''ws_tls_ca'' s) (q, cur) = Go (q\<lparr>ws_tls_ca := s\<rparr>, cur)"
  "ws_tls_cert q = None \<Longrightarrow> peer_lines env (emit_opt ''ws_tls_cert'' s) (q, cur) = Go (q\<lparr>ws_tls_cert := s\<rparr>, cur)"
  "ws_tls_key q = None \<Longrightarrow> peer_lines env (emit_opt ''ws_tls_key'' s) (q, cur) = Go (q\<lparr>ws_tls_key := s\<rparr>, cur)"
  "\<not> ws_mask q \<Longrightarrow> peer_lines env (emit_if c ''ws_mask'' ''true'') (q, cur) = Go (q\<lparr>ws_mask := c\<rparr>, cur)"
  "\<not> ws_tls_insecure q \<Longrightarrow> peer_lines env (emit_if c ''ws_tls_insecure'' ''true'') (q, cur) = Go (q\<lparr>ws_tls_insecure := c\<rparr>, cur)"
  "ws_ping_interval_ms q = 0 \<Longrightarrow>
     peer_lines env (emit_if (w \<noteq> 0) ''ws_ping_interval'' (print_u (unat w))) (q, cur) = Go (q\<lparr>ws_ping_interval_ms := w\<rparr>, cur)"
  "ws_backoff_min_ms q = 0 \<Longrightarrow>
     peer_lines env (emit_if (w \<noteq> 0) ''ws_backoff_min'' (print_u (unat w))) (q, cur) = Go (q\<lparr>ws_backoff_min_ms := w\<rparr>, cur)"
  "ws_backoff_max_ms q = 0 \<Longrightarrow>
     peer_lines env (emit_if (w \<noteq> 0) ''ws_backoff_max'' (print_u (unat w))) (q, cur) = Go (q\<lparr>ws_backoff_max_ms := w\<rparr>, cur)"
  by (simp_all add: unset_field split: option.split)

lemma peer_lines_emit_flagged:
  "peer_lines env (emit_if c ''transport'' (transport_name t)) (q, cur) =
     Go (if c then peer_or WGPEER_HAS_TRANSPORT (q\<lparr>transport := t\<rparr>) else q, cur)"
  "peer_lines env (emit_if c ''persistent_keepalive_interval'' (print_u (unat x))) (q, cur) =
     Go (if c then peer_or WGPEER_HAS_PERSISTENT_KEEPALIVE_INTERVAL (q\<lparr>persistent_keepalive_interval := x\<rparr>) else q, cur)"
  "peer_lines env (emit_if c ''replace_allowed_ips'' v) (q, cur) = Go (q, cur)"
  "wf_key k \<Longrightarrow> peer_lines env (emit_if c ''preshared_key'' (key_to_hex k)) (q, cur) =
     Go (if \<not> c then q else if key_is_zero k then q\<lparr>preshared_key := k\<rparr> else peer_or WGPEER_HAS_PRESHARED_KEY (q\<lparr>preshared_key := k\<rparr>), cur)"
  by (simp_all add: key_from_to_hex)

definition ws_unset :: "wgpeer \<Rightarrow> bool" where
  "ws_unset q \<longleftrightarrow> ws_url q = None \<and> wstunnel_target q = None \<and> ws_bearer q = None \<and> ws_tls_ca q = None
     \<and> ws_tls_cert q = None \<and> ws_tls_key q = None \<and> ws_ping_interval_ms q = 0 \<and> ws_backoff_min_ms q = 0
     \<and> ws_backoff_max_ms q = 0 \<and> \<not> ws_mask q \<and> \<not> ws_tls_insecure q"

lemma peer_lines_ws:
  assumes "ws_unset q"
  shows "peer_lines env (ws_kvs p) (q, cur) = Go (if sends_ws p then ws_fields p q else q, cur)"
  using assms unfolding ws_kvs_def sends_ws_def [symmetric] ws_unset_def
  by (cases q) (simp add: kv_lines_append ws_fields_def peer_lines_emit_field del: kv_lines_emit)

text \<open>The flags and fields that the lines of a peer add to a new peer, one after the other.\<close>

lemma peer_lines_peer:
  assumes "echo_peer env p"
  shows "\<exists>cur. peer_lines env (tl (peer_kvs env p)) (peer_or WGPEER_HAS_PUBLIC_KEY (zero_peer\<lparr>peer_public_key := peer_public_key p\<rparr>), None)
     = Go (echoed_peer p, cur)"
proof -
  have p: "\<not> peer_has p WGPEER_REMOVE_ME" "wf_key (preshared_key p)" "echo_endpoint env (endpoint p)"
    "list_all (echo_allowedip env) (allowedips p)"
    using assms by (simp_all add: echo_peer_def)
  define q0 where "q0 = peer_or WGPEER_HAS_PUBLIC_KEY (zero_peer\<lparr>peer_public_key := peer_public_key p\<rparr>)"
  define q1 where "q1 = (if \<not> peer_has p WGPEER_HAS_PRESHARED_KEY then q0 else if key_is_zero (preshared_key p)
    then q0\<lparr>preshared_key := preshared_key p\<rparr> else peer_or WGPEER_HAS_PRESHARED_KEY (q0\<lparr>preshared_key := preshared_key p\<rparr>))"
  define q2 where "q2 = (if peer_has p WGPEER_HAS_TRANSPORT then peer_or WGPEER_HAS_TRANSPORT (q1\<lparr>transport := transport p\<rparr>) else q1)"
  define q3 where "q3 = (if sends_ws p then ws_fields p (q2\<lparr>endpoint := endpoint p\<rparr>) else q2\<lparr>endpoint := endpoint p\<rparr>)"
  define q4 where "q4 = (if peer_has p WGPEER_HAS_PERSISTENT_KEEPALIVE_INTERVAL
    then peer_or WGPEER_HAS_PERSISTENT_KEEPALIVE_INTERVAL (q3\<lparr>persistent_keepalive_interval := persistent_keepalive_interval p\<rparr>) else q3)"
  note qs = q0_def q1_def q2_def q3_def q4_def peer_or_def zero_peer_def
  have e: "endpoint q2 = Sa_none" "ws_unset (q2\<lparr>endpoint := endpoint p\<rparr>)" "allowedips q4 = []"
    by (simp_all add: qs ws_unset_def ws_fields_def)
  obtain cur where cur: "peer_lines env (concat (map (allowedip_kvs env) (allowedips p))) (q4, None) = Go (q4\<lparr>allowedips := allowedips p\<rparr>, cur)"
    using peer_lines_allowedips [OF p(4), of None q4] e(3) by auto
  have "peer_lines env (tl (peer_kvs env p)) (q0, None) = Go (q4\<lparr>allowedips := allowedips p\<rparr>, cur)"
    using p e cur peer_lines_endpoint [OF p(3) e(1), of None] peer_lines_ws [OF e(2), of env p None]
    by (simp add: peer_kvs_def kv_lines_append peer_lines_emit_flagged q1_def [symmetric] q2_def [symmetric] q3_def [symmetric]
        q4_def [symmetric] del: kv_lines_emit)
  moreover have "q4\<lparr>allowedips := allowedips p\<rparr> = echoed_peer p"
    by (simp add: qs echoed_peer_def ws_fields_def when_flag_def or.assoc)
  ultimately show ?thesis unfolding q0_def by auto
qed

section \<open>Reading back a device\<close>

definition uapi_device_line :: "uapi_env \<Rightarrow> string \<Rightarrow> string \<Rightarrow> wgdevice \<Rightarrow> wgdevice uapi_step" where
  "uapi_device_line env k v d = (case map_of (uapi_device_keys env) k of Some f \<Rightarrow> f v d | None \<Rightarrow> Go d)"

lemma uapi_lines_device:
  assumes "list_all (\<lambda>kv. fst kv \<noteq> ''public_key'' \<and> fst kv \<noteq> ''errno'') ls" and "upeer st = None"
  shows "uapi_lines env ls st = go_map (\<lambda>d. st\<lparr>udev := d\<rparr>) (kv_lines (uapi_device_line env) ls (udev st))"
  using assms
proof (induction ls arbitrary: st)
  case (Cons kv ls)
  obtain k v where kv: "kv = (k, v)" by (cases kv)
  have "uapi_line env k v st = go_map (\<lambda>d. st\<lparr>udev := d\<rparr>) (uapi_device_line env k v (udev st))"
    using Cons.prems kv by (auto simp: uapi_line_def uapi_device_line_def split: option.split)
  then show ?case using Cons kv by (cases "uapi_device_line env k v (udev st)") simp_all
qed simp

lemma unset_device_field:
  "private_key d = zero_key \<Longrightarrow> dev_public_key d = zero_key \<Longrightarrow> d\<lparr>private_key := zero_key, dev_public_key := zero_key\<rparr> = d"
  "listen_port d = 0 \<Longrightarrow> d\<lparr>listen_port := 0\<rparr> = d" "fwmark d = 0 \<Longrightarrow> d\<lparr>fwmark := 0\<rparr> = d"
  "ws_listen d = None \<Longrightarrow> d\<lparr>ws_listen := None\<rparr> = d" "ws_server_tls_cert d = None \<Longrightarrow> d\<lparr>ws_server_tls_cert := None\<rparr> = d"
  "ws_server_tls_key d = None \<Longrightarrow> d\<lparr>ws_server_tls_key := None\<rparr> = d" "ws_server_bearer d = None \<Longrightarrow> d\<lparr>ws_server_bearer := None\<rparr> = d"
  "ws_trusted_proxies d = None \<Longrightarrow> d\<lparr>ws_trusted_proxies := None\<rparr> = d" "dev_or 0 d = d"
  by (cases d; simp add: dev_or_def)+

lemma device_lines_emit:
  "wf_key k \<Longrightarrow> private_key d = zero_key \<Longrightarrow> dev_public_key d = zero_key \<Longrightarrow>
     kv_lines (uapi_device_line env) (emit_if c ''private_key'' (key_to_hex k)) d =
     Go (dev_or (when_flag c (WGDEVICE_HAS_PRIVATE_KEY OR WGDEVICE_HAS_PUBLIC_KEY))
       (d\<lparr>private_key := if c then k else zero_key, dev_public_key := if c then curve25519_generate_public k else zero_key\<rparr>))"
  "listen_port d = 0 \<Longrightarrow> kv_lines (uapi_device_line env) (emit_if c ''listen_port'' (print_u (unat w))) d =
     Go (dev_or (when_flag c WGDEVICE_HAS_LISTEN_PORT) (d\<lparr>listen_port := if c then w else 0\<rparr>))"
  "fwmark d = 0 \<Longrightarrow> kv_lines (uapi_device_line env) (emit_if c ''fwmark'' (print_u (unat x))) d =
     Go (dev_or (when_flag c WGDEVICE_HAS_FWMARK) (d\<lparr>fwmark := if c then x else 0\<rparr>))"
  "ws_listen d = None \<Longrightarrow> kv_lines (uapi_device_line env) (emit_if c ''ws_listen'' (str_or_empty s)) d =
     Go (dev_or (when_flag c WGDEVICE_HAS_WS_LISTEN) (d\<lparr>ws_listen := when_str c s\<rparr>))"
  "ws_server_tls_cert d = None \<Longrightarrow> kv_lines (uapi_device_line env) (emit_if c ''ws_server_tls_cert'' (str_or_empty s)) d =
     Go (dev_or (when_flag c WGDEVICE_HAS_WS_SERVER_TLS_CERT) (d\<lparr>ws_server_tls_cert := when_str c s\<rparr>))"
  "ws_server_tls_key d = None \<Longrightarrow> kv_lines (uapi_device_line env) (emit_if c ''ws_server_tls_key'' (str_or_empty s)) d =
     Go (dev_or (when_flag c WGDEVICE_HAS_WS_SERVER_TLS_KEY) (d\<lparr>ws_server_tls_key := when_str c s\<rparr>))"
  "ws_server_bearer d = None \<Longrightarrow> kv_lines (uapi_device_line env) (emit_if c ''ws_server_bearer'' (str_or_empty s)) d =
     Go (dev_or (when_flag c WGDEVICE_HAS_WS_SERVER_BEARER) (d\<lparr>ws_server_bearer := when_str c s\<rparr>))"
  "ws_trusted_proxies d = None \<Longrightarrow> kv_lines (uapi_device_line env) (emit_if c ''ws_trusted_proxies'' (str_or_empty s)) d =
     Go (dev_or (when_flag c WGDEVICE_HAS_WS_TRUSTED_PROXIES) (d\<lparr>ws_trusted_proxies := when_str c s\<rparr>))"
  "kv_lines (uapi_device_line env) (emit_if c ''replace_peers'' v) d = Go d"
  by (simp_all add: uapi_device_line_def uapi_device_keys_def uapi_dup_def key_from_to_hex unset_device_field when_flag_def when_str_def)

lemma device_lines_device:
  assumes "wf_key (private_key d)"
  shows "kv_lines (uapi_device_line env) (device_kvs d) (set_dev_name iface zero_device) = Go ((echoed_device env iface d)\<lparr>peers := []\<rparr>)"
  using assms
  by (simp add: device_kvs_def kv_lines_append device_lines_emit zero_device_def set_dev_name_def dev_or_def echoed_device_def or.assoc
      del: kv_lines_emit)

lemma list_all_emit [simp]:
  "list_all P (emit_if c k v) \<longleftrightarrow> (c \<longrightarrow> P (k, v))"
  "list_all P (emit_opt k s) \<longleftrightarrow> (case s of None \<Rightarrow> True | Some v \<Rightarrow> P (k, v))"
  by (auto simp: emit_if_def emit_opt_def split: option.splits)

lemma endpoint_kvs_keys: "list_all (\<lambda>kv. fst kv = ''endpoint'') (endpoint_kvs env a)"
  by (simp add: endpoint_kvs_def split: option.split)

lemma allowedip_kvs_keys: "list_all (\<lambda>kv. fst kv = ''allowed_ip'') (concat (map (allowedip_kvs env) as))"
  by (induction as) (simp_all add: allowedip_kvs_def split: option.split)

lemma peer_kvs_keys: "list_all (\<lambda>kv. fst kv \<noteq> ''public_key'' \<and> fst kv \<noteq> ''errno'') (tl (peer_kvs env p))"
proof -
  have e: "list_all (\<lambda>kv. fst kv \<noteq> ''public_key'' \<and> fst kv \<noteq> ''errno'') (endpoint_kvs env (endpoint p))"
    using endpoint_kvs_keys by (rule list.pred_mono_strong) simp
  have a: "list_all (\<lambda>kv. fst kv \<noteq> ''public_key'' \<and> fst kv \<noteq> ''errno'') (concat (map (allowedip_kvs env) (allowedips p)))"
    using allowedip_kvs_keys by (rule list.pred_mono_strong) simp
  have "list_all (\<lambda>kv. fst kv \<noteq> ''public_key'' \<and> fst kv \<noteq> ''errno'') (ws_kvs p)"
    by (simp add: ws_kvs_def option.case_eq_if)
  with e a show ?thesis by (simp add: peer_kvs_def)
qed

lemma uapi_lines_peer:
  assumes "echo_peer env p" and "cursor_ok (upeer st) (peers (udev st))"
  shows "\<exists>st'. uapi_lines env (peer_kvs env p) st = Go st' \<and> udev st' = (udev st)\<lparr>peers := peers (udev st) @ [echoed_peer p]\<rparr>
    \<and> cursor_ok (upeer st') (peers (udev st')) \<and> uret st' = uret st"
proof -
  let ?q = "peer_or WGPEER_HAS_PUBLIC_KEY (zero_peer\<lparr>peer_public_key := peer_public_key p\<rparr>)"
  obtain cur where cur: "peer_lines env (tl (peer_kvs env p)) (?q, None) = Go (echoed_peer p, cur)"
    using peer_lines_peer [OF assms(1)] by auto
  have "cursor_next (upeer st) = Some (length (peers (udev st)))"
    using assms(2) by (auto simp: cursor_ok_def cursor_next_def split: option.splits)
  then have first: "uapi_line env ''public_key'' (key_to_hex (peer_public_key p)) st = Go (at_peer st (peers (udev st)) (?q, None))"
    using assms by (simp add: uapi_line_def echo_peer_def key_from_to_hex link_after_append at_peer_def)
  have head: "peer_kvs env p = (''public_key'', key_to_hex (peer_public_key p)) # tl (peer_kvs env p)"
    by (simp add: peer_kvs_def)
  have step: "uapi_lines env ((''public_key'', key_to_hex (peer_public_key p)) # ls) st
      = uapi_lines env ls (at_peer st (peers (udev st)) (?q, None))" for ls
    using first by simp
  have "uapi_lines env (peer_kvs env p) st = uapi_lines env (tl (peer_kvs env p)) (at_peer st (peers (udev st)) (?q, None))"
    by (subst head) (rule step)
  also have "\<dots> = Go (at_peer st (peers (udev st)) (echoed_peer p, cur))"
    using cur by (simp add: uapi_lines_at_peer [OF peer_kvs_keys])
  finally show ?thesis by (simp add: at_peer_def cursor_ok_def)
qed

lemma uapi_lines_peers:
  assumes "list_all (echo_peer env) ps" and "cursor_ok (upeer st) (peers (udev st))"
  shows "\<exists>st'. uapi_lines env (concat (map (peer_kvs env) ps)) st = Go st'
    \<and> udev st' = (udev st)\<lparr>peers := peers (udev st) @ map echoed_peer ps\<rparr> \<and> uret st' = uret st"
  using assms
proof (induction ps arbitrary: st)
  case (Cons p ps)
  obtain st1 where st1: "uapi_lines env (peer_kvs env p) st = Go st1" "udev st1 = (udev st)\<lparr>peers := peers (udev st) @ [echoed_peer p]\<rparr>"
    "cursor_ok (upeer st1) (peers (udev st1))" "uret st1 = uret st"
    using uapi_lines_peer [of env p st] Cons.prems by auto
  obtain st2 where "uapi_lines env (concat (map (peer_kvs env) ps)) st1 = Go st2"
    "udev st2 = (udev st1)\<lparr>peers := peers (udev st1) @ map echoed_peer ps\<rparr>" "uret st2 = uret st1"
    using Cons.IH [of st1] Cons.prems(1) st1(3) by auto
  then show ?case using st1 by (simp add: kv_lines_append)
qed simp

text \<open>Every line that is written can be read as a line.\<close>

lemma good_kv_const [simp]: "good_kv (k, v) \<longleftrightarrow> line_safe k \<and> CHR ''='' \<notin> set k \<and> line_safe v"
  by (simp add: good_kv_def)

lemma line_safe_literals [simp]:
  "CHR ''.'' \<noteq> newline" "CHR ''.'' \<noteq> NUL" "CHR ''-'' \<noteq> newline" "CHR ''-'' \<noteq> NUL" "CHR ''/'' \<noteq> newline" "CHR ''/'' \<noteq> NUL" "CHR '':'' \<noteq> newline" "CHR '':'' \<noteq> NUL"
  "CHR ''['' \<noteq> newline" "CHR ''['' \<noteq> NUL" "CHR '']'' \<noteq> newline" "CHR '']'' \<noteq> NUL"
  by (simp_all add: newline_def NUL_def)

lemma good_device_kvs: "echo_device env d \<Longrightarrow> list_all good_kv (device_kvs d)"
  by (simp add: device_kvs_def echo_device_def opt_safe_def)

lemma good_endpoint_kvs: "echo_endpoint env a \<Longrightarrow> list_all good_kv (endpoint_kvs env a)"
  by (auto simp: endpoint_kvs_def echo_endpoint_def)

lemma good_allowedip_kvs: "echo_allowedip env a \<Longrightarrow> list_all good_kv (allowedip_kvs env a)"
  by (auto simp: allowedip_kvs_def echo_allowedip_def valid_prefix_def af_defs split: if_splits)

lemma good_allowedips_kvs: "list_all (echo_allowedip env) as \<Longrightarrow> list_all good_kv (concat (map (allowedip_kvs env) as))"
  by (induction as) (simp_all add: good_allowedip_kvs)

lemma good_emit_opt: "opt_safe s \<Longrightarrow> line_safe k \<Longrightarrow> CHR ''='' \<notin> set k \<Longrightarrow> list_all good_kv (emit_opt k s)"
  by (cases s) (simp_all add: opt_safe_def str_or_empty_def)

lemma good_ws_kvs:
  "list_all opt_safe [ws_url p, wstunnel_target p, ws_bearer p, ws_tls_ca p, ws_tls_cert p, ws_tls_key p] \<Longrightarrow> list_all good_kv (ws_kvs p)"
  by (simp add: ws_kvs_def good_emit_opt del: list_all_emit(2))

lemma line_safe_transport_name [simp]: "line_safe (transport_name t)"
  by (simp add: transport_name_def)

lemma good_peer_kvs: "echo_peer env p \<Longrightarrow> list_all good_kv (peer_kvs env p)"
  by (simp add: peer_kvs_def echo_peer_def good_endpoint_kvs good_allowedips_kvs good_ws_kvs)

lemma good_peers_kvs: "list_all (echo_peer env) ps \<Longrightarrow> list_all good_kv (concat (map (peer_kvs env) ps))"
  by (induction ps) (simp_all add: good_peer_kvs)

lemma good_set_kvs: "echo_device env d \<Longrightarrow> list_all good_kv (set_kvs env d)"
  using good_device_kvs [of env d] good_peers_kvs [of env "peers d"] by (simp add: set_kvs_def) (simp add: echo_device_def)

lemma device_kvs_keys: "list_all (\<lambda>kv. fst kv \<noteq> ''public_key'' \<and> fst kv \<noteq> ''errno'') (device_kvs d)"
  by (simp add: device_kvs_def)

lemma uapi_lines_set:
  assumes "echo_device env d"
  shows "\<exists>st. uapi_lines env (set_kvs env d) \<lparr>udev = set_dev_name iface zero_device, upeer = None, uaip = None, uret = r\<rparr> = Go st
    \<and> udev st = echoed_device env iface d"
proof -
  let ?st = "\<lparr>udev = set_dev_name iface zero_device, upeer = None, uaip = None, uret = r\<rparr> :: uapi_state"
  let ?st1 = "?st\<lparr>udev := (echoed_device env iface d)\<lparr>peers := []\<rparr>\<rparr>"
  have d: "uapi_lines env (device_kvs d) ?st = Go ?st1"
    using assms uapi_lines_device [OF device_kvs_keys [of d], of ?st env] by (simp add: device_lines_device echo_device_def)
  have s: "uapi_line env ''set'' ''1'' ?st = Go ?st"
    by (simp add: uapi_line_def uapi_device_keys_def)
  obtain st2 where "uapi_lines env (concat (map (peer_kvs env) (peers d))) ?st1 = Go st2"
    "udev st2 = (udev ?st1)\<lparr>peers := peers (udev ?st1) @ map echoed_peer (peers d)\<rparr>"
    using uapi_lines_peers [of env "peers d" ?st1] assms by (auto simp: echo_device_def)
  moreover have "(echoed_device env iface d)\<lparr>peers := map echoed_peer (peers d)\<rparr> = echoed_device env iface d"
    by (simp add: echoed_device_def)
  ultimately show ?thesis using d s by (simp add: set_kvs_def kv_lines_append)
qed

text \<open>The answer of a daemon that lists what it was sent.\<close>

definition listing :: "uapi_env \<Rightarrow> wgdevice \<Rightarrow> string" where
  "listing env d = uapi_text (set_kvs env d @ [(''errno'', ''0'')]) @ [newline]"

lemma get_reply_listing:
  assumes "echo_device env d"
  shows "get_reply env (listing env d) \<lparr>udev = set_dev_name iface zero_device, upeer = None, uaip = None, uret = r\<rparr>
    = Inr (echoed_device env iface d)"
proof -
  obtain st where st: "uapi_lines env (set_kvs env d) \<lparr>udev = set_dev_name iface zero_device, upeer = None, uaip = None, uret = r\<rparr> = Go st"
    "udev st = echoed_device env iface d"
    using uapi_lines_set [OF assms] by blast
  have "print_u 0 = ''0''" by code_simp
  then have e: "uapi_line env ''errno'' ''0'' st = Go (st\<lparr>uret := 0\<rparr>)"
    using uapi_num_print [of 0 "0x7fffffff"] by (simp add: uapi_line_def ULONG_MAX_def)
  have "good_kv (''errno'', ''0'')" by (simp add: newline_def NUL_def)
  from get_reply_kv [OF this, where env = env and rest = "[newline]" and st = st]
  have "get_reply env (uapi_text [(''errno'', ''0'')] @ [newline]) st = Inr (echoed_device env iface d)"
    using e st(2) by (simp add: get_reply_blank uapi_finish_def)
  then show ?thesis
    using get_reply_lines [OF good_set_kvs [OF assms] st(1)] by (simp add: listing_def)
qed

section \<open>The acknowledgement of a set request\<close>

lemma getline_split:
  assumes "getline input = Some (l, rest)"
  shows "input = l @ rest" and "newline \<notin> set (butlast l)" and "l \<noteq> []"
proof -
  let ?t = "takeWhile (\<lambda>c. c \<noteq> newline) input" and ?r = "dropWhile (\<lambda>c. c \<noteq> newline) input"
  have e: "input \<noteq> []" "l = ?t @ take 1 ?r" "rest = drop 1 ?r"
    using assms by (auto simp: getline_def Let_def split: if_splits)
  then show "input = l @ rest" by simp
  show "l \<noteq> []" using e(1,2) by (cases input) auto
  show "newline \<notin> set (butlast l)"
    using e(2) by (cases ?r) (auto simp: butlast_append dest: in_set_butlastD set_takeWhileD)
qed

lemma c_str_whole_line:
  assumes "newline \<notin> set (butlast l)" and "c_str l \<noteq> []" and "last (c_str l) = newline"
  shows "c_str l = l" and "l = butlast l @ [newline]"
proof -
  obtain r where r: "l = c_str l @ r" unfolding c_str_def by (metis takeWhile_dropWhile_id)
  have "r = []"
  proof (rule ccontr)
    assume "r \<noteq> []"
    then have "set (c_str l) \<subseteq> set (butlast l)" by (subst (2) r) (simp add: butlast_append)
    then show False using assms by (metis last_in_set subsetD)
  qed
  then show "c_str l = l" using r by simp
  then show "l = butlast l @ [newline]" using assms(2,3) by (metis append_butlast_last_id)
qed

lemma no_error_nonzero [simp]: "no_error x \<noteq> 0"
  by (simp add: no_error_def EPROTO_def)

lemmas set_reply_unfold = set_reply.simps [unfolded Let_def]

lemma set_reply_zero:
  assumes "set_reply rd input e = 0" and "e \<noteq> 0"
  shows "\<exists>pre v post. input = pre @ ''errno='' @ v @ newline # post \<and> (pre = [] \<or> last pre = newline) \<and> strtoll 10 v = (0, [])"
  using assms
proof (induction rd input e rule: set_reply.induct)
  case (1 rd input e)
  obtain l rest where g: "getline input = Some (l, rest)"
    using "1.prems" by (cases "getline input") (auto simp: set_reply_unfold [of _ input] split: if_splits)
  note gl = getline_split [OF g]
  have l: "c_str l \<noteq> [newline]" using "1.prems" g by (auto simp: set_reply_unfold [of _ input])
  obtain eq where eq: "strchr (c_str l) CHR ''='' = Some eq"
    using "1.prems" g l by (cases "strchr (c_str l) CHR ''=''") (auto simp: set_reply_unfold [of _ input])
  have n: "c_str l \<noteq> []" "last (c_str l) = newline"
    using "1.prems" g l eq by (auto simp: set_reply_unfold [of _ input] split: if_splits)
  note cl = c_str_whole_line [OF gl(2) n]
  obtain k w where kw: "c_str l = k @ CHR ''='' # w" "eq = CHR ''='' # w" "CHR ''='' \<notin> set k"
    using strchr_Some [OF eq] by blast
  have key: "takeWhile (\<lambda>c. c \<noteq> CHR ''='') (c_str l) = k" using kw by simp
  have w: "w = butlast w @ [newline]"
    using n(2) kw(1) by (cases w rule: rev_cases) (auto simp: newline_def)
  have extend: "\<exists>pre v post. input = pre @ ''errno='' @ v @ newline # post \<and> (pre = [] \<or> last pre = newline) \<and> strtoll 10 v = (0, [])"
    if "\<exists>pre v post. rest = pre @ ''errno='' @ v @ newline # post \<and> (pre = [] \<or> last pre = newline) \<and> strtoll 10 v = (0, [])"
  proof -
    from that obtain pre v post where "rest = pre @ ''errno='' @ v @ newline # post" "pre = [] \<or> last pre = newline" "strtoll 10 v = (0, [])"
      by blast
    then have "input = (l @ pre) @ ''errno='' @ v @ newline # post" "last (l @ pre) = newline" "strtoll 10 v = (0, [])"
      using gl(1) cl n(2) by (auto simp: last_append)
    then show ?thesis by blast
  qed
  show ?case
  proof (cases "k = ''errno''")
    case False
    then have "set_reply rd rest e = 0"
      using "1.prems"(1) g l eq n key by (simp add: set_reply_unfold [of _ input])
    then show ?thesis using "1.IH"(2) [OF g refl refl l eq _ refl refl] n key False "1.prems"(2) extend by simp
  next
    case True
    obtain num tail where num: "strtoll 10 (butlast (tl eq)) = (num, tail)" by (cases "strtoll 10 (butlast (tl eq))")
    have "set_reply rd rest num = 0" "tail = []" "\<not> (num > int INT_MAX \<or> num < INT_MIN)"
      "\<not> (char_at (butlast (tl eq)) 0 \<noteq> CHR ''-'' \<and> \<not> char_is_digit (c_int (char_at (butlast (tl eq)) 0)))"
      using "1.prems"(1) g l eq n key True num
      by (auto simp: set_reply_unfold [of _ input] split: if_splits)
    note r = this
    show ?thesis
    proof (cases "num = 0")
      case zero: True
      have "input = [] @ ''errno='' @ butlast w @ newline # rest"
        using gl(1) cl(1) kw(1) True w by (metis append.assoc append.simps append_Nil)
      then show ?thesis using num zero r(2) kw(2) by (metis list.sel(3))
    next
      case False
      then show ?thesis using "1.IH"(1) [OF g refl refl l eq _ refl refl _ _ num [symmetric] refl] n key True r extend by simp
    qed
  qed
qed

section \<open>What every device that is read satisfies\<close>

definition uapi_peer_ok :: "wgpeer \<Rightarrow> bool" where
  "uapi_peer_ok p \<longleftrightarrow> wf_key (peer_public_key p) \<and> wf_key (preshared_key p) \<and> peer_has p WGPEER_HAS_PUBLIC_KEY
     \<and> list_all (\<lambda>a. valid_prefix a \<and> length (ip_words a) = 4) (allowedips p)"

definition uapi_device_ok :: "wgdevice \<Rightarrow> bool" where
  "uapi_device_ok d \<longleftrightarrow> wf_key (private_key d) \<and> length (dev_name d) < IFNAMSIZ \<and> list_all uapi_peer_ok (peers d)"

definition uapi_state_ok :: "uapi_state \<Rightarrow> bool" where
  "uapi_state_ok st \<longleftrightarrow> uapi_device_ok (udev st) \<and> cursor_ok (upeer st) (peers (udev st))
     \<and> (case upeer st of None \<Rightarrow> True | Some i \<Rightarrow> cursor_ok (uaip st) (allowedips (peers (udev st) ! i)))"

definition peer_state_ok :: "peer_state \<Rightarrow> bool" where
  "peer_state_ok pc \<longleftrightarrow> uapi_peer_ok (fst pc) \<and> cursor_ok (snd pc) (allowedips (fst pc))"

definition go_keeps :: "('s \<Rightarrow> bool) \<Rightarrow> (string \<Rightarrow> 's \<Rightarrow> 's uapi_step) \<Rightarrow> bool" where
  "go_keeps I f \<longleftrightarrow> (\<forall>v s s'. I s \<longrightarrow> f v s = Go s' \<longrightarrow> I s')"

lemma go_or_break_Go_iff: "go_or_break f x = Go y \<longleftrightarrow> (\<exists>z. x = Some z \<and> y = f z)"
  by (auto simp: go_or_break_def split: option.splits)

lemma go_map_Go_iff: "go_map f x = Go y \<longleftrightarrow> (\<exists>z. x = Go z \<and> y = f z)"
  by (cases x) auto

lemma peer_flags_or_public: "flag_set f WGPEER_HAS_PUBLIC_KEY \<Longrightarrow> flag_set (f OR b) WGPEER_HAS_PUBLIC_KEY"
  by (simp add: flag_set_or)

lemma u8_le_iff: "\<not> (c > (128 :: u8)) \<longleftrightarrow> unat c \<le> 128" "\<not> (c > (32 :: u8)) \<longleftrightarrow> unat c \<le> 32"
  by (simp_all add: word_less_nat_alt not_less)

lemma uapi_allowedip_Go:
  assumes "uapi_allowedip env v (p, cur) = Go (p', cur')" and "\<And>s w. inet_pton6 env s = Some w \<Longrightarrow> length w = 4"
  shows "\<exists>a. valid_prefix a \<and> length (ip_words a) = 4 \<and> p' = p\<lparr>allowedips := link_after cur a (allowedips p)\<rparr> \<and> cur' = cursor_next cur"
proof -
  define ip where "ip = fst (strsep v CHR ''/'')"
  define a1 where "a1 = (if strchr ip CHR '':'' \<noteq> None
    then (case inet_pton6 env ip of Some w \<Rightarrow> zero_allowedip\<lparr>family := AF_UNSPEC, ip_words := w, family := AF_INET6\<rparr> | None \<Rightarrow> zero_allowedip\<lparr>family := AF_UNSPEC\<rparr>)
    else (case inet_pton4 env ip of Some w \<Rightarrow> (set_ip4 w (zero_allowedip\<lparr>family := AF_UNSPEC\<rparr>))\<lparr>family := AF_INET\<rparr> | None \<Rightarrow> zero_allowedip\<lparr>family := AF_UNSPEC\<rparr>))"
  obtain m where m: "strsep v CHR ''/'' = (ip, Some m)"
    using assms(1) by (cases "strsep v CHR ''/''") (auto simp: uapi_allowedip_def ip_def split: option.splits)
  define a2 where "a2 = a1\<lparr>cidr := word_of_nat (fst (strtoul 10 m))\<rparr>"
  have fam: "family a2 = AF_UNSPEC \<or> family a2 = AF_INET \<or> family a2 = AF_INET6" and len: "length (ip_words a2) = 4"
    using assms(2) by (auto simp: a2_def a1_def zero_allowedip_def set_ip4_def split: option.split)
  have "uapi_allowedip env v (p, cur) = (if \<not> char_is_digit (c_int (char_at m 0)) then Break
      else if snd (strtoul 10 m) \<noteq> [] \<or> family a2 = AF_UNSPEC \<or> (family a2 = AF_INET6 \<and> cidr a2 > 128) \<or> (family a2 = AF_INET \<and> cidr a2 > 32)
      then Break else Go (p\<lparr>allowedips := link_after cur a2 (allowedips p)\<rparr>, cursor_next cur))"
    unfolding uapi_allowedip_def m a2_def a1_def by (simp add: Let_def split_beta)
  then have "family a2 \<noteq> AF_UNSPEC" "\<not> (family a2 = AF_INET6 \<and> cidr a2 > 128)" "\<not> (family a2 = AF_INET \<and> cidr a2 > 32)"
    "p' = p\<lparr>allowedips := link_after cur a2 (allowedips p)\<rparr>" "cur' = cursor_next cur"
    using assms(1) by (simp_all split: if_splits)
  then have "valid_prefix a2 \<and> p' = p\<lparr>allowedips := link_after cur a2 (allowedips p)\<rparr> \<and> cur' = cursor_next cur"
    using fam by (auto simp: valid_prefix_def u8_le_iff)
  then show ?thesis using len by blast
qed

lemma uapi_device_keys_keep: "list_all (\<lambda>(k, f). go_keeps (\<lambda>d. uapi_device_ok d \<and> peers d = ps) f) (uapi_device_keys env)"
  by (simp add: uapi_device_keys_def go_keeps_def uapi_device_ok_def dev_or_def go_or_break_Go_iff uapi_dup_def)
    (auto simp: key_from_hex_length)

lemma on_peer_keeps:
  assumes "\<And>v p p'. uapi_peer_ok p \<Longrightarrow> f v p = Go p' \<Longrightarrow> uapi_peer_ok p' \<and> allowedips p' = allowedips p"
  shows "go_keeps peer_state_ok (on_peer f)"
  using assms by (auto simp: go_keeps_def on_peer_def peer_state_ok_def go_map_Go_iff)

lemma uapi_peer_keys_keep:
  assumes "\<And>s w. inet_pton6 (sys env) s = Some w \<Longrightarrow> length w = 4"
  shows "list_all (\<lambda>(k, f). go_keeps peer_state_ok f) (uapi_peer_keys env)"
proof -
  have psk: "go_keeps peer_state_ok (on_peer (\<lambda>v p. go_or_break (\<lambda>k. let q = p\<lparr>preshared_key := k\<rparr>
      in if \<not> key_is_zero k then peer_or WGPEER_HAS_PRESHARED_KEY q else q) (key_from_hex v)))"
    by (rule on_peer_keeps) (auto simp: go_or_break_Go_iff uapi_peer_ok_def peer_or_def peer_flags_or_public key_from_hex_length Let_def)
  have aip: "go_keeps peer_state_ok (uapi_allowedip (sys env))"
    unfolding go_keeps_def
  proof (intro allI impI)
    fix v s s'
    assume ok: "peer_state_ok s" and g: "uapi_allowedip (sys env) v s = Go s'"
    obtain a where "valid_prefix a" "length (ip_words a) = 4" "s' = ((fst s)\<lparr>allowedips := link_after (snd s) a (allowedips (fst s))\<rparr>, cursor_next (snd s))"
      using uapi_allowedip_Go [of "sys env" v "fst s" "snd s" "fst s'" "snd s'"] g assms by (metis prod.collapse)
    then show "peer_state_ok s'"
      using ok by (simp add: peer_state_ok_def link_after_append cursor_ok_next uapi_peer_ok_def)
  qed
  show ?thesis
    unfolding uapi_peer_keys_def list.pred_inject prod.case
    by (intro conjI TrueI psk aip on_peer_keeps)
      (auto simp: uapi_peer_ok_def peer_or_def peer_flags_or_public go_or_break_Go_iff go_map_Go_iff uapi_dup_def)
qed

lemma go_keepsD: "list_all (\<lambda>(k, f). go_keeps I f) table \<Longrightarrow> map_of table k = Some f \<Longrightarrow> I s \<Longrightarrow> f v s = Go s' \<Longrightarrow> I s'"
  by (fastforce simp: list_all_iff go_keeps_def dest: map_of_SomeD)

lemma uapi_line_keeps:
  assumes pton: "\<And>s w. inet_pton6 (sys env) s = Some w \<Longrightarrow> length w = 4"
    and ok: "uapi_state_ok st" and g: "uapi_line env k v st = Go st'"
  shows "uapi_state_ok st'"
proof -
  consider "k = ''public_key''" | "k = ''errno''" | "k \<noteq> ''public_key''" "k \<noteq> ''errno''" by blast
  then show ?thesis
  proof cases
    case 1
    then obtain key where "wf_key key"
      "st' = st\<lparr>uaip := None, udev := (udev st)\<lparr>peers := link_after (upeer st) (peer_or WGPEER_HAS_PUBLIC_KEY (zero_peer\<lparr>peer_public_key := key\<rparr>)) (peers (udev st))\<rparr>,
                upeer := cursor_next (upeer st)\<rparr>"
      using g key_from_hex_length by (auto simp: uapi_line_def split: option.splits)
    then show ?thesis
      using ok by (auto simp: uapi_state_ok_def uapi_device_ok_def link_after_append cursor_ok_next uapi_peer_ok_def peer_or_def zero_peer_def
          flag_set_or cursor_ok_def cursor_next_def split: option.splits)
  next
    case 2
    then show ?thesis using ok g by (auto simp: uapi_line_def go_or_break_Go_iff uapi_state_ok_def split: option.splits)
  next
    case 3
    show ?thesis
    proof (cases "upeer st")
      case None
      then show ?thesis
        using 3 ok g go_keepsD [OF uapi_device_keys_keep [of "[]" env], of k _ "udev st" v]
        by (auto simp: uapi_line_def uapi_state_ok_def go_map_Go_iff cursor_ok_def split: option.splits)
    next
      case (Some i)
      have i: "peers (udev st) \<noteq> []" "i = length (peers (udev st)) - 1"
        using Some ok by (auto simp: uapi_state_ok_def cursor_ok_def)
      then obtain ps p where ps: "peers (udev st) = ps @ [p]" by (meson rev_exhaust)
      have st: "st = at_peer st ps (p, uaip st)" using Some i ps by (cases st) (simp add: at_peer_def)
      have p: "peer_state_ok (p, uaip st)"
        using ok Some i ps by (simp add: uapi_state_ok_def uapi_device_ok_def peer_state_ok_def)
      have "go_map (at_peer st ps) (uapi_peer_line env k v (p, uaip st)) = Go st'"
        using uapi_line_at_peer [OF 3, of env v st ps "(p, uaip st)"] st g by simp
      then obtain pc where pc: "uapi_peer_line env k v (p, uaip st) = Go pc" "st' = at_peer st ps pc"
        unfolding go_map_Go_iff by blast
      have "peer_state_ok pc"
        using pc(1) p go_keepsD [OF uapi_peer_keys_keep, OF pton] by (auto simp: uapi_peer_line_def split: option.splits)
      then show ?thesis
        using ok pc(2) ps by (auto simp: uapi_state_ok_def uapi_device_ok_def at_peer_def peer_state_ok_def cursor_ok_def)
    qed
  qed
qed

lemma get_reply_ok:
  assumes "\<And>s w. inet_pton6 (sys env) s = Some w \<Longrightarrow> length w = 4"
    and "uapi_state_ok st" and "get_reply env input st = Inr d"
  shows "uapi_device_ok d"
  using assms
proof (induction env input st rule: get_reply.induct)
  case (1 env input st)
  show ?case
  proof (cases "getline input")
    case None
    then show ?thesis using "1.prems"(3) by (simp add: get_reply.simps [of _ input])
  next
    case (Some a)
    obtain l rest where a: "(l, rest) = a" by (cases a) auto
    note IH = "1.IH" [OF Some a refl _ _ _ _ "1.prems"(1) uapi_line_keeps [OF "1.prems"(1,2)]]
    show ?thesis
      using "1.prems"(2,3) Some a [symmetric] IH
      by (auto simp: get_reply.simps [of _ input] uapi_finish_def uapi_state_ok_def Let_def split: if_splits option.splits uapi_step.splits)
  qed
qed

end
