(* ===== verification/ConfigDispatch.thy ===== *)
theory ConfigDispatch
  imports Config
begin

text \<open>
  Which branch of \<open>process_line\<close> a line of a configuration file takes: a line made of a key, an equals
  sign and a value is handled by the branch of that key, for every key of the two sections.
\<close>

lemmas match_simps = key_match_def get_value_def prefix_match_def tolower_c_def

lemma dispatch_device_key:
  assumes "v \<noteq> []"
  shows
    "key_dispatch (device_keys env) (''ListenPort='' @ v) dev = set_listen_port env v dev"
    "key_dispatch (device_keys env) (''FwMark='' @ v) dev = set_fwmark v dev"
    "key_dispatch (device_keys env) (''PrivateKey='' @ v) dev = set_private_key (parse_key v) dev"
    "key_dispatch (device_keys env) (''WSListen='' @ v) dev = set_ws_listen v dev"
    "key_dispatch (device_keys env) (''WSServerTLSCert='' @ v) dev = set_ws_str (\<lambda>s. ws_server_tls_cert_update (\<lambda>_. s)) WGDEVICE_HAS_WS_SERVER_TLS_CERT v dev"
    "key_dispatch (device_keys env) (''WSServerTLSKey='' @ v) dev = set_ws_str (\<lambda>s. ws_server_tls_key_update (\<lambda>_. s)) WGDEVICE_HAS_WS_SERVER_TLS_KEY v dev"
    "key_dispatch (device_keys env) (''WSServerBearer='' @ v) dev = set_ws_str (\<lambda>s. ws_server_bearer_update (\<lambda>_. s)) WGDEVICE_HAS_WS_SERVER_BEARER v dev"
    "key_dispatch (device_keys env) (''WSTrustedProxies='' @ v) dev = set_ws_str (\<lambda>s. ws_trusted_proxies_update (\<lambda>_. s)) WGDEVICE_HAS_WS_TRUSTED_PROXIES v dev"
  using assms by (simp_all add: device_keys_def match_simps)

lemma dispatch_peer_key:
  assumes "v \<noteq> []"
  shows
    "key_dispatch (peer_keys env) (''Endpoint='' @ v) st = set_endpoint env v st"
    "key_dispatch (peer_keys env) (''PublicKey='' @ v) st = set_peer parse_key (\<lambda>k. peer_public_key_update (\<lambda>_. k)) WGPEER_HAS_PUBLIC_KEY v st"
    "key_dispatch (peer_keys env) (''AllowedIPs='' @ v) st = set_allowedips env v st"
    "key_dispatch (peer_keys env) (''PersistentKeepalive='' @ v) st = set_keepalive v st"
    "key_dispatch (peer_keys env) (''PresharedKey='' @ v) st = set_peer parse_key (\<lambda>k. preshared_key_update (\<lambda>_. k)) WGPEER_HAS_PRESHARED_KEY v st"
    "key_dispatch (peer_keys env) (''WSMode='' @ v) st = set_peer parse_ws_mode (\<lambda>t. transport_update (\<lambda>_. t)) 0 v st"
    "key_dispatch (peer_keys env) (''WSTunnelTarget='' @ v) st = set_peer parse_ws_target (\<lambda>s. wstunnel_target_update (\<lambda>_. Some s)) WGPEER_HAS_WS_SETTINGS v st"
    "key_dispatch (peer_keys env) (''WSBearer='' @ v) st = set_peer parse_ws_secret (\<lambda>s. ws_bearer_update (\<lambda>_. Some s)) WGPEER_HAS_WS_SETTINGS v st"
    "key_dispatch (peer_keys env) (''WSMask='' @ v) st = set_peer parse_ws_bool (\<lambda>b. ws_mask_update (\<lambda>_. b)) WGPEER_HAS_WS_SETTINGS v st"
    "key_dispatch (peer_keys env) (''WSTLSCA='' @ v) st = set_peer parse_ws_str (\<lambda>s. ws_tls_ca_update (\<lambda>_. Some s)) WGPEER_HAS_WS_SETTINGS v st"
    "key_dispatch (peer_keys env) (''WSTLSCert='' @ v) st = set_peer parse_ws_str (\<lambda>s. ws_tls_cert_update (\<lambda>_. Some s)) WGPEER_HAS_WS_SETTINGS v st"
    "key_dispatch (peer_keys env) (''WSTLSKey='' @ v) st = set_peer parse_ws_str (\<lambda>s. ws_tls_key_update (\<lambda>_. Some s)) WGPEER_HAS_WS_SETTINGS v st"
    "key_dispatch (peer_keys env) (''WSTLSInsecure='' @ v) st = set_peer parse_ws_bool (\<lambda>b. ws_tls_insecure_update (\<lambda>_. b)) WGPEER_HAS_WS_SETTINGS v st"
    "key_dispatch (peer_keys env) (''WSPingInterval='' @ v) st = set_peer parse_ws_millis (\<lambda>n. ws_ping_interval_ms_update (\<lambda>_. n)) WGPEER_HAS_WS_SETTINGS v st"
    "key_dispatch (peer_keys env) (''WSBackoffMin='' @ v) st = set_peer parse_ws_millis (\<lambda>n. ws_backoff_min_ms_update (\<lambda>_. n)) WGPEER_HAS_WS_SETTINGS v st"
    "key_dispatch (peer_keys env) (''WSBackoffMax='' @ v) st = set_peer parse_ws_millis (\<lambda>n. ws_backoff_max_ms_update (\<lambda>_. n)) WGPEER_HAS_WS_SETTINGS v st"
  using assms by (simp_all add: peer_keys_def match_simps)

lemma tolower_bracket: "tolower_c c = tolower_c (CHR ''['') \<longleftrightarrow> c = CHR ''[''"
proof -
  have "tolower_c c \<noteq> CHR ''[''" if "65 \<le> n" "n \<le> 90" "(of_char c :: nat) = n" for n
    using that by (simp add: tolower_c_def char_of_eq_iff take_bit_eq_mod)
  then show ?thesis by (auto simp: tolower_c_def)
qed

text \<open>A line that starts with a key is not a section header.\<close>

lemma process_device_line:
  assumes "is_device_section ctx" and "c \<noteq> CHR ''[''"
  shows "process_line env (c # cs) ctx = map_run (\<lambda>dev. ctx\<lparr>device := dev\<rparr>) (key_dispatch (device_keys env) (c # cs) (device ctx))"
proof -
  have "tolower_c c \<noteq> tolower_c (CHR ''['')" using assms(2) by (simp add: tolower_bracket)
  with assms(1) show ?thesis by (simp add: process_line_def strcaseeq_def)
qed

lemma process_peer_line:
  assumes "is_peer_section ctx" and "\<not> is_device_section ctx" and "c \<noteq> CHR ''[''"
  shows "process_line env (c # cs) ctx = on_last_peer (key_dispatch (peer_keys env) (c # cs)) ctx"
proof -
  have "tolower_c c \<noteq> tolower_c (CHR ''['')" using assms(3) by (simp add: tolower_bracket)
  with assms(1,2) show ?thesis by (simp add: process_line_def strcaseeq_def)
qed

text \<open>A line of characters that are neither white space nor a comment sign is read as it is.\<close>

lemma clean_line_id: "\<forall>c \<in> set s. token_char c \<Longrightarrow> clean_line s = s"
  by (induction s) (auto simp: clean_line_def token_char_def COMMENT_CHAR_def)

end
