(* ===== verification/ConfigProperties.thy ===== *)
theory ConfigProperties
  imports ConfigDispatch
begin

text \<open>
  The properties of the configuration readers of \<open>src/src/config.c\<close>, each with a closed instance on a
  sample environment.
\<close>

section \<open>A sample environment\<close>

text \<open>Used to instantiate the hypotheses about the operating system: the first lookup of a name fails and the second succeeds.\<close>

definition sample_addrinfo :: addrinfo where
  "sample_addrinfo = \<lparr>ai_family = AF_INET, ai_addrlen = sizeof_sockaddr_in, ai_addr = Sa_in 0x0A000001 51820\<rparr>"

definition sample_env :: sysenv where
  "sample_env =
     \<lparr>getenv = (\<lambda>_. None),
      getaddrinfo = (\<lambda>node service attempt.
        if node \<noteq> None \<and> attempt = 0 then Inl (EAI_TRANSIENT 3) else Inr sample_addrinfo),
      inet_pton4 = (\<lambda>s. if s = ''10.0.0.1'' then Some 0x0A000001 else None),
      inet_pton6 = (\<lambda>_. None),
      fopen = (\<lambda>path.
        if path = ''key'' then Some \<lparr>f_bytes = key_to_base64 zero_key @ [newline], f_error = False, f_seekable = True\<rparr>
        else if path = ''token'' then Some \<lparr>f_bytes = ''abc'' @ [newline], f_error = False, f_seekable = True\<rparr>
        else None)\<rparr>"

lemma wf_sample_env: "wf_env sample_env"
  by (auto simp: wf_env_def sample_env_def sample_addrinfo_def wf_sockaddr_def sa_family_def split: if_splits)

section \<open>Properties\<close>

text \<open>
  a fwmark is accepted exactly when it is \<open>off\<close> in any case, a decimal numeral, or \<open>0x\<close> followed
  by a hexadecimal numeral, of a value that fits in 32 bits; the value stored is the number written.
\<close>

theorem parse_fwmark_accepts:
  "parse_fwmark fl v = Inr (w, f) \<longleftrightarrow>
     f = fl OR WGDEVICE_HAS_FWMARK \<and> (if strcaseeq v ''off'' then w = 0 else fwmark_numeral v (unat w))"
  by (rule parse_fwmark_iff)

text \<open>
  a persistent-keepalive interval is accepted exactly when it is \<open>off\<close> in any case or a decimal
  numeral that fits in 16 bits.
\<close>

theorem parse_persistent_keepalive_accepts:
  "parse_persistent_keepalive fl v = Inr (w, f) \<longleftrightarrow>
     f = fl OR WGPEER_HAS_PERSISTENT_KEEPALIVE_INTERVAL \<and>
     (if strcaseeq v ''off'' then w = 0
      else v \<noteq> [] \<and> list_all (is_digit_of 10) v \<and> digits_val 10 v = unat w)"
  by (rule parse_persistent_keepalive_iff)

lemma parse_dns_retries_negative: "parse_dns_retries env = Inr r \<Longrightarrow> r < 0 \<Longrightarrow> r = - 1"
  by (auto simp: parse_dns_retries_def split: option.splits if_splits prod.splits)

text \<open>
  C16: resolving an endpoint does not return only when the number of retries is \<open>infinity\<close>, the endpoint
  splits into a host and a port, and every lookup of them fails with a transient error.
\<close>

theorem parse_endpoint_returns:
  "parse_endpoint env v = None \<longleftrightarrow>
     parse_dns_retries env = Inr (- 1)
     \<and> (\<exists>host port. split_endpoint v = Inr (host, port) \<and> (\<forall>k. \<not> decisive env host port k))"
proof (cases "parse_dns_retries env")
  case (Inl e)
  then show ?thesis by (simp add: parse_endpoint_def)
next
  case r: (Inr retries)
  show ?thesis
  proof (cases "split_endpoint v")
    case (Inl e)
    then show ?thesis using r by (simp add: parse_endpoint_def)
  next
    case (Inr hp)
    obtain h p where hp: "hp = (h, p)" by (cases hp)
    have "parse_endpoint env v = None \<longleftrightarrow> resolve_loop env h p v retries 1000000 0 [] = None"
      using r Inr hp by (simp add: parse_endpoint_def split: option.split sum.split prod.split)
    also have "\<dots> \<longleftrightarrow> \<not> (\<exists>r. resolve_loop env h p v retries 1000000 0 [] = Some r)" by (simp only: not_ex not_Some_eq)
    also have "\<dots> \<longleftrightarrow> retries < 0 \<and> (\<forall>k. \<not> decisive env h p k)"
      unfolding resolve_loop_returns_iff by (simp add: not_le)
    also have "\<dots> \<longleftrightarrow> retries = - 1 \<and> (\<forall>k. \<not> decisive env h p k)"
      using parse_dns_retries_negative [OF r] by auto
    finally show ?thesis using r Inr hp by simp
  qed
qed

text \<open>
  C26: with a limit on the retries, the resolver sleeps at most that many times, for times that do not
  decrease and lie between one and twenty seconds (the product in the loop does not wrap around).
\<close>

theorem resolve_loop_backoff:
  assumes "0 \<le> retries" and "resolve_loop env h p v retries 1000000 0 [] = Some (res, slept)"
  shows "int (length slept) \<le> retries \<and> sorted (map unat slept)
    \<and> list_all (\<lambda>s. 1000000 \<le> unat s \<and> unat s \<le> 20000000) slept"
proof -
  obtain n where "int n \<le> retries"
    "resolve_loop env h p v retries 1000000 0 [] = Some (attempt_result env h p v (0 + n), [] @ timeouts 1000000 n)"
    using resolve_loop_bounded [OF assms(1)] by blast
  with assms(2) have "int n \<le> retries" "slept = timeouts 1000000 n" by simp_all
  then show ?thesis
    using timeouts_range [of 1000000 n] by (simp add: list_all_iff)
qed

lemma sample_resolve: "resolve_loop sample_env ''h'' ''1'' ''h:1'' 15 1000000 0 [] = Some (Inr sample_addrinfo, [1000000])"
proof -
  have "resolve_loop sample_env ''h'' ''1'' ''h:1'' 15 1000000 0 []
      = Some (attempt_result sample_env ''h'' ''1'' ''h:1'' (0 + 1), [] @ timeouts 1000000 1)"
    by (rule resolve_loop_result) (simp_all add: decisive_def sample_env_def permanent_failure_def)
  then show ?thesis by (simp add: attempt_result_def sample_env_def)
qed

theorem resolve_loop_backoff_witness:
  "(0 :: int) \<le> 15 \<and> resolve_loop sample_env ''h'' ''1'' ''h:1'' 15 1000000 0 [] = Some (Inr sample_addrinfo, [1000000])
   \<and> int (length [1000000 :: u32]) \<le> 15"
  using resolve_loop_backoff [OF _ sample_resolve] sample_resolve by simp

text \<open>
  C23: a URL splits exactly when it has the scheme \<open>ws\<close> or \<open>wss\<close> in any case, a non-empty host (in
  brackets, or plain up to the last colon before the path) and a non-empty port, both shorter than
  their buffers, so nothing is written out of bounds.
\<close>

theorem ws_url_split_iff:
  "ws_url_split url hostsz portsz = Some (host, port) \<longleftrightarrow>
     (\<exists>s auth path. url = s @ auth @ path \<and> ws_scheme s \<and> ws_authority auth host port \<and> url_path path
      \<and> host \<noteq> [] \<and> port \<noteq> [] \<and> CHR ''/'' \<notin> set port \<and> length host < hostsz \<and> length port < portsz)"
proof
  assume "\<exists>s auth path. url = s @ auth @ path \<and> ws_scheme s \<and> ws_authority auth host port \<and> url_path path
      \<and> host \<noteq> [] \<and> port \<noteq> [] \<and> CHR ''/'' \<notin> set port \<and> length host < hostsz \<and> length port < portsz"
  then show "ws_url_split url hostsz portsz = Some (host, port)"
    by (elim exE conjE) (hypsubst, rule ws_url_split_complete)
qed (rule ws_url_split_sound)

text \<open>
  C25: the endpoint stored for a \<open>ws(s)://\<close> URL whose host has no bracket and whose port has no colon
  is the answer of the resolver for exactly the host and the port of the URL (nothing is cut off by
  the 300-byte buffer), and the URL is kept as it was given.
\<close>

theorem parse_ws_endpoint_resolves:
  assumes "parse_ws_endpoint env p url = Some (Inr p')" and "ws_url_split url 256 16 = Some (host, port)"
    and "CHR ''['' \<notin> set host" and "CHR '']'' \<notin> set host" and "CHR '':'' \<notin> set port"
  shows "\<exists>k r. getaddrinfo env (Some host) port k = Inr r \<and> p' = p\<lparr>endpoint := ai_addr r, ws_url := Some url\<rparr>"
proof -
  obtain a where a: "parse_endpoint env (ws_hostport host port) = Some (Inr a)" "p' = p\<lparr>endpoint := a, ws_url := Some url\<rparr>"
    using assms(1,2) by (auto simp: parse_ws_endpoint_def split: option.splits sum.splits)
  have "split_endpoint (ws_hostport host port) = Inr (host, port)" using assms(2-5) by (rule ws_hostport_split)
  with parse_endpoint_Inr [OF a(1)] a(2) show ?thesis by auto
qed

lemma sample_ws_split: "ws_url_split ''ws://h:1/'' 256 16 = Some (''h'', ''1'')"
  using ws_url_split_complete [of "''ws://''" "''h:1''" "''h''" "''1''" "''/''" 256 16]
  by (simp add: ws_scheme_def strcaseeq_def ws_authority_def url_path_def)

lemma sample_ws_endpoint:
  "parse_ws_endpoint sample_env zero_peer ''ws://h:1/'' =
     Some (Inr (zero_peer\<lparr>endpoint := Sa_in 0x0A000001 51820, ws_url := Some ''ws://h:1/''\<rparr>))"
proof -
  have r: "parse_dns_retries sample_env = Inr 15" by (simp add: parse_dns_retries_def sample_env_def)
  have s: "split_endpoint ''h:1'' = Inr (''h'', ''1'')" by (simp add: split_endpoint_def strrchr_def)
  have "parse_endpoint sample_env ''h:1'' = Some (Inr (Sa_in 0x0A000001 51820))"
    unfolding parse_endpoint_def r s sum.case prod.case sample_resolve option.case
    by (simp add: sample_addrinfo_def is_inet_def)
  moreover have "ws_hostport ''h'' ''1'' = ''h:1''" by (simp add: ws_hostport_def strchr_def)
  ultimately show ?thesis unfolding parse_ws_endpoint_def sample_ws_split by simp
qed

theorem parse_ws_endpoint_resolves_witness:
  "\<exists>k r. getaddrinfo sample_env (Some ''h'') ''1'' k = Inr r \<and> ai_addr r = Sa_in 0x0A000001 51820"
proof -
  have "\<exists>k r. getaddrinfo sample_env (Some ''h'') ''1'' k = Inr r
      \<and> zero_peer\<lparr>endpoint := Sa_in 0x0A000001 51820, ws_url := Some ''ws://h:1/''\<rparr>
        = zero_peer\<lparr>endpoint := ai_addr r, ws_url := Some ''ws://h:1/''\<rparr>"
    using sample_ws_endpoint sample_ws_split by (rule parse_ws_endpoint_resolves) simp_all
  then obtain k r where "getaddrinfo sample_env (Some ''h'') ''1'' k = Inr r" "Sa_in 0x0A000001 51820 = ai_addr r"
    by (auto simp: zero_peer_def)
  then show ?thesis by metis
qed

text \<open>
  C30: a readable, non-empty key file yields a key exactly when it holds the base64 encoding of that key
  followed by nothing but white space.
\<close>

theorem parse_keyfile_accepts:
  assumes "fopen env path = Some f" and "\<not> f_error f" and "f_bytes f \<noteq> []"
  shows "parse_keyfile env path = Inr k \<longleftrightarrow>
    wf_key k \<and> (\<exists>ws. f_bytes f = key_to_base64 k @ ws \<and> list_all isspace_c ws)"
  using parse_keyfile_iff [OF assms, of k] by (simp add: list_all_iff)

theorem parse_keyfile_accepts_witness: "parse_keyfile sample_env ''key'' = Inr zero_key"
proof -
  have "fopen sample_env ''key'' = Some \<lparr>f_bytes = key_to_base64 zero_key @ [newline], f_error = False, f_seekable = True\<rparr>"
    by (simp add: sample_env_def)
  from parse_keyfile_accepts [OF this, of zero_key] show ?thesis by (simp add: isspace_c_def newline_def)
qed

text \<open>
  C31: a bearer token on the first line of its file is accepted exactly when it has at most 8190
  characters; a longer one is rejected, never truncated. The message of the code promises 8191.
\<close>

theorem parse_ws_secret_file_first_line:
  assumes "plain_token t" and "fopen env path = Some \<lparr>f_bytes = t @ newline # r, f_error = e, f_seekable = sk\<rparr>"
  shows "parse_ws_secret_file env path = (if length t \<le> 8190 then Inr t else Inl (E_bearer_long path))"
  using assms by (rule parse_ws_secret_file_line)

theorem parse_ws_secret_file_first_line_witness: "parse_ws_secret_file sample_env ''token'' = Inr ''abc''"
proof -
  have "plain_token ''abc''" by (simp add: plain_token_def newline_def no_nul_def NUL_def)
  moreover have "fopen sample_env ''token'' = Some \<lparr>f_bytes = ''abc'' @ newline # [], f_error = False, f_seekable = True\<rparr>"
    by (simp add: sample_env_def)
  ultimately have "parse_ws_secret_file sample_env ''token'' = (if length ''abc'' \<le> 8190 then Inr ''abc'' else Inl (E_bearer_long ''token''))"
    by (rule parse_ws_secret_file_first_line)
  then show ?thesis by simp
qed

text \<open>
  C24: \<open>validate_ws_peer\<close> accepts exactly these peers: one whose transport was not declared; a UDP peer
  with no URL and no WebSocket setting; a WebSocket peer with no wstunnel target and with an endpoint
  if and only if it has a URL; a wstunnel peer with a URL, an endpoint and a target.
\<close>

theorem validate_ws_peer_accepts:
  "validate_ws_peer p = None \<longleftrightarrow>
     (if peer_has p WGPEER_HAS_TRANSPORT then
        (case transport p of
           WGPEER_TRANSPORT_UDP \<Rightarrow> ws_url p = None \<and> \<not> peer_has p WGPEER_HAS_WS_SETTINGS
         | WGPEER_TRANSPORT_WEBSOCKET \<Rightarrow> wstunnel_target p = None \<and> (ws_url p = None \<longleftrightarrow> endpoint p = Sa_none)
         | WGPEER_TRANSPORT_WSTUNNEL \<Rightarrow> ws_url p \<noteq> None \<and> endpoint p \<noteq> Sa_none \<and> wstunnel_target p \<noteq> None)
      else True)"
  by (cases "transport p") (auto simp: validate_ws_peer_ok_iff)

text \<open>
  C21: \<open>validate_netmask\<close> is true exactly when every bit of the address after the prefix is zero, for
  IPv4 and IPv6 and every prefix length, although the loop stops early and shifts by word.
\<close>

theorem validate_netmask_host_bits:
  "validate_netmask a \<longleftrightarrow> filter (addr_bit (ip_words a)) [unat (cidr a)..<addr_width a] = []"
  by (auto simp: validate_netmask_iff filter_empty_conv)

text \<open>
  C17: a list of allowed IPs that is accepted was read entry by entry between the commas; the new
  entries come after the old ones in their order, each is a prefix of its address family that is
  marked for removal exactly when it was written with a minus sign, the replace flag is left clear
  exactly when some entry was written with a sign, and nothing else of the peer changes.
\<close>

theorem parse_allowedips_appends:
  assumes "parse_allowedips env p cur v = Inr (p', cur')" and "cursor_ok cur (allowedips p)"
  shows "\<exists>es as. v = comma_join es \<and> list_all (\<lambda>e. CHR '','' \<notin> set e) es \<and> list_all2 (\<lambda>e a. aip_entry env e = Inr a) es as
    \<and> list_all valid_prefix as
    \<and> map aip_flags as = map (\<lambda>e. if char_at e 0 = CHR ''-'' then WGALLOWEDIP_REMOVE_ME else 0) es
    \<and> p' = p\<lparr>peer_flags := clear_replace (list_ex incremental es) (peer_flags p OR WGPEER_REPLACE_ALLOWEDIPS),
             allowedips := allowedips p @ as\<rparr>
    \<and> cursor_ok cur' (allowedips p')"
proof -
  obtain es as where e: "v = comma_join es" "\<forall>e \<in> set es. CHR '','' \<notin> set e" "list_all2 (\<lambda>e a. aip_entry env e = Inr a) es as"
    "p' = p\<lparr>peer_flags := clear_replace (list_ex incremental es) (peer_flags p OR WGPEER_REPLACE_ALLOWEDIPS),
            allowedips := allowedips p @ as\<rparr>" "cursor_ok cur' (allowedips p')"
    by (rule parse_allowedips_Inr [OF assms])
  have "list_all valid_prefix as \<and> map aip_flags as = map (\<lambda>e. if char_at e 0 = CHR ''-'' then WGALLOWEDIP_REMOVE_ME else 0) es"
    using e(3) by (induction rule: list_all2_induct) (simp_all add: aip_entry_valid)
  with e show ?thesis unfolding list_all_iff by blast
qed

lemma sample_aip:
  "parse_allowedips sample_env zero_peer None ''-10.0.0.1'' =
     Inr (zero_peer\<lparr>peer_flags := 0, allowedips := [\<lparr>family = AF_INET, ip_words = [0x0A000001, 0, 0, 0], cidr = 32, aip_flags = 1\<rparr>]\<rparr>, Some 0)"
  by (simp add: parse_allowedips_def peer_or_def strsep_def parse_ip_prefix_def parse_allowedip_def Let_def
      zero_peer_def parse_ip_def strchr_def sample_env_def zero_allowedip_def set_ip4_def af_defs parse_cidr_def
      validate_netmask_def link_after_def cursor_next_def wgpeer_flag_defs WGALLOWEDIP_REMOVE_ME_def eval_nat_numeral)

theorem parse_allowedips_appends_witness:
  "\<exists>es as. ''-10.0.0.1'' = comma_join es \<and> list_all2 (\<lambda>e a. aip_entry sample_env e = Inr a) es as \<and> list_all valid_prefix as"
proof -
  have "cursor_ok None (allowedips zero_peer)" by (simp add: zero_peer_def)
  from parse_allowedips_appends [OF sample_aip this] show ?thesis by blast
qed

text \<open>the warning about a non-zero host part never formats a NULL mask.\<close>

theorem allowedip_warning_has_mask:
  assumes "parse_allowedip env flags s = Inr (a, Some (ip, m))"
  shows "m \<noteq> None"
  using parse_allowedip_warn_mask [OF assms] by simp

lemma replicate_4: "replicate 4 x = [x, x, x, x]"
  by (simp add: eval_nat_numeral)

lemma sample_aip_warning:
  "parse_allowedip sample_env 0 ''10.0.0.1/8'' =
     Inr (\<lparr>family = AF_INET, ip_words = [0x0A000001, 0, 0, 0], cidr = 8, aip_flags = 0\<rparr>, Some (''10.0.0.1'', Some ''8''))"
  by (simp add: strsep_def parse_allowedip_def Let_def parse_ip_def strchr_def sample_env_def zero_allowedip_def set_ip4_def
      af_defs parse_cidr_def validate_netmask_def strtoul_def strto_scan_def strto_sign_def isspace_c_def strto_prefix_def
      is_digit_of_def digit_val_def digits_val_def ULONG_MAX_def replicate_4 mask_eq_exp_minus_1)

text \<open>
  C32: the strings \<open>parse_ws_millis\<close> accepts are white space, an optional sign and decimal digits, and
  nothing after them. It has no check for a leading digit, so that a minus sign is taken: a negative
  number reads as its residue modulo 2 ^ 64, and is accepted when that residue fits in 32 bits.
\<close>

theorem parse_ws_millis_iff:
  "parse_ws_millis value = Inr w \<longleftrightarrow>
     (\<exists>ws sign ds. value = ws @ sign @ ds \<and> list_all isspace_c ws \<and> sign \<in> {[], ''+'', ''-''}
        \<and> ds \<noteq> [] \<and> list_all (is_digit_of 10) ds \<and> digits_val 10 ds \<le> ULONG_MAX
        \<and> unat w = (if sign = ''-'' \<and> 0 < digits_val 10 ds then Suc ULONG_MAX - digits_val 10 ds else digits_val 10 ds))"
proof -
  obtain neg n rest where r: "strto_scan 10 value = (neg, n, rest)" by (metis prod_cases3)
  define k where "k = (if neg \<and> 0 < n then Suc ULONG_MAX - n else n)"
  define m where "m = (if ULONG_MAX < n then ULONG_MAX else k)"
  have "strtoul 10 value = (m, rest)" by (simp add: strtoul_def r m_def k_def)
  then have "parse_ws_millis value = Inr w \<longleftrightarrow> value \<noteq> [] \<and> rest = [] \<and> m \<le> UINT32_MAX \<and> w = word_of_nat m"
    by (auto simp: parse_ws_millis_def)
  also have "\<dots> \<longleftrightarrow> value \<noteq> [] \<and> rest = [] \<and> m = unat w" using u32_of_nat_iff [of m w] by blast
  also have "\<dots> \<longleftrightarrow> value \<noteq> [] \<and> rest = [] \<and> n \<le> ULONG_MAX \<and> unat w = k"
    using u32_of_nat_iff [of "unat w" w] ULONG_not_u32 by (cases "ULONG_MAX < n") (auto simp: m_def)
  also have "\<dots> \<longleftrightarrow> (\<exists>ws sign ds. value = ws @ sign @ ds \<and> list_all isspace_c ws \<and> sign \<in> {[], ''+'', ''-''}
        \<and> ds \<noteq> [] \<and> list_all (is_digit_of 10) ds \<and> digits_val 10 ds \<le> ULONG_MAX
        \<and> unat w = (if sign = ''-'' \<and> 0 < digits_val 10 ds then Suc ULONG_MAX - digits_val 10 ds else digits_val 10 ds))"
    (is "?lhs \<longleftrightarrow> ?rhs")
  proof
    assume l: ?lhs
    then have "value \<noteq> []" "strto_scan 10 value = (neg, n, [])" using r by simp_all
    then obtain ws sign ds where "value = ws @ sign @ ds" "list_all isspace_c ws" "sign \<in> {[], ''+'', ''-''}"
      "ds \<noteq> []" "list_all (is_digit_of 10) ds" "n = digits_val 10 ds" "neg \<longleftrightarrow> sign = ''-''"
      by (rule strto_scan_10_complete)
    with l show ?rhs unfolding k_def by blast
  next
    assume ?rhs
    then obtain ws sign ds where v: "value = ws @ sign @ ds" "list_all isspace_c ws" "sign \<in> {[], ''+'', ''-''}"
      "ds \<noteq> []" "list_all (is_digit_of 10) ds" and b: "digits_val 10 ds \<le> ULONG_MAX"
      "unat w = (if sign = ''-'' \<and> 0 < digits_val 10 ds then Suc ULONG_MAX - digits_val 10 ds else digits_val 10 ds)"
      by blast
    from v(1) strto_scan_10_digits [OF v(2-5)] r have "neg = (sign = ''-'')" "n = digits_val 10 ds" "rest = []" by simp_all
    with v(1,4) b show ?lhs by (simp only: k_def append_is_Nil_conv) simp
  qed
  finally show ?thesis .
qed

section \<open>Properties of the readers\<close>

text \<open>
  C1: every peer of a device read from a configuration file has a public key, allowed IPs that are
  prefixes of their family, and a consistent transport: a UDP peer carries no WebSocket URL and no
  WebSocket setting, a wstunnel peer has a URL, a target and an endpoint, and a WebSocket peer has no
  target and an endpoint exactly when it has a URL.
\<close>

theorem config_read_accepted:
  assumes "config_read env is_append lines = Some (Inr d)" and "p \<in> set (peers d)"
  shows "peer_has p WGPEER_HAS_PUBLIC_KEY \<and> list_all valid_prefix (allowedips p)
    \<and> (case transport p of
         WGPEER_TRANSPORT_UDP \<Rightarrow> ws_url p = None \<and> ws_defaults p
       | WGPEER_TRANSPORT_WEBSOCKET \<Rightarrow> wstunnel_target p = None \<and> (ws_url p = None \<longleftrightarrow> endpoint p = Sa_none)
       | WGPEER_TRANSPORT_WSTUNNEL \<Rightarrow> ws_url p \<noteq> None \<and> wstunnel_target p \<noteq> None \<and> endpoint p \<noteq> Sa_none)"
proof -
  obtain ctx where ctx: "d = device ctx" "ctx_inv env {WGPEER_HAS_TRANSPORT} ctx"
    and ok: "\<forall>p \<in> set (peers d). peer_has p WGPEER_HAS_PUBLIC_KEY \<and> validate_ws_peer p = None"
    using assms(1) by (rule config_read_Inr)
  have p: "parsed_peer p" "peer_has p WGPEER_HAS_TRANSPORT" using ctx assms(2) by (auto simp: ctx_inv_def)
  have v: "validate_ws_peer p = None" "peer_has p WGPEER_HAS_PUBLIC_KEY" using ok assms(2) by blast+
  have "list_all valid_prefix (allowedips p)" using p(1) by (simp add: parsed_peer_def list_all_iff)
  with v(2) accepted_peer [OF p v(1)] show ?thesis by (cases "transport p") simp_all
qed

definition sample_conf :: "string list" where
  "sample_conf =
     [''[Interface]'', ''FwMark = 0x10  # mark'', [], '' [Peer]'', ''PublicKey='' @ key_to_base64 zero_key, ''AllowedIPs = 10.0.0.1'']"

definition sample_peer :: wgpeer where
  "sample_peer =
     zero_peer\<lparr>peer_flags := WGPEER_REPLACE_ALLOWEDIPS OR WGPEER_HAS_TRANSPORT OR WGPEER_HAS_PUBLIC_KEY OR WGPEER_REPLACE_ALLOWEDIPS,
               allowedips := [\<lparr>family = AF_INET, ip_words = [0x0A000001, 0, 0, 0], cidr = 32, aip_flags = 0\<rparr>]\<rparr>"

definition sample_device :: wgdevice where
  "sample_device = zero_device\<lparr>dev_flags := WGDEVICE_HAS_FWMARK, fwmark := 16, peers := [sample_peer]\<rparr>"

lemma sample_lines:
  "clean_line ''[Interface]'' = ''[Interface]''" "clean_line ''FwMark = 0x10  # mark'' = ''FwMark='' @ ''0x10''"
  "clean_line [] = []" "clean_line '' [Peer]'' = ''[Peer]''" "clean_line ''AllowedIPs = 10.0.0.1'' = ''AllowedIPs='' @ ''10.0.0.1''"
  by (simp_all add: clean_line_def COMMENT_CHAR_def isspace_c_def)

lemma sample_key_line: "clean_line (''PublicKey='' @ key_to_base64 zero_key) = ''PublicKey='' @ key_to_base64 zero_key"
proof (rule clean_line_id)
  have "\<forall>c \<in> set ''PublicKey=''. token_char c" by (simp add: token_char_def isspace_c_def NUL_def)
  then show "\<forall>c \<in> set (''PublicKey='' @ key_to_base64 zero_key). token_char c" using token_chars_base64 by auto
qed

lemma sample_fwmark: "parse_fwmark f ''0x10'' = Inr (16, f OR WGDEVICE_HAS_FWMARK)"
  by (auto simp: parse_fwmark_iff strcaseeq_def tolower_c_def fwmark_numeral_def is_digit_of_def digit_val_def digits_val_def)

lemma sample_aip2:
  "parse_allowedips sample_env p None ''10.0.0.1'' =
     Inr (p\<lparr>peer_flags := peer_flags p OR WGPEER_REPLACE_ALLOWEDIPS,
            allowedips := [\<lparr>family = AF_INET, ip_words = [0x0A000001, 0, 0, 0], cidr = 32, aip_flags = 0\<rparr>]\<rparr>, Some 0)"
  by (simp add: parse_allowedips_def peer_or_def strsep_def parse_ip_prefix_def parse_allowedip_def Let_def
      parse_ip_def strchr_def sample_env_def zero_allowedip_def set_ip4_def af_defs parse_cidr_def replicate_4
      validate_netmask_def link_after_def cursor_next_def)

lemma sample_config_read: "config_read sample_env True sample_conf = Some (Inr sample_device)"
proof -
  let ?step = "config_read_line sample_env"
  let ?p = "peer_or (WGPEER_REPLACE_ALLOWEDIPS OR WGPEER_HAS_TRANSPORT) zero_peer"
  let ?d = "zero_device\<lparr>dev_flags := WGDEVICE_HAS_FWMARK, fwmark := 16\<rparr>"
  define c1 where "c1 = (config_read_init True)\<lparr>is_peer_section := False, is_device_section := True\<rparr>"
  define c2 where "c2 = c1\<lparr>device := ?d\<rparr>"
  define c3 where "c3 = \<lparr>device = ?d\<lparr>peers := [?p]\<rparr>, last_peer = Some 0, last_allowedip = None, is_peer_section = True, is_device_section = False\<rparr>"
  define c4 where "c4 = c3\<lparr>device := ?d\<lparr>peers := [peer_or WGPEER_HAS_PUBLIC_KEY ?p]\<rparr>\<rparr>"
  define c5 where "c5 = c4\<lparr>device := sample_device, last_allowedip := Some 0\<rparr>"
  have s1: "?step ''[Interface]'' (config_read_init True) = Some (Inr c1)"
    by (simp add: config_read_line_def sample_lines process_line_def strcaseeq_def c1_def)
  have s2: "?step ''FwMark = 0x10  # mark'' c1 = Some (Inr c2)"
    unfolding config_read_line_def sample_lines Let_def
    using process_device_line [of c1 "CHR ''F''" sample_env "''wMark=0x10''"] dispatch_device_key(2) [of "''0x10''" sample_env "device c1"]
    by (simp add: c1_def c2_def config_read_init_def set_fwmark_def sample_fwmark map_run_def zero_device_def)
  have s3: "?step '' [Peer]'' c2 = Some (Inr c3)"
    unfolding config_read_line_def sample_lines Let_def
    by (simp add: process_line_def strcaseeq_def tolower_c_def c1_def c2_def c3_def config_read_init_def add_peer_def
        link_after_def cursor_next_def)
  have s4: "?step (''PublicKey='' @ key_to_base64 zero_key) c3 = Some (Inr c4)"
  proof -
    have ne: "key_to_base64 zero_key \<noteq> []" using length_key_to_base64 [of zero_key] by (metis list.size(3) zero_neq_numeral)
    have "process_line sample_env (''PublicKey='' @ key_to_base64 zero_key) c3 =
      on_last_peer (\<lambda>st. set_peer parse_key (\<lambda>k. peer_public_key_update (\<lambda>_. k)) WGPEER_HAS_PUBLIC_KEY (key_to_base64 zero_key) st) c3"
      using process_peer_line [of c3 "CHR ''P''" sample_env "''ublicKey='' @ key_to_base64 zero_key"] dispatch_peer_key(2) [OF ne, of sample_env]
      by (simp add: c3_def on_last_peer_def)
    then show ?thesis
      unfolding config_read_line_def sample_key_line Let_def
      by (simp add: on_last_peer_def c3_def c4_def set_peer_def parse_key_print map_run_def peer_or_def zero_peer_def)
  qed
  have s5: "?step ''AllowedIPs = 10.0.0.1'' c4 = Some (Inr c5)"
    unfolding config_read_line_def sample_lines Let_def
    using process_peer_line [of c4 "CHR ''A''" sample_env "''llowedIPs=10.0.0.1''"] dispatch_peer_key(3) [of "''10.0.0.1''" sample_env]
    by (simp add: c3_def c4_def c5_def on_last_peer_def set_allowedips_def sample_aip2 map_run_def sample_device_def sample_peer_def
        peer_or_def zero_peer_def zero_device_def or.assoc)
  have s0: "?step [] c = Some (Inr c)" for c by (simp add: config_read_line_def sample_lines)
  have "run_steps ?step sample_conf (config_read_init True) = Some (Inr c5)"
    unfolding sample_conf_def by (simp only: run_steps.simps s1 s2 s0 s3 s4 s5 option.case sum.case)
  then show ?thesis
    by (simp add: config_read_def config_read_finish_def c5_def c4_def sample_device_def sample_peer_def zero_peer_def zero_device_def
        flag_set_or validate_ws_peer_def)
qed

theorem config_read_accepted_witness:
  "config_read sample_env True sample_conf = Some (Inr sample_device) \<and> sample_peer \<in> set (peers sample_device)
   \<and> peer_has sample_peer WGPEER_HAS_PUBLIC_KEY \<and> ws_url sample_peer = None"
proof -
  have m: "sample_peer \<in> set (peers sample_device)" by (simp add: sample_device_def)
  have "transport sample_peer = WGPEER_TRANSPORT_UDP" by (simp add: sample_peer_def zero_peer_def)
  with config_read_accepted [OF sample_config_read m] m sample_config_read show ?thesis by simp
qed

text \<open>
  C8: reading a configuration never follows a NULL pointer, and it always returns unless the number of
  resolver retries was set to \<open>infinity\<close>; the same holds for the arguments of \<open>wg set\<close>.
\<close>

theorem config_readers_safe:
  "config_read env is_append lines \<noteq> Some (Inl E_null_deref) \<and> config_read_cmd env argv \<noteq> Some (Inl E_null_deref)
   \<and> (if getenv env ''WG_ENDPOINT_RESOLUTION_RETRIES'' = Some ''infinity'' then True
      else config_read env is_append lines \<noteq> None \<and> config_read_cmd env argv \<noteq> None)"
  using config_read_safe [of env is_append lines] config_read_cmd_safe [of env argv]
  by (simp add: run_safe_def finite_retries_def)

text \<open>
  C27: a configuration with no line that starts with \<open>WS\<close> sets none of the WebSocket flags of the
  device, so applying it emits no WebSocket key for the device.
\<close>

theorem config_read_without_ws:
  assumes "config_read env is_append lines = Some (Inr d)" and "\<not> list_ex ws_line lines"
  shows "list_all (\<lambda>b. \<not> dev_has d b) ws_device_flags"
  using config_read_no_ws [OF _ assms(1)] assms(2) by (auto simp: list_all_iff list_ex_iff)

theorem config_read_without_ws_witness: "list_all (\<lambda>b. \<not> dev_has sample_device b) ws_device_flags"
proof -
  have "\<not> list_ex ws_line sample_conf"
    by (simp add: sample_conf_def ws_line_def sample_lines sample_key_line [simplified] numeral_2_eq_2 tolower_c_def)
  with config_read_without_ws [OF sample_config_read] show ?thesis .
qed

text \<open>a device read from a configuration has one peer for each section header \<open>[Peer]\<close>, in any case and spacing.\<close>

theorem config_read_peer_count:
  assumes "config_read env is_append lines = Some (Inr d)"
  shows "length (peers d) = length (filter peer_line lines)"
proof -
  obtain ctx where "run_steps (config_read_line env) lines (config_read_init is_append) = Some (Inr ctx)" "d = device ctx"
    using assms by (rule config_read_Inr)
  then show ?thesis
    using run_steps_peers [OF ctx_inv_init] by (simp add: config_read_init_def zero_device_def dev_or_def)
qed

text \<open>
  C28: what \<open>wg set\<close> builds from its arguments never asks for the other peers of the device to be
  removed, and each of its peers has a public key and passes the WebSocket check.
\<close>

theorem config_read_cmd_accepted:
  assumes "config_read_cmd env argv = Some (Inr d)"
  shows "\<not> dev_has d WGDEVICE_REPLACE_PEERS
    \<and> list_all (\<lambda>p. peer_has p WGPEER_HAS_PUBLIC_KEY \<and> validate_ws_peer p = None \<and> list_all valid_prefix (allowedips p)) (peers d)"
proof -
  from assms obtain ctx where "cmd_loop env argv (config_read_init True) = Some (Inr ctx)" "d = device ctx"
    by (auto simp: config_read_cmd_def split: option.splits sum.splits)
  with cmd_loop_replace_peers have "\<not> dev_has d WGDEVICE_REPLACE_PEERS"
    by (fastforce simp: config_read_init_def zero_device_def)
  with config_read_cmd_Inr [OF assms] show ?thesis by (simp add: list_all_iff parsed_peer_def)
qed

definition cmd_peer :: wgpeer where
  "cmd_peer = zero_peer\<lparr>peer_public_key := zero_key, persistent_keepalive_interval := 25,
     peer_flags := WGPEER_HAS_PUBLIC_KEY OR WGPEER_HAS_PERSISTENT_KEEPALIVE_INTERVAL\<rparr>"

lemma sample_keepalive: "parse_persistent_keepalive f ''25'' = Inr (25, f OR WGPEER_HAS_PERSISTENT_KEEPALIVE_INTERVAL)"
  by (simp add: parse_persistent_keepalive_iff strcaseeq_def tolower_c_def is_digit_of_def digit_val_def digits_val_def)

lemma sample_config_read_cmd:
  "config_read_cmd sample_env [''fwmark'', ''0x10'', ''peer'', key_to_base64 zero_key, ''persistent-keepalive'', ''25''] =
     Some (Inr (zero_device\<lparr>dev_flags := WGDEVICE_HAS_FWMARK, fwmark := 16, peers := [cmd_peer]\<rparr>))"
proof -
  let ?d = "zero_device\<lparr>dev_flags := WGDEVICE_HAS_FWMARK, fwmark := 16\<rparr>"
  let ?p = "zero_peer\<lparr>peer_public_key := zero_key, peer_flags := WGPEER_HAS_PUBLIC_KEY\<rparr>"
  define c1 where "c1 = (config_read_init True)\<lparr>device := ?d\<rparr>"
  define c2 where "c2 = c1\<lparr>device := ?d\<lparr>peers := [?p]\<rparr>, last_peer := Some 0\<rparr>"
  define c3 where "c3 = c2\<lparr>device := ?d\<lparr>peers := [cmd_peer]\<rparr>\<rparr>"
  have s1: "cmd_step sample_env ''fwmark'' ''0x10'' (config_read_init True) = Some (Inr c1)"
    by (simp add: cmd_step_def config_read_init_def device_args_def device_ws_args_def set_fwmark_def sample_fwmark
        map_run_def zero_device_def c1_def)
  have s2: "cmd_step sample_env ''peer'' (key_to_base64 zero_key) c1 = Some (Inr c2)"
    by (simp add: cmd_step_def c1_def c2_def config_read_init_def add_peer_def link_after_def cursor_next_def on_last_peer_def
        set_peer_def parse_key_print map_run_def peer_or_def zero_peer_def zero_device_def)
  have "map_of (peer_args sample_env) ''persistent-keepalive'' = Some set_keepalive"
    by (simp add: peer_args_def peer_ws_args_def)
  then have s3: "cmd_step sample_env ''persistent-keepalive'' ''25'' c2 = Some (Inr c3)"
    by (simp add: cmd_step_def c1_def c2_def c3_def config_read_init_def on_last_peer_def set_keepalive_def sample_keepalive
        map_run_def cmd_peer_def zero_peer_def zero_device_def)
  show ?thesis
    by (simp add: config_read_cmd_def s1 s2 s3) (simp add: c3_def c2_def c1_def config_read_init_def cmd_peer_def
        validate_ws_peer_def zero_peer_def flag_set_or)
qed

theorem config_read_cmd_accepted_witness:
  "peer_has cmd_peer WGPEER_HAS_PUBLIC_KEY \<and> validate_ws_peer cmd_peer = None"
  using config_read_cmd_accepted [OF sample_config_read_cmd] by simp

end
