(* ===== verification/UapiProperties.thy ===== *)
theory UapiProperties
  imports UapiFacts ConfigProperties
begin

text \<open>The properties of the userspace protocol of \<open>src/src/ipc-uapi.h\<close>.\<close>

section \<open>A sample daemon\<close>

definition sample_aip :: wgallowedip where
  "sample_aip = zero_allowedip\<lparr>family := AF_INET, ip_words := [0x0A000001, 0, 0, 0], cidr := 32\<rparr>"

definition sample_upeer :: wgpeer where
  "sample_upeer = zero_peer\<lparr>peer_flags := WGPEER_HAS_PUBLIC_KEY OR WGPEER_HAS_PERSISTENT_KEEPALIVE_INTERVAL,
     endpoint := Sa_in 0x0A000001 51820, persistent_keepalive_interval := 25, allowedips := [sample_aip]\<rparr>"

definition sample_udevice :: wgdevice where
  "sample_udevice = zero_device\<lparr>dev_flags := WGDEVICE_HAS_LISTEN_PORT, listen_port := 51820, peers := [sample_upeer]\<rparr>"

definition sample_uenv0 :: uapi_env where
  "sample_uenv0 =
     \<lparr>sys = sample_env\<lparr>getaddrinfo := (\<lambda>_ _ _. Inr sample_addrinfo)\<rparr>,
      inet_ntop4 = (\<lambda>_. Some ''10.0.0.1''), inet_ntop6 = (\<lambda>_. None),
      getnameinfo = (\<lambda>_. Some (''10.0.0.1'', ''51820'')),
      interface_file = (\<lambda>_. Inl 2)\<rparr>"

definition sample_uenv :: uapi_env where
  "sample_uenv = sample_uenv0\<lparr>interface_file := (\<lambda>_. Inr (\<lambda>_. (listing sample_uenv0 sample_udevice, 0)))\<rparr>"

lemma sample_listing: "listing sample_uenv sample_udevice = listing sample_uenv0 sample_udevice"
  by (simp add: listing_def set_kvs_def peer_kvs_def sample_udevice_def sample_upeer_def zero_device_def zero_peer_def
      endpoint_kvs_def allowedip_kvs_def sample_uenv_def)

lemma sample_echo: "echo_device sample_uenv sample_udevice"
proof -
  have "echo_allowedip sample_uenv sample_aip"
    by (simp add: echo_allowedip_def sample_aip_def sample_uenv_def sample_uenv0_def sample_env_def valid_prefix_def
        zero_allowedip_def ip4_def af_defs)
  moreover have "echo_endpoint sample_uenv (Sa_in 0x0A000001 51820)"
    by (simp add: echo_endpoint_def sample_uenv_def sample_uenv0_def sample_env_def sample_addrinfo_def is_inet_def
        sizeof_sockaddr_in_def)
  ultimately show ?thesis
    by (simp add: echo_device_def echo_peer_def sample_udevice_def sample_upeer_def zero_device_def zero_peer_def
        opt_safe_def str_or_empty_def flag_set_or)
qed

section \<open>Properties\<close>

text \<open>
  C5: writing and reading agree. When no entry is marked for removal, no string holds a newline and the
  numeric addresses are read back by the resolver, a daemon that lists the lines it was sent makes
  \<open>userspace_get_device\<close> return exactly the device that was written: the fields that its flags
  announce, the peers in order, each with all its allowed IPs, and the public key of its private key.
\<close>

theorem userspace_round_trip:
  assumes "echo_device env d" and "interface_file env iface = Inr daemon"
    and "fst (daemon (''get=1'' @ [newline, newline])) = listing env d"
  shows "userspace_get_device env iface = Inr (echoed_device env iface d)"
  using assms by (simp add: userspace_get_device_def split_beta get_reply_listing)

theorem userspace_round_trip_witness:
  "echo_device sample_uenv sample_udevice \<and> peers sample_udevice = [sample_upeer] \<and>
   userspace_get_device sample_uenv ''wg0'' = Inr (echoed_device sample_uenv ''wg0'' sample_udevice)"
  using userspace_round_trip [OF sample_echo, of "''wg0''" "\<lambda>_. (listing sample_uenv0 sample_udevice, 0)"]
    sample_echo sample_listing by (simp add: sample_uenv_def sample_udevice_def)

text \<open>
  C18: every device that the parser of answers accepts is well-formed, whatever the daemon sends: the name
  fits in its buffer, keys have 32 bytes, every peer has a public key, and every allowed IP has a family
  and a prefix length within the range of the family.
\<close>

theorem userspace_get_device_valid:
  assumes "\<And>s w. inet_pton6 (sys env) s = Some w \<Longrightarrow> length w = 4" and "userspace_get_device env iface = Inr d"
  shows "uapi_device_ok d"
proof -
  obtain reply where r: "get_reply env reply
      \<lparr>udev = set_dev_name iface zero_device, upeer = None, uaip = None, uret = - EPROTO\<rparr> = Inr d"
    using assms(2) by (auto simp: userspace_get_device_def split_beta split: sum.splits)
  have st: "uapi_state_ok \<lparr>udev = set_dev_name iface zero_device, upeer = None, uaip = None, uret = - EPROTO\<rparr>"
    by (simp add: uapi_state_ok_def uapi_device_ok_def set_dev_name_def zero_device_def IFNAMSIZ_def)
  show ?thesis by (rule get_reply_ok [OF assms(1) st r])
qed

theorem userspace_get_device_valid_witness:
  "uapi_device_ok (echoed_device sample_uenv ''wg0'' sample_udevice)"
proof -
  have "userspace_get_device sample_uenv ''wg0'' = Inr (echoed_device sample_uenv ''wg0'' sample_udevice)"
    using get_reply_listing [OF sample_echo, of "''wg0''" "- EPROTO"] sample_listing
    by (simp add: userspace_get_device_def sample_uenv_def)
  then show ?thesis
    by (rule userspace_get_device_valid [rotated]) (simp add: sample_uenv_def sample_uenv0_def sample_env_def)
qed

text \<open>
  C19: success is reported only when the daemon acknowledged: if \<open>userspace_set_device\<close> returns 0, the
  whole request was handed to the daemon and its answer has a line \<open>errno=\<close> with a numeral of value 0.
\<close>

theorem userspace_set_device_acknowledged:
  assumes "userspace_set_device env d = 0" and "\<And>e. interface_file env (dev_name d) = Inl e \<Longrightarrow> e \<noteq> 0"
  shows "\<exists>daemon pre v post. interface_file env (dev_name d) = Inr daemon
    \<and> fst (daemon (set_request env d)) = pre @ ''errno='' @ v @ newline # post
    \<and> (pre = [] \<or> last pre = newline) \<and> strtoll 10 v = (0, [])"
proof (cases "interface_file env (dev_name d)")
  case (Inl e)
  then show ?thesis using assms by (simp add: userspace_set_device_def)
next
  case (Inr daemon)
  then have "set_reply (snd (daemon (set_request env d))) (fst (daemon (set_request env d))) (- EPROTO) = 0"
    using assms(1) by (simp add: userspace_set_device_def split_beta)
  then show ?thesis using set_reply_zero Inr by (force simp: EPROTO_def)
qed

lemma sample_set: "userspace_set_device (sample_uenv\<lparr>interface_file := (\<lambda>_. Inr (\<lambda>_. (''errno=0'' @ [newline, newline], 0)))\<rparr>) zero_device = 0"
proof -
  have g: "getline (''errno=0'' @ [newline, newline]) = Some (''errno=0'' @ [newline], [newline])"
    using getline_line [of "''errno=0''" "[newline]"] by (simp add: newline_def NUL_def)
  have "strto_scan 10 ''0'' = (False, 0, [])" by code_simp
  then have "strtoll 10 ''0'' = (0, [])" by (simp add: strtoll_def)
  moreover have "c_str (''errno=0'' @ [newline]) = ''errno=0'' @ [newline]"
    by (rule c_str_line) (simp add: newline_def NUL_def)
  ultimately have "set_reply 0 (''errno=0'' @ [newline, newline]) (- EPROTO) = set_reply 0 [newline] 0"
    using g by (subst set_reply.simps) (simp add: strchr_def INT_MAX_def INT_MIN_def is_digit_of_10)
  then show ?thesis
    by (simp add: userspace_set_device_def set_reply.simps [of 0 "[newline]"] getline_def c_str_def)
qed

theorem userspace_set_device_acknowledged_witness:
  "\<exists>daemon pre v post. interface_file (sample_uenv\<lparr>interface_file := (\<lambda>_. Inr (\<lambda>_. (''errno=0'' @ [newline, newline], 0)))\<rparr>) [] = Inr daemon
    \<and> fst (daemon (set_request (sample_uenv\<lparr>interface_file := (\<lambda>_. Inr (\<lambda>_. (''errno=0'' @ [newline, newline], 0)))\<rparr>) zero_device))
        = pre @ ''errno='' @ v @ newline # post"
  using userspace_set_device_acknowledged [OF sample_set] by (fastforce simp: zero_device_def)

text \<open>
  C36: the range of a prefix length is checked after it was cut to eight bits: an IPv4 entry of the answer
  is accepted exactly when its prefix length modulo 256 is at most 32, so \<open>/256\<close> is taken as \<open>/0\<close>.
\<close>

theorem uapi_allowedip_truncates:
  assumes "CHR ''/'' \<notin> set ip" and "CHR '':'' \<notin> set ip" and "inet_pton4 env ip = Some w" and "n \<le> ULONG_MAX"
  shows "(\<exists>st'. uapi_allowedip env (ip @ CHR ''/'' # print_u n) (p, cur) = Go st') \<longleftrightarrow> n mod 256 \<le> 32"
  using assms uapi_allowedip_read [of ip n env "[]" w p cur]
  by (simp add: Let_def word_less_nat_alt unat_of_nat)

theorem uapi_allowedip_truncates_witness:
  "\<exists>st'. uapi_allowedip sample_env (''10.0.0.1'' @ CHR ''/'' # print_u 256) (zero_peer, None) = Go st'"
proof -
  have "inet_pton4 sample_env ''10.0.0.1'' = Some 0x0A000001" by (simp add: sample_env_def)
  then show ?thesis using uapi_allowedip_truncates [of "''10.0.0.1''" sample_env "0x0A000001" 256 zero_peer None]
    by (simp add: ULONG_MAX_def)
qed

end
