(* ===== verification/Ipc.thy ===== *)
theory Ipc
  imports UapiProperties
begin

text \<open>
  The choice of a backend in \<open>src/src/ipc.c\<close> and the UNIX sockets of \<open>src/src/ipc-uapi-unix.h\<close>.

  The list of interface names is the growing byte buffer \<open>string_list\<close>; its bytes are \<open>None\<close> until they
  are written, and a write outside the buffer is the result \<open>None\<close>. The directory of sockets is a state
  (\<open>sockfs\<close>) that the functions return updated, since they remove the sockets of processes that are
  gone. The kernel backend is an argument (\<open>kernel\<close>).
\<close>

section \<open>Lists of names\<close>

record string_list =
  sl_buffer :: "char option list"
  sl_len :: u64
  sl_cap :: u64

definition empty_list :: string_list where
  "empty_list = \<lparr>sl_buffer = [], sl_len = 0, sl_cap = 0\<rparr>"

definition realloc :: "char option list \<Rightarrow> nat \<Rightarrow> char option list" where
  "realloc buf n = take n buf @ replicate (n - length buf) None"

definition memcpy_at :: "char option list \<Rightarrow> nat \<Rightarrow> string \<Rightarrow> char option list option" where
  "memcpy_at buf off bs =
     (if off + length bs \<le> length buf then Some (take off buf @ map Some bs @ drop (off + length bs) buf) else None)"

definition string_list_add :: "string_list \<Rightarrow> string \<Rightarrow> string_list option" where
  "string_list_add list str =
     (let len = word_of_nat (length str) + 1
      in if len = 1 then Some list
         else
           let grown =
                 (if len \<ge> sl_cap list - sl_len list then
                    let new_cap = sl_cap list * 2;
                        new_cap = (if new_cap < sl_len list + len + 1 then sl_len list + len + 1 else new_cap)
                    in list\<lparr>sl_buffer := realloc (sl_buffer list) (unat new_cap), sl_cap := new_cap\<rparr>
                  else list)
           in case memcpy_at (sl_buffer grown) (unat (sl_len grown)) (str @ [NUL]) of
                None \<Rightarrow> None
              | Some buf \<Rightarrow>
                  let new_len = sl_len grown + len
                  in map_option (\<lambda>buf. grown\<lparr>sl_buffer := buf, sl_len := new_len\<rparr>) (memcpy_at buf (unat new_len) [NUL]))"

fun string_list_adds :: "string_list \<Rightarrow> string list \<Rightarrow> string_list option" where
  "string_list_adds list [] = Some list"
| "string_list_adds list (s # ss) = (case string_list_add list s of None \<Rightarrow> None | Some list' \<Rightarrow> string_list_adds list' ss)"

text \<open>The loop of the readers: \<open>for (len = 0; (len = strlen(interface)); interface += len + 1)\<close>.\<close>

function list_names :: "string \<Rightarrow> string list" where
  "list_names buf =
     (let name = c_str buf
      in if name = [] then [] else name # list_names (drop (length name + 1) buf))"
  by pat_completeness auto
termination
proof (relation "measure length", goal_cases)
  case (2 buf x)
  then have "buf \<noteq> []" by (auto simp: c_str_def)
  then show ?case by (simp add: c_str_def)
qed simp

section \<open>Sockets of the userspace implementations\<close>

datatype sock_state =
    Absent int
  | Not_socket
  | Listening "string \<Rightarrow> string \<times> int"
  | Refused
  | Unreachable int

type_synonym sockfs = "string \<Rightarrow> sock_state"

record unix_env =
  socket_errno :: "int option"
  fdopen_errno :: "int option"
  opendir :: "int + string list"

definition ENOENT :: int where "ENOENT = 2"
definition EBADF :: int where "EBADF = 9"
definition EINVAL :: int where "EINVAL = 22"
definition ECONNREFUSED :: int where "ECONNREFUSED = 111"
definition EOPNOTSUPP :: int where "EOPNOTSUPP = 95"

definition SOCK_PATH :: string where "SOCK_PATH = ''/var/run/wireguard/''"
definition SOCK_SUFFIX :: string where "SOCK_SUFFIX = ''.sock''"

text \<open>\<open>snprintf\<close> into the 108 bytes of \<open>sun_path\<close>.\<close>

definition sun_path :: "string \<Rightarrow> string" where
  "sun_path iface = take 107 (SOCK_PATH @ iface @ SOCK_SUFFIX)"

definition userspace_interface_file ::
    "unix_env \<Rightarrow> string \<Rightarrow> sockfs \<Rightarrow> (int + (string \<Rightarrow> string \<times> int)) \<times> sockfs" where
  "userspace_interface_file env iface fs =
     (if strchr iface CHR ''/'' \<noteq> None then (Inl EINVAL, fs)
      else
        let path = sun_path iface
        in case fs path of
             Absent e \<Rightarrow> (Inl e, fs)
           | Not_socket \<Rightarrow> (Inl EBADF, fs)
           | s \<Rightarrow>
               (case socket_errno env of
                  Some e \<Rightarrow> (Inl e, fs)
                | None \<Rightarrow>
                    (case s of
                       Refused \<Rightarrow> (Inl ECONNREFUSED, fs(path := Absent ENOENT))
                     | Unreachable e \<Rightarrow> (Inl e, fs)
                     | Listening daemon \<Rightarrow>
                         (case fdopen_errno env of Some e \<Rightarrow> (Inl e, fs) | None \<Rightarrow> (Inr daemon, fs))
                     | _ \<Rightarrow> (Inl EBADF, fs))))"

definition userspace_has_wireguard_interface :: "unix_env \<Rightarrow> string \<Rightarrow> sockfs \<Rightarrow> bool \<times> sockfs" where
  "userspace_has_wireguard_interface env iface fs =
     (if strchr iface CHR ''/'' \<noteq> None then (False, fs)
      else
        let path = sun_path iface
        in case fs path of
             Absent _ \<Rightarrow> (False, fs)
           | Not_socket \<Rightarrow> (False, fs)
           | s \<Rightarrow>
               (case socket_errno env of
                  Some _ \<Rightarrow> (False, fs)
                | None \<Rightarrow> (case s of Refused \<Rightarrow> (False, fs(path := Absent ENOENT)) | _ \<Rightarrow> (True, fs))))"

text \<open>The name of a directory entry without the suffix \<open>.sock\<close>; \<open>None\<close> for the entries that are passed over.\<close>

definition strip_suffix :: "string \<Rightarrow> string option" where
  "strip_suffix d_name =
     (let len = length d_name
      in if len \<le> length SOCK_SUFFIX then None
         else if drop (len - length SOCK_SUFFIX) d_name \<noteq> SOCK_SUFFIX then None
         else Some (take (len - length SOCK_SUFFIX) d_name))"

fun scan_sockets :: "unix_env \<Rightarrow> string list \<Rightarrow> string_list \<Rightarrow> sockfs \<Rightarrow> string_list option \<times> sockfs" where
  "scan_sockets env [] list fs = (Some list, fs)"
| "scan_sockets env (ent # ents) list fs =
     (case strip_suffix ent of
        None \<Rightarrow> scan_sockets env ents list fs
      | Some name \<Rightarrow>
          let (has, fs') = userspace_has_wireguard_interface env name fs
          in if \<not> has then scan_sockets env ents list fs'
             else (case string_list_add list name of
                     None \<Rightarrow> (None, fs')
                   | Some list' \<Rightarrow> scan_sockets env ents list' fs'))"

definition userspace_get_wireguard_interfaces ::
    "unix_env \<Rightarrow> string_list \<Rightarrow> sockfs \<Rightarrow> (int + string_list option) \<times> sockfs" where
  "userspace_get_wireguard_interfaces env list fs =
     (case opendir env of
        Inl e \<Rightarrow> (if e = ENOENT then (Inr (Some list), fs) else (Inl (- e), fs))
      | Inr ents \<Rightarrow> let (r, fs') = scan_sockets env ents list fs in (Inr r, fs'))"

section \<open>Choosing the backend\<close>

record kernel =
  kernel_get_wireguard_interfaces :: "int + string list"
  kernel_get_device :: "string \<Rightarrow> int + wgdevice"
  kernel_set_device :: "wgdevice \<Rightarrow> int"

record ipc_env =
  uapi :: uapi_env
  usocks :: unix_env
  kern :: kernel

text \<open>The list of all interfaces; \<open>Inr None\<close> is a write outside the buffer.\<close>

definition ipc_list_devices :: "ipc_env \<Rightarrow> sockfs \<Rightarrow> (int + string_list option) \<times> sockfs" where
  "ipc_list_devices env fs =
     (case kernel_get_wireguard_interfaces (kern env) of
        Inl ret \<Rightarrow> (Inl ret, fs)
      | Inr names \<Rightarrow>
          (case string_list_adds empty_list names of
             None \<Rightarrow> (Inr None, fs)
           | Some list \<Rightarrow> userspace_get_wireguard_interfaces (usocks env) list fs))"

definition uapi_of :: "ipc_env \<Rightarrow> sockfs \<Rightarrow> uapi_env" where
  "uapi_of env fs = (uapi env)\<lparr>interface_file := (\<lambda>iface. fst (userspace_interface_file (usocks env) iface fs))\<rparr>"

definition ipc_get_device :: "ipc_env \<Rightarrow> string \<Rightarrow> sockfs \<Rightarrow> (int + wgdevice) \<times> sockfs" where
  "ipc_get_device env iface fs =
     (let (has, fs1) = userspace_has_wireguard_interface (usocks env) iface fs
      in if has
         then (userspace_get_device (uapi_of env fs1) iface, snd (userspace_interface_file (usocks env) iface fs1))
         else (kernel_get_device (kern env) iface, fs1))"

definition nonempty :: "string option \<Rightarrow> bool" where
  "nonempty s \<longleftrightarrow> (case s of None \<Rightarrow> False | Some v \<Rightarrow> v \<noteq> [])"

definition device_has_ws_settings :: "wgdevice \<Rightarrow> bool" where
  "device_has_ws_settings d \<longleftrightarrow>
     nonempty (ws_listen d) \<or> ws_server_tls_cert d \<noteq> None \<or> ws_server_tls_key d \<noteq> None
     \<or> ws_server_bearer d \<noteq> None \<or> ws_trusted_proxies d \<noteq> None
     \<or> list_ex (\<lambda>p. transport p \<noteq> WGPEER_TRANSPORT_UDP) (peers d)"

definition ipc_set_device :: "ipc_env \<Rightarrow> wgdevice \<Rightarrow> sockfs \<Rightarrow> int \<times> sockfs" where
  "ipc_set_device env d fs =
     (let (has, fs1) = userspace_has_wireguard_interface (usocks env) (dev_name d) fs
      in if has
         then (userspace_set_device (uapi_of env fs1) d, snd (userspace_interface_file (usocks env) (dev_name d) fs1))
         else if device_has_ws_settings d then (- EOPNOTSUPP, fs1)
         else (kernel_set_device (kern env) d, fs1))"

section \<open>The name buffer\<close>

definition joined :: "string list \<Rightarrow> string" where
  "joined ss = concat (map (\<lambda>s. s @ [NUL]) ss)"

lemma joined_simps [simp]:
  "joined [] = []" "joined (s # ss) = s @ NUL # joined ss" "joined (xs @ ys) = joined xs @ joined ys"
  by (simp_all add: joined_def)

text \<open>
  The buffer holds the names, each with its terminator, and the final NUL; it has the size of the
  capacity, which is at most twice what is in use.
\<close>

definition sl_ok :: "string_list \<Rightarrow> string list \<Rightarrow> bool" where
  "sl_ok l ss \<longleftrightarrow> length (sl_buffer l) = unat (sl_cap l) \<and> unat (sl_len l) = length (joined ss)
     \<and> unat (sl_cap l) \<le> 2 * unat (sl_len l)
     \<and> (if ss = [] then sl_cap l = 0
        else take (length (joined ss) + 1) (sl_buffer l) = map Some (joined ss @ [NUL]) \<and> unat (sl_len l) < unat (sl_cap l))"

lemma sl_ok_empty [simp]: "sl_ok empty_list []"
  by (simp add: sl_ok_def empty_list_def)

lemma memcpy_at_fits: "off + length bs \<le> length buf \<Longrightarrow> memcpy_at buf off bs = Some (take off buf @ map Some bs @ drop (off + length bs) buf)"
  by (simp add: memcpy_at_def)

lemma write_name:
  assumes "length p < length buf" and "take (length p) buf = map Some p" and "length p + length s + 2 \<le> length buf"
  shows "\<exists>b1 b2. memcpy_at buf (length p) (s @ [NUL]) = Some b1 \<and> memcpy_at b1 (length p + length s + 1) [NUL] = Some b2
    \<and> length b2 = length buf \<and> take (length p + length s + 2) b2 = map Some (p @ s @ [NUL, NUL])"
proof -
  let ?b1 = "map Some p @ map Some (s @ [NUL]) @ drop (length p + length s + 1) buf"
  have b1: "memcpy_at buf (length p) (s @ [NUL]) = Some ?b1"
    using assms by (subst memcpy_at_fits) (simp_all add: add.assoc)
  have "length ?b1 = length buf" using assms(3) by simp
  then have "memcpy_at ?b1 (length p + length s + 1) [NUL]
      = Some (take (length p + length s + 1) ?b1 @ [Some NUL] @ drop (length p + length s + 1 + 1) ?b1)"
    using assms(3) by (subst memcpy_at_fits) simp_all
  moreover have "take (length p + length s + 1) ?b1 = map Some (p @ s @ [NUL])" by simp
  ultimately show ?thesis
    using b1 assms(3) \<open>length ?b1 = length buf\<close> by auto
qed

lemma unat_u64_small: "n < 2 ^ 64 \<Longrightarrow> unat (word_of_nat n :: u64) = n"
  by (simp add: unat_of_nat)

lemma u64_add: "unat (a :: u64) + unat b < 2 ^ 64 \<Longrightarrow> unat (a + b) = unat a + unat b"
  by (simp add: unat_word_ariths)

lemma string_list_add_ok:
  assumes "sl_ok l ss" and "length (joined ss) + length s < 2 ^ 62"
  shows "\<exists>l'. string_list_add l s = Some l' \<and> sl_ok l' (if s = [] then ss else ss @ [s])"
proof (cases "s = []")
  case True
  then show ?thesis using assms by (auto simp: string_list_add_def)
next
  case False
  let ?p = "joined ss"
  define len :: u64 where "len = word_of_nat (length s) + 1"
  have bufl: "length (sl_buffer l) = unat (sl_cap l)" and ulen: "unat (sl_len l) = length ?p"
    and cap2: "unat (sl_cap l) \<le> 2 * length ?p" and low: "unat (sl_len l) \<le> unat (sl_cap l)"
    using assms(1) by (auto simp: sl_ok_def split: if_splits)
  have len1: "unat len = length s + 1"
    using assms(2) u64_add [of "word_of_nat (length s)" 1] unat_u64_small [of "length s"] by (simp add: len_def)
  then have "len \<noteq> 1" using False by auto
  note len = len1 this
  have tot: "unat (sl_len l + len + 1) = length ?p + length s + 2" "unat (sl_len l + len) = length ?p + length s + 1"
    using u64_add [of "sl_len l" len] u64_add [of "sl_len l + len" 1] len(1) ulen assms(2) by simp_all
  have dbl: "unat (sl_cap l * 2) = 2 * unat (sl_cap l)"
    using cap2 assms(2) by (simp add: unat_word_ariths)
  have sub: "unat (sl_cap l - sl_len l) = unat (sl_cap l) - length ?p"
    using low ulen by (simp add: unat_sub word_le_nat_alt)
  define nc where "nc = (if sl_cap l * 2 < sl_len l + len + 1 then sl_len l + len + 1 else sl_cap l * 2)"
  define g where "g = (if len \<ge> sl_cap l - sl_len l then l\<lparr>sl_buffer := realloc (sl_buffer l) (unat nc), sl_cap := nc\<rparr> else l)"
  have nc: "unat nc = max (2 * unat (sl_cap l)) (length ?p + length s + 2)"
    using dbl tot by (auto simp: nc_def word_less_nat_alt)
  have g: "length (sl_buffer g) = unat (sl_cap g)" "sl_len g = sl_len l" "length ?p + length s + 2 \<le> unat (sl_cap g)"
    "unat (sl_cap g) \<le> 2 * (length ?p + length s + 1)"
    using bufl nc len sub cap2 by (auto simp: g_def realloc_def word_le_nat_alt)
  have pre: "take (length ?p) (sl_buffer g) = map Some ?p"
  proof (cases "ss = []")
    case False
    then have "take (length ?p + 1) (sl_buffer l) = map Some (?p @ [NUL])" using assms(1) by (simp add: sl_ok_def)
    then have "take (length ?p) (sl_buffer l) = map Some ?p" by (metis append_eq_conv_conj le_add1 length_map map_append min.absorb1 take_take)
    then show ?thesis using bufl nc low ulen by (auto simp: g_def realloc_def min_def)
  qed simp
  obtain b1 b2 where b: "memcpy_at (sl_buffer g) (length ?p) (s @ [NUL]) = Some b1" "memcpy_at b1 (length ?p + length s + 1) [NUL] = Some b2"
    "length b2 = length (sl_buffer g)" "take (length ?p + length s + 2) b2 = map Some (?p @ s @ [NUL, NUL])"
    using write_name [of ?p "sl_buffer g" s] pre g by auto
  have "string_list_add l s = Some (g\<lparr>sl_buffer := b2, sl_len := sl_len l + len\<rparr>)"
    unfolding string_list_add_def len_def [symmetric] Let_def nc_def [symmetric] g_def [symmetric]
    using len(2) b g(2) tot ulen by simp
  then show ?thesis
    using False b g tot by (auto simp: sl_ok_def)
qed

lemma joined_length_filter: "length (joined (filter P ss)) \<le> length (joined ss)"
  by (induction ss) auto

lemma string_list_adds_ok:
  assumes "sl_ok l ss" and "length (joined (ss @ ns)) < 2 ^ 62"
  shows "\<exists>l'. string_list_adds l ns = Some l' \<and> sl_ok l' (ss @ filter (\<lambda>s. s \<noteq> []) ns)"
  using assms
proof (induction ns arbitrary: l ss)
  case (Cons n ns)
  obtain l1 where l1: "string_list_add l n = Some l1" "sl_ok l1 (if n = [] then ss else ss @ [n])"
    using string_list_add_ok [OF Cons.prems(1), of n] Cons.prems(2) by auto
  then show ?case using Cons.IH [OF l1(2)] Cons.prems(2) by (auto split: if_splits)
qed simp

text \<open>What the readers see of the buffer: the bytes that were written.\<close>

definition sl_string :: "string_list \<Rightarrow> string" where
  "sl_string l = map the (takeWhile (\<lambda>b. b \<noteq> None) (sl_buffer l))"

declare list_names.simps [simp del]

lemma c_str_terminated: "no_nul s \<Longrightarrow> c_str (s @ NUL # rest) = s"
  by (auto simp: c_str_def no_nul_def takeWhile_append)

lemma list_names_joined:
  assumes "list_all no_nul ss" and "[] \<notin> set ss"
  shows "list_names (joined ss @ NUL # rest) = ss"
  using assms
proof (induction ss)
  case Nil
  then show ?case by (simp add: list_names.simps c_str_def)
next
  case (Cons s ss)
  then have "c_str (joined (s # ss) @ NUL # rest) = s" using c_str_terminated [of s "joined ss @ NUL # rest"] by simp
  then show ?case using Cons by (subst list_names.simps) (auto simp: Let_def)
qed

lemma takeWhile_Some_prefix: "takeWhile (\<lambda>b. b \<noteq> None) (map Some xs @ ys) = map Some xs @ takeWhile (\<lambda>b. b \<noteq> None) ys"
  by (induction xs) auto

lemma sl_ok_names:
  assumes "sl_ok l ss" and "list_all no_nul ss" and "[] \<notin> set ss"
  shows "list_names (sl_string l) = ss"
proof (cases "ss = []")
  case True
  then show ?thesis using assms(1) by (auto simp: sl_ok_def sl_string_def list_names.simps c_str_def)
next
  case False
  have "take (length (joined ss) + 1) (sl_buffer l) = map Some (joined ss @ [NUL])"
    using assms(1) False by (simp add: sl_ok_def)
  then obtain r where "sl_buffer l = map Some (joined ss @ [NUL]) @ r"
    by (metis append_take_drop_id)
  then have "sl_string l = joined ss @ NUL # map the (takeWhile (\<lambda>b. b \<noteq> None) r)"
    unfolding sl_string_def by (simp only: takeWhile_Some_prefix) (simp add: comp_def)
  then show ?thesis using list_names_joined [OF assms(2,3)] by simp
qed

section \<open>Sockets\<close>

text \<open>Only the sockets of processes that are gone are removed.\<close>

definition cleans :: "sockfs \<Rightarrow> sockfs \<Rightarrow> bool" where
  "cleans fs fs' \<longleftrightarrow> (\<forall>p. fs' p = fs p \<or> fs p = Refused \<and> fs' p = Absent ENOENT)"

lemma cleans_refl [simp]: "cleans fs fs"
  by (simp add: cleans_def)

lemma cleans_trans: "cleans a b \<Longrightarrow> cleans b c \<Longrightarrow> cleans a c"
  unfolding cleans_def by (metis sock_state.distinct(5))

lemma cleans_remove: "fs p = Refused \<Longrightarrow> cleans fs (fs(p := Absent ENOENT))"
  by (simp add: cleans_def)

lemma has_interface_cleans: "cleans fs (snd (userspace_has_wireguard_interface env n fs))"
  by (simp add: userspace_has_wireguard_interface_def Let_def cleans_remove split: sock_state.split option.split)

lemma interface_file_cleans: "cleans fs (snd (userspace_interface_file env n fs))"
  by (simp add: userspace_interface_file_def Let_def cleans_remove split: sock_state.split option.split)

lemma has_interface_stable:
  assumes "cleans fs fs'"
  shows "fst (userspace_has_wireguard_interface env n fs') = fst (userspace_has_wireguard_interface env n fs)"
proof -
  have "fs' (sun_path n) = fs (sun_path n) \<or> fs (sun_path n) = Refused \<and> fs' (sun_path n) = Absent ENOENT"
    using assms by (simp add: cleans_def)
  then show ?thesis
    by (auto simp: userspace_has_wireguard_interface_def Let_def split: option.split sock_state.split)
qed

lemma strip_suffix_length: "strip_suffix e = Some n \<Longrightarrow> length n < length e \<and> n \<noteq> [] \<and> set n \<subseteq> set e"
  by (auto simp: strip_suffix_def Let_def SOCK_SUFFIX_def split: if_splits dest: in_set_takeD)

lemma scan_sockets_names:
  assumes "sl_ok l ss" and "length (joined (ss @ ents)) < 2 ^ 62"
  shows "\<exists>l' fs'. scan_sockets env ents l fs = (Some l', fs') \<and> cleans fs fs'
    \<and> sl_ok l' (ss @ filter (\<lambda>n. fst (userspace_has_wireguard_interface env n fs)) (List.map_filter strip_suffix ents))"
  using assms
proof (induction ents arbitrary: l ss fs)
  case (Cons e ents)
  show ?case
  proof (cases "strip_suffix e")
    case None
    then show ?thesis using Cons.IH [OF Cons.prems(1), of fs] Cons.prems(2) by (simp add: List.map_filter_simps)
  next
    case (Some n)
    define h where "h = userspace_has_wireguard_interface env n fs"
    have cl: "cleans fs (snd h)" unfolding h_def by (rule has_interface_cleans)
    have st: "\<And>m. fst (userspace_has_wireguard_interface env m (snd h)) = fst (userspace_has_wireguard_interface env m fs)"
      using has_interface_stable [OF cl] by blast
    have n: "length n < length e" "n \<noteq> []" using strip_suffix_length [OF Some] by auto
    show ?thesis
    proof (cases "fst h")
      case False
      then show ?thesis
        using Some Cons.IH [OF Cons.prems(1), of "snd h"] Cons.prems(2) cl st
        by (auto simp: List.map_filter_simps split_beta h_def [symmetric] intro: cleans_trans)
    next
      case True
      obtain l1 where l1: "string_list_add l n = Some l1" "sl_ok l1 (ss @ [n])"
        using string_list_add_ok [OF Cons.prems(1), of n] Cons.prems(2) n by auto
      have "length (joined ((ss @ [n]) @ ents)) < 2 ^ 62" using Cons.prems(2) n(1) by simp
      then show ?thesis
        using True Some Cons.IH [OF l1(2), of "snd h"] l1(1) cl st
        by (auto simp: List.map_filter_simps split_beta h_def [symmetric] intro: cleans_trans)
    qed
  qed
qed (simp add: List.map_filter_simps)

section \<open>Properties\<close>

lemma map_filter_strip:
  assumes "list_all no_nul ents"
  shows "list_all no_nul (List.map_filter strip_suffix ents)" and "[] \<notin> set (List.map_filter strip_suffix ents)"
  using assms strip_suffix_length
  by (fastforce simp: List.map_filter_def list_all_iff no_nul_def)+

text \<open>
  C14: listing the interfaces never writes outside its buffer, whatever the number and the length of the
  names (below \<open>2^62\<close> bytes in all), and the list that is read back name by name consists of the
  non-empty names of the kernel followed by exactly the names of the sockets that answer, in order; on
  the way only sockets of processes that are gone are removed.
\<close>

theorem ipc_list_devices_names:
  assumes "kernel_get_wireguard_interfaces (kern env) = Inr ns" and "opendir (usocks env) = Inr ents"
    and "list_all no_nul (ns @ ents)" and "length (joined (ns @ ents)) < 2 ^ 62"
  shows "\<exists>l fs'. ipc_list_devices env fs = (Inr (Some l), fs') \<and> cleans fs fs'
    \<and> list_names (sl_string l) = filter (\<lambda>s. s \<noteq> []) ns
        @ filter (\<lambda>n. fst (userspace_has_wireguard_interface (usocks env) n fs)) (List.map_filter strip_suffix ents)"
proof -
  obtain l where l: "string_list_adds empty_list ns = Some l" "sl_ok l (filter (\<lambda>s. s \<noteq> []) ns)"
    using string_list_adds_ok [OF sl_ok_empty, of ns] assms(4) by auto
  have "length (joined (filter (\<lambda>s. s \<noteq> []) ns @ ents)) < 2 ^ 62"
    using assms(4) joined_length_filter [of "\<lambda>s. s \<noteq> []" ns] by simp
  then obtain l' fs' where l': "scan_sockets (usocks env) ents l fs = (Some l', fs')" "cleans fs fs'"
    "sl_ok l' (filter (\<lambda>s. s \<noteq> []) ns
       @ filter (\<lambda>n. fst (userspace_has_wireguard_interface (usocks env) n fs)) (List.map_filter strip_suffix ents))"
    using scan_sockets_names [OF l(2), of ents "usocks env" fs] by blast
  have "list_all no_nul ents" using assms(3) by simp
  note strip = map_filter_strip [OF this]
  from l'(3) have "list_names (sl_string l') = filter (\<lambda>s. s \<noteq> []) ns
      @ filter (\<lambda>n. fst (userspace_has_wireguard_interface (usocks env) n fs)) (List.map_filter strip_suffix ents)"
    by (rule sl_ok_names) (use assms(3) strip in \<open>auto simp: list_all_iff\<close>)
  then show ?thesis
    using assms(1,2) l(1) l'(1,2) by (simp add: ipc_list_devices_def userspace_get_wireguard_interfaces_def)
qed

definition sample_unix :: unix_env where
  "sample_unix = \<lparr>socket_errno = None, fdopen_errno = None, opendir = Inr [''wg1.sock'', ''wg2.sock'', ''README'']\<rparr>"

definition sample_socks :: sockfs where
  "sample_socks p = (if p = ''/var/run/wireguard/wg1.sock'' then Listening (\<lambda>_. ([], 0)) else Refused)"

definition sample_kernel :: kernel where
  "sample_kernel = \<lparr>kernel_get_wireguard_interfaces = Inr [''wg0''], kernel_get_device = (\<lambda>_. Inl (- 19)), kernel_set_device = (\<lambda>_. 0)\<rparr>"

definition sample_ipc :: ipc_env where
  "sample_ipc = \<lparr>uapi = sample_uenv, usocks = sample_unix, kern = sample_kernel\<rparr>"

lemma sample_has:
  "fst (userspace_has_wireguard_interface sample_unix ''wg1'' sample_socks)"
  "\<not> fst (userspace_has_wireguard_interface sample_unix ''wg2'' sample_socks)"
  by (simp_all add: userspace_has_wireguard_interface_def strchr_def sun_path_def SOCK_PATH_def SOCK_SUFFIX_def
      sample_socks_def sample_unix_def)

theorem ipc_list_devices_names_witness:
  "\<exists>l fs'. ipc_list_devices sample_ipc sample_socks = (Inr (Some l), fs') \<and> list_names (sl_string l) = [''wg0'', ''wg1'']"
proof -
  have strip: "List.map_filter strip_suffix [''wg1.sock'', ''wg2.sock'', ''README''] = [''wg1'', ''wg2'']"
    by (simp add: List.map_filter_simps strip_suffix_def SOCK_SUFFIX_def)
  have env: "kernel_get_wireguard_interfaces (kern sample_ipc) = Inr [''wg0'']" "usocks sample_ipc = sample_unix"
    "opendir (usocks sample_ipc) = Inr [''wg1.sock'', ''wg2.sock'', ''README'']"
    by (simp_all add: sample_ipc_def sample_kernel_def sample_unix_def)
  have len: "length (joined ([''wg0''] @ [''wg1.sock'', ''wg2.sock'', ''README''])) < 2 ^ 62"
    and nul: "list_all no_nul ([''wg0''] @ [''wg1.sock'', ''wg2.sock'', ''README''])"
    by (simp_all add: no_nul_def NUL_def)
  show ?thesis
    using ipc_list_devices_names [OF env(1,3) nul len, of sample_socks, unfolded strip env(2)] sample_has by auto
qed

section \<open>What is removed from the socket directory\<close>

lemma get_set_clean:
  "cleans fs (snd (ipc_get_device env iface fs))" "cleans fs (snd (ipc_set_device env d fs))"
proof -
  have step: "cleans fs (snd (userspace_interface_file (usocks env) n (snd (userspace_has_wireguard_interface (usocks env) n fs))))" for n
    by (rule cleans_trans [OF has_interface_cleans interface_file_cleans])
  show "cleans fs (snd (ipc_get_device env iface fs))" "cleans fs (snd (ipc_set_device env d fs))"
    using step [of iface] step [of "dev_name d"] has_interface_cleans [of fs "usocks env"]
    by (simp_all add: ipc_get_device_def ipc_set_device_def split_beta)
qed

lemma scan_sockets_cleans: "cleans fs (snd (scan_sockets env ents l fs))"
proof (induction ents arbitrary: l fs)
  case (Cons e ents)
  have "cleans fs (snd (scan_sockets env ents l' (snd (userspace_has_wireguard_interface env n fs))))" for l' n
    by (rule cleans_trans [OF has_interface_cleans Cons.IH])
  then show ?case using Cons.IH has_interface_cleans by (auto simp: split_beta Let_def split: option.split)
qed simp

lemma list_cleans: "cleans fs (snd (ipc_list_devices env fs))"
  by (auto simp: ipc_list_devices_def userspace_get_wireguard_interfaces_def split_beta Let_def scan_sockets_cleans split: sum.split option.split)

end
