(* ===== verification/Showconf.thy ===== *)
theory Showconf
  imports Ipc ConfigDispatch
begin

text \<open>
  The command \<open>wg showconf\<close> (\<open>src/src/showconf.c\<close>) prints a device in the format that
  \<open>src/src/config.c\<close> reads. The text is built from its lines; the lines of a section are pairs of key
  and value, printed as \<open>key = value\<close>. The lemmas show that the reader makes of the text the device that
  was printed.
\<close>

section \<open>The printer\<close>

definition conf_line :: "string \<times> string \<Rightarrow> string" where
  "conf_line kv = fst kv @ '' = '' @ snd kv"

definition text_of_lines :: "string list \<Rightarrow> string" where
  "text_of_lines ls = concat (map (\<lambda>l. l @ [newline]) ls)"

definition emit_nonempty :: "string \<Rightarrow> string option \<Rightarrow> kvs" where
  "emit_nonempty k s = (case s of None \<Rightarrow> [] | Some v \<Rightarrow> if v \<noteq> [] then [(k, v)] else [])"

definition print_ip :: "uapi_env \<Rightarrow> wgallowedip \<Rightarrow> string option" where
  "print_ip env a =
     (if family a = AF_INET then inet_ntop4 env (ip4 a)
      else if family a = AF_INET6 then inet_ntop6 env (ip_words a) else None)"

text \<open>The entries of \<open>AllowedIPs\<close>; one that cannot be printed is passed over with its separator.\<close>

fun print_allowedips :: "uapi_env \<Rightarrow> wgallowedip list \<Rightarrow> string" where
  "print_allowedips env [] = []"
| "print_allowedips env (a # as) =
     (case print_ip env a of
        None \<Rightarrow> print_allowedips env as
      | Some ip \<Rightarrow> ip @ ''/'' @ print_u (unat (cidr a)) @ (if as \<noteq> [] then '', '' else []) @ print_allowedips env as)"

definition showconf_interface :: "wgdevice \<Rightarrow> kvs" where
  "showconf_interface d =
     emit_if (listen_port d \<noteq> 0) ''ListenPort'' (print_u (unat (listen_port d)))
     @ emit_if (fwmark d \<noteq> 0) ''FwMark'' (''0x'' @ print_x (unat (fwmark d)))
     @ emit_if (dev_has d WGDEVICE_HAS_PRIVATE_KEY) ''PrivateKey'' (key_to_base64 (private_key d))
     @ emit_nonempty ''WSListen'' (ws_listen d)
     @ emit_nonempty ''WSServerTLSCert'' (ws_server_tls_cert d)
     @ emit_nonempty ''WSServerTLSKey'' (ws_server_tls_key d)
     @ emit_nonempty ''WSServerBearer'' (ws_server_bearer d)
     @ emit_nonempty ''WSTrustedProxies'' (ws_trusted_proxies d)"

definition showconf_ws :: "wgpeer \<Rightarrow> kvs" where
  "showconf_ws p =
     [(''WSMode'', if transport p = WGPEER_TRANSPORT_WSTUNNEL then ''wstunnel'' else ''websocket'')]
     @ emit_opt ''Endpoint'' (ws_url p)
     @ emit_opt ''WSTunnelTarget'' (wstunnel_target p)
     @ emit_opt ''WSBearer'' (ws_bearer p)
     @ emit_if (ws_mask p) ''WSMask'' ''true''
     @ emit_opt ''WSTLSCA'' (ws_tls_ca p)
     @ emit_opt ''WSTLSCert'' (ws_tls_cert p)
     @ emit_opt ''WSTLSKey'' (ws_tls_key p)
     @ emit_if (ws_tls_insecure p) ''WSTLSInsecure'' ''true''
     @ emit_if (ws_ping_interval_ms p \<noteq> 0) ''WSPingInterval'' (print_u (unat (ws_ping_interval_ms p)))
     @ emit_if (ws_backoff_min_ms p \<noteq> 0) ''WSBackoffMin'' (print_u (unat (ws_backoff_min_ms p)))
     @ emit_if (ws_backoff_max_ms p \<noteq> 0) ''WSBackoffMax'' (print_u (unat (ws_backoff_max_ms p)))"

definition showconf_endpoint :: "uapi_env \<Rightarrow> sockaddr \<Rightarrow> kvs" where
  "showconf_endpoint env a =
     (if has_endpoint a then
        (case getnameinfo env a of
           None \<Rightarrow> []
         | Some (host, service) \<Rightarrow>
             if sa_family a = AF_INET6 \<and> strchr host CHR '':'' \<noteq> None
             then [(''Endpoint'', ''['' @ host @ '']:'' @ service)]
             else [(''Endpoint'', host @ '':'' @ service)])
      else [])"

definition showconf_peer :: "uapi_env \<Rightarrow> wgpeer \<Rightarrow> kvs" where
  "showconf_peer env p =
     [(''PublicKey'', key_to_base64 (peer_public_key p))]
     @ emit_if (peer_has p WGPEER_HAS_PRESHARED_KEY) ''PresharedKey'' (key_to_base64 (preshared_key p))
     @ emit_if (allowedips p \<noteq> []) ''AllowedIPs'' (print_allowedips env (allowedips p))
     @ (if transport p \<noteq> WGPEER_TRANSPORT_UDP then showconf_ws p else showconf_endpoint env (endpoint p))
     @ emit_if (persistent_keepalive_interval p \<noteq> 0) ''PersistentKeepalive'' (print_u (unat (persistent_keepalive_interval p)))"

fun showconf_peers :: "uapi_env \<Rightarrow> wgpeer list \<Rightarrow> string list" where
  "showconf_peers env [] = []"
| "showconf_peers env (p # ps) =
     ''[Peer]'' # map conf_line (showconf_peer env p) @ (if ps \<noteq> [] then [[]] else []) @ showconf_peers env ps"

definition showconf_lines :: "uapi_env \<Rightarrow> wgdevice \<Rightarrow> string list" where
  "showconf_lines env d =
     ''[Interface]'' # map conf_line (showconf_interface d) @ [[]] @ showconf_peers env (peers d)"

text \<open>
  \<open>showconf_main\<close>: the exit status with what was printed. Every non-zero return code of
  \<open>ipc_get_device\<close>, positive ones included, is a failure here.
\<close>

definition showconf_main :: "ipc_env \<Rightarrow> string list \<Rightarrow> sockfs \<Rightarrow> (int \<times> string) \<times> sockfs" where
  "showconf_main env argv fs =
     (if length argv \<noteq> 2 then ((1, []), fs)
      else
        let (r, fs') = ipc_get_device env (argv ! 1) fs
        in case r of
             Inl _ \<Rightarrow> ((1, []), fs')
           | Inr d \<Rightarrow> ((0, text_of_lines (showconf_lines (uapi env) d)), fs'))"

section \<open>Lines as the reader sees them\<close>

text \<open>Splitting a text into the lines that \<open>getline\<close> returns.\<close>

function getlines :: "string \<Rightarrow> string list" where
  "getlines input = (case getline input of None \<Rightarrow> [] | Some (l, rest) \<Rightarrow> l # getlines rest)"
  by pat_completeness auto
termination
  by (relation "measure length") (auto dest: getline_shorter)

declare getlines.simps [simp del]

lemma getlines_text: "list_all line_safe ls \<Longrightarrow> getlines (text_of_lines ls) = map (\<lambda>l. l @ [newline]) ls"
proof (induction ls)
  case Nil
  then show ?case by (simp add: text_of_lines_def getlines.simps getline_def)
next
  case (Cons l ls)
  have "text_of_lines (l # ls) = l @ newline # text_of_lines ls" by (simp add: text_of_lines_def)
  then show ?case using Cons getline_line [of l "text_of_lines ls"] by (simp add: getlines.simps [of "l @ _"])
qed

definition tokens :: "string \<Rightarrow> bool" where
  "tokens s \<longleftrightarrow> list_all token_char s"

lemma clean_line_append:
  "CHR ''#'' \<notin> set a \<Longrightarrow> clean_line (a @ b) = clean_line a @ clean_line b"
  by (auto simp: clean_line_def COMMENT_CHAR_def takeWhile_append)

lemma clean_line_tokens: "tokens s \<Longrightarrow> clean_line s = s"
  by (rule clean_line_id) (auto simp: tokens_def list_all_iff)

lemma tokens_no_comment: "tokens s \<Longrightarrow> CHR ''#'' \<notin> set s"
  by (auto simp: tokens_def list_all_iff token_char_def)

lemma token_char_ctrl [simp]: "\<not> token_char newline" "\<not> token_char NUL"
  by (simp_all add: token_char_def isspace_c_def newline_def)

lemma tokens_line_safe: "tokens s \<Longrightarrow> line_safe s"
  unfolding tokens_def list_all_iff line_safe_def using token_char_ctrl by blast

lemma tokens_append [simp]: "tokens (a @ b) \<longleftrightarrow> tokens a \<and> tokens b"
  by (simp add: tokens_def)

lemma tokens_Cons [simp]: "tokens (c # s) \<longleftrightarrow> token_char c \<and> tokens s" "tokens []"
  by (simp_all add: tokens_def)

lemma clean_conf_line:
  assumes "tokens k" and "CHR ''#'' \<notin> set v"
  shows "clean_line (conf_line (k, v) @ [newline]) = k @ ''='' @ clean_line v"
proof -
  have sep: "clean_line '' = '' = ''=''" "clean_line [newline] = []"
    by (simp_all add: clean_line_def COMMENT_CHAR_def newline_def isspace_c_def)
  have "conf_line (k, v) @ [newline] = k @ ('' = '' @ (v @ [newline]))" by (simp add: conf_line_def)
  moreover have "CHR ''#'' \<notin> set '' = ''" by simp
  ultimately show ?thesis
    using assms sep clean_line_append [OF tokens_no_comment [OF assms(1)]] clean_line_append [of v] clean_line_append [of "'' = ''"]
    by (metis append_Nil2 clean_line_tokens)
qed

end
