(* ===== verification/ShowconfFacts.thy ===== *)
theory ShowconfFacts
  imports Showconf
begin

text \<open>Reading back, with \<open>config_read\<close>, what \<open>wg showconf\<close> prints.\<close>

section \<open>Running the branches of the current peer and of the device\<close>

definition conf_at :: "config_ctx \<Rightarrow> wgpeer list \<Rightarrow> peer_state \<Rightarrow> config_ctx" where
  "conf_at ctx ps pc = ctx\<lparr>device := (device ctx)\<lparr>peers := ps @ [fst pc]\<rparr>, last_peer := Some (length ps),
     last_allowedip := snd pc, is_peer_section := True, is_device_section := False\<rparr>"

definition peer_kv :: "sysenv \<Rightarrow> string \<times> string \<Rightarrow> peer_state \<Rightarrow> (cfg_error, peer_state) run" where
  "peer_kv env kv pc = key_dispatch (peer_keys env) (fst kv @ ''='' @ clean_line (snd kv)) pc"

definition device_kv :: "sysenv \<Rightarrow> string \<times> string \<Rightarrow> wgdevice \<Rightarrow> (cfg_error, wgdevice) run" where
  "device_kv env kv d = key_dispatch (device_keys env) (fst kv @ ''='' @ clean_line (snd kv)) d"

text \<open>A key that can start a line, with a value without comment sign.\<close>

definition conf_kv :: "string \<times> string \<Rightarrow> bool" where
  "conf_kv kv \<longleftrightarrow> tokens (fst kv) \<and> fst kv \<noteq> [] \<and> hd (fst kv) \<noteq> CHR ''['' \<and> CHR ''#'' \<notin> set (snd kv)"

definition conf_text :: "kvs \<Rightarrow> string list" where
  "conf_text ls = map (\<lambda>kv. conf_line kv @ [newline]) ls"

lemma map_run_simps [simp]: "map_run f (Some (Inr x)) = Some (Inr (f x))" "map_run f (Some (Inl e)) = Some (Inl e)" "map_run f None = None"
  by (simp_all add: map_run_def)

lemma config_read_line_kv:
  assumes "conf_kv kv"
  shows "config_read_line env (conf_line kv @ [newline]) ctx = process_line env (fst kv @ ''='' @ clean_line (snd kv)) ctx"
  using assms clean_conf_line [of "fst kv" "snd kv"] by (simp add: config_read_line_def conf_kv_def)

lemma config_read_line_peer:
  assumes "conf_kv kv"
  shows "config_read_line env (conf_line kv @ [newline]) (conf_at ctx ps pc) = map_run (conf_at ctx ps) (peer_kv env kv pc)"
proof -
  obtain c cs where k: "fst kv = c # cs" "c \<noteq> CHR ''[''" using assms by (cases "fst kv") (auto simp: conf_kv_def)
  have "on_last_peer f (conf_at ctx ps pc) = map_run (conf_at ctx ps) (f pc)" for f
  proof -
    have "(\<lambda>(p, cur). (conf_at ctx ps pc)\<lparr>device := (device (conf_at ctx ps pc))\<lparr>peers := (peers (device (conf_at ctx ps pc)))[length ps := p]\<rparr>,
        last_allowedip := cur\<rparr>) = conf_at ctx ps"
      by (rule ext) (simp add: conf_at_def split_beta)
    moreover have "(peers (device (conf_at ctx ps pc)) ! length ps, last_allowedip (conf_at ctx ps pc)) = pc"
      by (simp add: conf_at_def)
    ultimately show ?thesis by (simp add: on_last_peer_def conf_at_def)
  qed
  then show ?thesis
    using config_read_line_kv [OF assms] k process_peer_line [of "conf_at ctx ps pc" c]
    by (simp add: peer_kv_def conf_at_def)
qed

lemma run_steps_map_state:
  assumes "\<And>i s. i \<in> set is \<Longrightarrow> f (g i) (h s) = map_run h (f' i s)"
  shows "run_steps f (map g is) (h s) = map_run h (run_steps f' is s)"
  using assms
proof (induction "is" arbitrary: s)
  case (Cons i js)
  then show ?case by (cases "f' i s"; cases "the (f' i s)") simp_all
qed simp

lemma run_peer_kvs:
  assumes "list_all conf_kv ls"
  shows "run_steps (config_read_line env) (conf_text ls) (conf_at ctx ps pc) = map_run (conf_at ctx ps) (run_steps (peer_kv env) ls pc)"
  unfolding conf_text_def
  by (rule run_steps_map_state) (use assms in \<open>auto simp: list_all_iff config_read_line_peer\<close>)

lemma run_device_kvs:
  assumes "list_all conf_kv ls" and "is_device_section ctx"
  shows "run_steps (config_read_line env) (conf_text ls) (ctx\<lparr>device := d\<rparr>) = map_run (\<lambda>d. ctx\<lparr>device := d\<rparr>) (run_steps (device_kv env) ls d)"
  unfolding conf_text_def
proof (rule run_steps_map_state)
  fix kv and d :: wgdevice
  assume "kv \<in> set ls"
  then have kv: "conf_kv kv" using assms(1) by (auto simp: list_all_iff)
  then obtain c cs where k: "fst kv = c # cs" "c \<noteq> CHR ''[''" by (cases "fst kv") (auto simp: conf_kv_def)
  have "(\<lambda>dev. ctx\<lparr>device := d, device := dev\<rparr>) = (\<lambda>d. ctx\<lparr>device := d\<rparr>)" by simp
  then show "config_read_line env (conf_line kv @ [newline]) (ctx\<lparr>device := d\<rparr>) = map_run (\<lambda>d. ctx\<lparr>device := d\<rparr>) (device_kv env kv d)"
    using config_read_line_kv [OF kv] k process_device_line [of "ctx\<lparr>device := d\<rparr>" c] assms(2) by (simp add: device_kv_def)
qed

lemma run_steps_emit [simp]:
  "run_steps f (emit_if c k v) s = (if c then run_steps f [(k, v)] s else Some (Inr s))"
  "run_steps f (emit_opt k s') s = (case s' of None \<Rightarrow> Some (Inr s) | Some v \<Rightarrow> run_steps f [(k, v)] s)"
  "run_steps f (emit_nonempty k s') s = (case s' of None \<Rightarrow> Some (Inr s) | Some v \<Rightarrow> if v \<noteq> [] then run_steps f [(k, v)] s else Some (Inr s))"
  by (simp_all add: emit_if_def emit_opt_def emit_nonempty_def split: option.split)

section \<open>The device that is read back\<close>

definition conf_flags :: u32 where
  "conf_flags = WGPEER_REPLACE_ALLOWEDIPS OR WGPEER_HAS_TRANSPORT"

definition ws_given :: "wgpeer \<Rightarrow> bool" where
  "ws_given p \<longleftrightarrow> wstunnel_target p \<noteq> None \<or> ws_bearer p \<noteq> None \<or> ws_mask p \<or> ws_tls_ca p \<noteq> None \<or> ws_tls_cert p \<noteq> None
     \<or> ws_tls_key p \<noteq> None \<or> ws_tls_insecure p \<or> ws_ping_interval_ms p \<noteq> 0 \<or> ws_backoff_min_ms p \<noteq> 0 \<or> ws_backoff_max_ms p \<noteq> 0"

definition conf_base :: "wgpeer \<Rightarrow> wgpeer" where
  "conf_base p =
     zero_peer\<lparr>peer_flags := conf_flags OR WGPEER_HAS_PUBLIC_KEY
         OR when_flag (peer_has p WGPEER_HAS_PRESHARED_KEY) WGPEER_HAS_PRESHARED_KEY,
       peer_public_key := peer_public_key p,
       preshared_key := if peer_has p WGPEER_HAS_PRESHARED_KEY then preshared_key p else zero_key,
       allowedips := allowedips p\<rparr>"

definition conf_peer :: "wgpeer \<Rightarrow> wgpeer" where
  "conf_peer p =
     (let q = (if transport p = WGPEER_TRANSPORT_UDP then (conf_base p)\<lparr>endpoint := endpoint p\<rparr>
               else peer_or (when_flag (ws_given p) WGPEER_HAS_WS_SETTINGS)
                 (ws_fields p ((conf_base p)\<lparr>transport := transport p, endpoint := if ws_url p = None then Sa_none else endpoint p\<rparr>)))
      in peer_or (when_flag (persistent_keepalive_interval p \<noteq> 0) WGPEER_HAS_PERSISTENT_KEEPALIVE_INTERVAL)
           (q\<lparr>persistent_keepalive_interval := persistent_keepalive_interval p\<rparr>))"

definition when_nonempty :: "string option \<Rightarrow> string option" where
  "when_nonempty s = (if nonempty s then s else None)"

definition conf_device :: "wgdevice \<Rightarrow> wgdevice" where
  "conf_device d =
     zero_device\<lparr>
       dev_flags := WGDEVICE_REPLACE_PEERS OR WGDEVICE_HAS_PRIVATE_KEY OR WGDEVICE_HAS_FWMARK OR WGDEVICE_HAS_LISTEN_PORT
         OR when_flag (nonempty (ws_listen d)) WGDEVICE_HAS_WS_LISTEN
         OR when_flag (nonempty (ws_server_tls_cert d)) WGDEVICE_HAS_WS_SERVER_TLS_CERT
         OR when_flag (nonempty (ws_server_tls_key d)) WGDEVICE_HAS_WS_SERVER_TLS_KEY
         OR when_flag (nonempty (ws_server_bearer d)) WGDEVICE_HAS_WS_SERVER_BEARER
         OR when_flag (nonempty (ws_trusted_proxies d)) WGDEVICE_HAS_WS_TRUSTED_PROXIES,
       listen_port := listen_port d, fwmark := fwmark d,
       private_key := if dev_has d WGDEVICE_HAS_PRIVATE_KEY then private_key d else zero_key,
       ws_listen := when_nonempty (ws_listen d),
       ws_server_tls_cert := when_nonempty (ws_server_tls_cert d),
       ws_server_tls_key := when_nonempty (ws_server_tls_key d),
       ws_server_bearer := when_nonempty (ws_server_bearer d),
       ws_trusted_proxies := when_nonempty (ws_trusted_proxies d),
       peers := map conf_peer (peers d)\<rparr>"

text \<open>
  What the round trip relies on: strings that can stand in a line, addresses whose numeric form is read
  back, and WebSocket settings of a kind that the reader accepts.
\<close>

definition tokens_opt :: "string option \<Rightarrow> bool" where
  "tokens_opt s \<longleftrightarrow> (case s of None \<Rightarrow> True | Some v \<Rightarrow> v \<noteq> [] \<and> tokens v)"

definition conf_allowedip :: "uapi_env \<Rightarrow> wgallowedip \<Rightarrow> bool" where
  "conf_allowedip env a \<longleftrightarrow> valid_prefix a \<and> aip_flags a = 0 \<and>
     (\<exists>s. print_ip env a = Some s \<and> tokens s \<and> CHR ''/'' \<notin> set s \<and> CHR '','' \<notin> set s \<and> s \<noteq> [] \<and> hd s \<noteq> CHR ''-'' \<and> hd s \<noteq> CHR ''+''
        \<and> (if family a = AF_INET then CHR '':'' \<notin> set s \<and> inet_pton4 (sys env) s = Some (ip4 a) \<and> ip_words a = [ip4 a, 0, 0, 0]
           else CHR '':'' \<in> set s \<and> inet_pton6 (sys env) s = Some (ip_words a)))"

definition conf_endpoint :: "uapi_env \<Rightarrow> sockaddr \<Rightarrow> bool" where
  "conf_endpoint env a \<longleftrightarrow> a \<noteq> Sa_none \<longrightarrow>
     (\<exists>h s r. getnameinfo env a = Some (h, s) \<and> tokens h \<and> tokens s \<and> s \<noteq> [] \<and> CHR ''/'' \<notin> set (h @ s)
        \<and> CHR ''['' \<notin> set h \<and> CHR '']'' \<notin> set h \<and> CHR '':'' \<notin> set s
        \<and> getaddrinfo (sys env) (Some h) s 0 = Inr r \<and> (is_inet r \<or> is_inet6 r) \<and> ai_addr r = a)"

definition conf_ws_ok :: "uapi_env \<Rightarrow> wgpeer \<Rightarrow> bool" where
  "conf_ws_ok env p \<longleftrightarrow>
     (\<forall>u. ws_url p = Some u \<longrightarrow> tokens u \<and> is_ws_url u
        \<and> (\<exists>h s. ws_url_split u 256 16 = Some (h, s) \<and> parse_endpoint (sys env) (ws_hostport h s) = Some (Inr (endpoint p))))
     \<and> (\<forall>t. wstunnel_target p = Some t \<longrightarrow> tokens t \<and> parse_ws_target t = Inr t)
     \<and> list_all tokens_opt [ws_bearer p, ws_tls_ca p, ws_tls_cert p, ws_tls_key p]
     \<and> (if transport p = WGPEER_TRANSPORT_WSTUNNEL then ws_url p \<noteq> None \<and> wstunnel_target p \<noteq> None \<and> endpoint p \<noteq> Sa_none
        else wstunnel_target p = None \<and> (ws_url p \<noteq> None \<longrightarrow> endpoint p \<noteq> Sa_none))"

definition conf_ok_peer :: "uapi_env \<Rightarrow> wgpeer \<Rightarrow> bool" where
  "conf_ok_peer env p \<longleftrightarrow> wf_key (peer_public_key p) \<and> wf_key (preshared_key p) \<and> list_all (conf_allowedip env) (allowedips p)
     \<and> (if transport p = WGPEER_TRANSPORT_UDP then conf_endpoint env (endpoint p) else conf_ws_ok env p)"

definition conf_ok :: "uapi_env \<Rightarrow> wgdevice \<Rightarrow> bool" where
  "conf_ok env d \<longleftrightarrow> wf_key (private_key d) \<and> list_all (conf_ok_peer env) (peers d) \<and> (\<exists>n. parse_dns_retries (sys env) = Inr n)
     \<and> (listen_port d \<noteq> 0 \<longrightarrow> (\<exists>r. getaddrinfo (sys env) None (print_u (unat (listen_port d))) 0 = Inr r \<and> is_inet r
          \<and> sa_port (ai_addr r) = listen_port d))
     \<and> list_all (\<lambda>s. nonempty s \<longrightarrow> tokens (the s))
         [ws_listen d, ws_server_tls_cert d, ws_server_tls_key d, ws_server_bearer d, ws_trusted_proxies d]
     \<and> (nonempty (ws_listen d) \<longrightarrow> is_ws_url (the (ws_listen d)))"

section \<open>Values\<close>

lemma token_char_digit: "is_digit_of b c \<Longrightarrow> b \<le> 16 \<Longrightarrow> token_char c"
  unfolding token_char_def isspace_c_def is_digit_of_def digit_val_def NUL_def Let_def by (auto split: if_splits)

lemma tokens_print [simp]: "tokens (print_u n)" "tokens (print_x n)"
  using print_radix_digits [of 10 n] print_radix_digits [of 16 n] token_char_digit [of 10] token_char_digit [of 16]
  by (auto simp: tokens_def list_all_iff)

lemma tokens_base64 [simp]: "tokens (key_to_base64 k)"
  using token_chars_base64 by (auto simp: tokens_def list_all_iff)

lemma clean_tokens [simp]: "tokens v \<Longrightarrow> clean_line v = v"
  by (rule clean_line_tokens)

lemma base64_nonempty [simp]: "key_to_base64 k \<noteq> []"
  using length_key_to_base64 [of k] by (metis list.size(3) zero_neq_numeral)

lemma parse_ip_printed:
  assumes "conf_allowedip env a" and "print_ip env a = Some s"
  shows "aip_entry (sys env) (s @ CHR ''/'' # print_u (unat (cidr a))) = Inr a" and "\<not> incremental (s @ CHR ''/'' # print_u (unat (cidr a)))"
proof -
  from assms have s: "CHR ''/'' \<notin> set s" "s \<noteq> []" "hd s \<noteq> CHR ''-''" "hd s \<noteq> CHR ''+''" "valid_prefix a" "aip_flags a = 0"
    by (auto simp: conf_allowedip_def)
  then have first: "char_at (s @ CHR ''/'' # print_u (unat (cidr a))) 0 = hd s" by (cases s) simp_all
  then show "\<not> incremental (s @ CHR ''/'' # print_u (unat (cidr a)))" using s by (simp add: incremental_def)
  have ip: "parse_ip (sys env) zero_allowedip s = Inr (a\<lparr>cidr := 0\<rparr>)"
  proof (cases "family a = AF_INET")
    case True
    then have "CHR '':'' \<notin> set s" "inet_pton4 (sys env) s = Some (ip4 a)" "ip_words a = [ip4 a, 0, 0, 0]"
      using assms by (auto simp: conf_allowedip_def)
    then show ?thesis
      using True s(6) by (cases a) (simp add: parse_ip_def strchr_None_iff zero_allowedip_def set_ip4_def af_defs eval_nat_numeral)
  next
    case False
    then have "CHR '':'' \<in> set s" "inet_pton6 (sys env) s = Some (ip_words a)" "family a = AF_INET6"
      using assms by (auto simp: conf_allowedip_def valid_prefix_def)
    then show ?thesis
      using s(6) by (cases a) (simp add: parse_ip_def strchr_None_iff zero_allowedip_def af_defs)
  qed
  have c: "parse_cidr (family a) (Some (print_u (unat (cidr a)))) = Some (unat (cidr a))"
    using s(5) word_of_nat_unat_8 [of "cidr a"] by (auto simp: parse_cidr_def valid_prefix_def af_defs)
  show "aip_entry (sys env) (s @ CHR ''/'' # print_u (unat (cidr a))) = Inr a"
    using first s ip c by (simp add: aip_entry_def parse_allowedip_def strsep_delim Let_def)
qed

definition aip_text :: "uapi_env \<Rightarrow> wgallowedip \<Rightarrow> string" where
  "aip_text env a = the (print_ip env a) @ CHR ''/'' # print_u (unat (cidr a))"

lemma conf_allowedip_text:
  assumes "conf_allowedip env a"
  shows "print_ip env a = Some (the (print_ip env a))" and "tokens (aip_text env a)" and "CHR '','' \<notin> set (aip_text env a)"
    and "aip_entry (sys env) (aip_text env a) = Inr a" and "\<not> incremental (aip_text env a)"
proof -
  obtain s where s: "print_ip env a = Some s" "tokens s" "CHR '','' \<notin> set s"
    using assms by (auto simp: conf_allowedip_def)
  have "c \<noteq> CHR '',''" if "c \<in> set (print_u n)" for c n
    using that print_radix_digits [of 10 n] by (auto simp: is_digit_of_10)
  then show "CHR '','' \<notin> set (aip_text env a)" using s by (auto simp: aip_text_def)
  show "tokens (aip_text env a)" using s by (simp add: aip_text_def) (simp add: token_char_def isspace_c_def NUL_def)
  show "print_ip env a = Some (the (print_ip env a))" using s by simp
  show "aip_entry (sys env) (aip_text env a) = Inr a" "\<not> incremental (aip_text env a)"
    using parse_ip_printed [OF assms s(1)] s(1) by (simp_all add: aip_text_def)
qed

lemma clean_line_sep: "clean_line ('', '' @ s) = CHR '','' # clean_line s"
  by (simp add: clean_line_def COMMENT_CHAR_def isspace_c_def)

lemma print_allowedips_Cons:
  assumes "conf_allowedip env a"
  shows "print_allowedips env (a # as) = aip_text env a @ (if as \<noteq> [] then '', '' else []) @ print_allowedips env as"
  using conf_allowedip_text(1) [OF assms] by (cases "print_ip env a") (auto simp: aip_text_def)

declare print_allowedips.simps(2) [simp del]

lemma clean_print_allowedips:
  assumes "list_all (conf_allowedip env) as"
  shows "clean_line (print_allowedips env as) = comma_join (map (aip_text env) as)" and "CHR ''#'' \<notin> set (print_allowedips env as)"
    and "line_safe (print_allowedips env as)"
  using assms
proof (induction as)
  case Nil
  { case 1 show ?case by (simp add: clean_line_def)
  next case 2 show ?case by simp
  next case 3 show ?case by simp }
next
  case (Cons a as)
  { case 1
    have a: "conf_allowedip env a" using 1 by simp
    note t = tokens_no_comment [OF conf_allowedip_text(2) [OF a]]
    show ?case
      using Cons.IH(1) 1 print_allowedips_Cons [OF a, of as] clean_line_append [OF t] clean_line_sep conf_allowedip_text(2) [OF a]
      by (cases as) simp_all
  next case 2
    have a: "conf_allowedip env a" using 2 by simp
    show ?case
      using Cons.IH(2) 2 print_allowedips_Cons [OF a, of as] tokens_no_comment [OF conf_allowedip_text(2) [OF a]] by simp
  next case 3
    have a: "conf_allowedip env a" using 3 by simp
    show ?case
      using Cons.IH(3) 3 print_allowedips_Cons [OF a, of as] tokens_line_safe [OF conf_allowedip_text(2) [OF a]]
      by (simp add: newline_def NUL_def) }
qed

lemma comma_join_nonempty: "es \<noteq> [] \<Longrightarrow> [] \<notin> set es \<Longrightarrow> comma_join es \<noteq> []"
  by (induction es rule: comma_join.induct) auto

lemma peer_kv_allowedips:
  assumes "list_all (conf_allowedip env) as" and "as \<noteq> []" and "allowedips q = []"
  shows "\<exists>cur. peer_kv (sys env) (''AllowedIPs'', print_allowedips env as) (q, None)
    = Some (Inr (peer_or WGPEER_REPLACE_ALLOWEDIPS (q\<lparr>allowedips := as\<rparr>), cur))"
proof -
  let ?es = "map (aip_text env) as"
  have e: "list_all2 (\<lambda>e a. aip_entry (sys env) e = Inr a) ?es as" "\<forall>e \<in> set ?es. CHR '','' \<notin> set e" "\<not> list_ex incremental ?es"
    using assms(1) conf_allowedip_text by (auto simp: list_all2_map1 list_all2_same list_all_iff list_ex_iff)
  have ne: "comma_join ?es \<noteq> []" using assms(2) by (intro comma_join_nonempty) (auto simp: aip_text_def)
  obtain cur where "allowedips_loop (sys env) (peer_or WGPEER_REPLACE_ALLOWEDIPS q) None (Some (comma_join ?es)) =
      Inr ((peer_or WGPEER_REPLACE_ALLOWEDIPS q)\<lparr>allowedips := as\<rparr>, cur)"
    using allowedips_loop_join [of None "peer_or WGPEER_REPLACE_ALLOWEDIPS q" ?es "sys env" as] e assms(2,3)
    by (auto simp: clear_replace_def peer_or_def)
  then have "set_allowedips (sys env) (comma_join ?es) (q, None) = Some (Inr (peer_or WGPEER_REPLACE_ALLOWEDIPS (q\<lparr>allowedips := as\<rparr>), cur))"
    using ne by (simp add: set_allowedips_def parse_allowedips_def peer_or_def)
  then show ?thesis
    using clean_print_allowedips(1) [OF assms(1)] dispatch_peer_key(3) [OF ne] by (auto simp: peer_kv_def)
qed

text \<open>The other keys of a peer.\<close>

lemma peer_kv_token: "tokens v \<Longrightarrow> peer_kv env (k, v) pc = key_dispatch (peer_keys env) (k @ CHR ''='' # v) pc"
  by (simp add: peer_kv_def)

lemma literal_tokens: "tokens ''true''" "tokens ''wstunnel''" "tokens ''websocket''"
  by (simp_all add: token_char_def isspace_c_def NUL_def)

lemma peer_kv_fields:
  "wf_key k \<Longrightarrow> peer_kv env (''PublicKey'', key_to_base64 k) (q, cur) = Some (Inr (peer_or WGPEER_HAS_PUBLIC_KEY (q\<lparr>peer_public_key := k\<rparr>), cur))"
  "wf_key k \<Longrightarrow> peer_kv env (''PresharedKey'', key_to_base64 k) (q, cur) = Some (Inr (peer_or WGPEER_HAS_PRESHARED_KEY (q\<lparr>preshared_key := k\<rparr>), cur))"
  "peer_kv env (''PersistentKeepalive'', print_u (unat n)) (q, cur) =
     Some (Inr (peer_or WGPEER_HAS_PERSISTENT_KEEPALIVE_INTERVAL (q\<lparr>persistent_keepalive_interval := n\<rparr>), cur))"
  "peer_kv env (''WSMode'', if t = WGPEER_TRANSPORT_WSTUNNEL then ''wstunnel'' else ''websocket'') (q, cur) =
     Some (Inr (q\<lparr>transport := if t = WGPEER_TRANSPORT_WSTUNNEL then WGPEER_TRANSPORT_WSTUNNEL else WGPEER_TRANSPORT_WEBSOCKET\<rparr>, cur))"
  "tokens t' \<Longrightarrow> t' \<noteq> [] \<Longrightarrow> parse_ws_target t' = Inr t' \<Longrightarrow> peer_kv env (''WSTunnelTarget'', t') (q, cur) =
     Some (Inr (peer_or WGPEER_HAS_WS_SETTINGS (q\<lparr>wstunnel_target := Some t'\<rparr>), cur))"
  "tokens v \<Longrightarrow> v \<noteq> [] \<Longrightarrow> peer_kv env (''WSBearer'', v) (q, cur) = Some (Inr (peer_or WGPEER_HAS_WS_SETTINGS (q\<lparr>ws_bearer := Some v\<rparr>), cur))"
  "tokens v \<Longrightarrow> v \<noteq> [] \<Longrightarrow> peer_kv env (''WSTLSCA'', v) (q, cur) = Some (Inr (peer_or WGPEER_HAS_WS_SETTINGS (q\<lparr>ws_tls_ca := Some v\<rparr>), cur))"
  "tokens v \<Longrightarrow> v \<noteq> [] \<Longrightarrow> peer_kv env (''WSTLSCert'', v) (q, cur) = Some (Inr (peer_or WGPEER_HAS_WS_SETTINGS (q\<lparr>ws_tls_cert := Some v\<rparr>), cur))"
  "tokens v \<Longrightarrow> v \<noteq> [] \<Longrightarrow> peer_kv env (''WSTLSKey'', v) (q, cur) = Some (Inr (peer_or WGPEER_HAS_WS_SETTINGS (q\<lparr>ws_tls_key := Some v\<rparr>), cur))"
  "peer_kv env (''WSMask'', ''true'') (q, cur) = Some (Inr (peer_or WGPEER_HAS_WS_SETTINGS (q\<lparr>ws_mask := True\<rparr>), cur))"
  "peer_kv env (''WSTLSInsecure'', ''true'') (q, cur) = Some (Inr (peer_or WGPEER_HAS_WS_SETTINGS (q\<lparr>ws_tls_insecure := True\<rparr>), cur))"
  "peer_kv env (''WSPingInterval'', print_u (unat w)) (q, cur) = Some (Inr (peer_or WGPEER_HAS_WS_SETTINGS (q\<lparr>ws_ping_interval_ms := w\<rparr>), cur))"
  "peer_kv env (''WSBackoffMin'', print_u (unat w)) (q, cur) = Some (Inr (peer_or WGPEER_HAS_WS_SETTINGS (q\<lparr>ws_backoff_min_ms := w\<rparr>), cur))"
  "peer_kv env (''WSBackoffMax'', print_u (unat w)) (q, cur) = Some (Inr (peer_or WGPEER_HAS_WS_SETTINGS (q\<lparr>ws_backoff_max_ms := w\<rparr>), cur))"
  by (simp_all add: peer_kv_token literal_tokens [THEN peer_kv_token] dispatch_peer_key [simplified] set_peer_def set_keepalive_def parse_key_print parse_keepalive_print
      parse_ws_mode_def parse_ws_secret_def parse_ws_str_def parse_ws_bool_def parse_ws_millis_print peer_or_def)

section \<open>Reading back a peer\<close>

lemma when_flag_merge: "when_flag a b OR when_flag c b = when_flag (a \<or> c) b" "when_flag a b OR (when_flag c b OR y) = when_flag (a \<or> c) b OR y"
  by (simp_all add: when_flag_def or.assoc [symmetric])

lemma when_flag_simps [simp]: "when_flag False b = 0" "when_flag True b = b" "peer_or 0 p = p"
  by (simp_all add: when_flag_def peer_or_def)

lemma parse_ws_target_nonempty: "parse_ws_target t = Inr u \<Longrightarrow> t \<noteq> []"
  by (auto simp: parse_ws_target_def strrchr_def)

lemma run_ws_fields:
  "tokens_opt s \<Longrightarrow> ws_bearer q = None \<Longrightarrow> run_steps (peer_kv env) (emit_opt ''WSBearer'' s) (q, cur) =
     Some (Inr (peer_or (when_flag (s \<noteq> None) WGPEER_HAS_WS_SETTINGS) (q\<lparr>ws_bearer := s\<rparr>), cur))"
  "tokens_opt s \<Longrightarrow> ws_tls_ca q = None \<Longrightarrow> run_steps (peer_kv env) (emit_opt ''WSTLSCA'' s) (q, cur) =
     Some (Inr (peer_or (when_flag (s \<noteq> None) WGPEER_HAS_WS_SETTINGS) (q\<lparr>ws_tls_ca := s\<rparr>), cur))"
  "tokens_opt s \<Longrightarrow> ws_tls_cert q = None \<Longrightarrow> run_steps (peer_kv env) (emit_opt ''WSTLSCert'' s) (q, cur) =
     Some (Inr (peer_or (when_flag (s \<noteq> None) WGPEER_HAS_WS_SETTINGS) (q\<lparr>ws_tls_cert := s\<rparr>), cur))"
  "tokens_opt s \<Longrightarrow> ws_tls_key q = None \<Longrightarrow> run_steps (peer_kv env) (emit_opt ''WSTLSKey'' s) (q, cur) =
     Some (Inr (peer_or (when_flag (s \<noteq> None) WGPEER_HAS_WS_SETTINGS) (q\<lparr>ws_tls_key := s\<rparr>), cur))"
  "\<forall>t. s = Some t \<longrightarrow> tokens t \<and> parse_ws_target t = Inr t \<Longrightarrow> wstunnel_target q = None \<Longrightarrow>
     run_steps (peer_kv env) (emit_opt ''WSTunnelTarget'' s) (q, cur) =
     Some (Inr (peer_or (when_flag (s \<noteq> None) WGPEER_HAS_WS_SETTINGS) (q\<lparr>wstunnel_target := s\<rparr>), cur))"
  "\<not> ws_mask q \<Longrightarrow> run_steps (peer_kv env) (emit_if c ''WSMask'' ''true'') (q, cur) =
     Some (Inr (peer_or (when_flag c WGPEER_HAS_WS_SETTINGS) (q\<lparr>ws_mask := c\<rparr>), cur))"
  "\<not> ws_tls_insecure q \<Longrightarrow> run_steps (peer_kv env) (emit_if c ''WSTLSInsecure'' ''true'') (q, cur) =
     Some (Inr (peer_or (when_flag c WGPEER_HAS_WS_SETTINGS) (q\<lparr>ws_tls_insecure := c\<rparr>), cur))"
  "ws_ping_interval_ms q = 0 \<Longrightarrow> run_steps (peer_kv env) (emit_if (w \<noteq> 0) ''WSPingInterval'' (print_u (unat w))) (q, cur) =
     Some (Inr (peer_or (when_flag (w \<noteq> 0) WGPEER_HAS_WS_SETTINGS) (q\<lparr>ws_ping_interval_ms := w\<rparr>), cur))"
  "ws_backoff_min_ms q = 0 \<Longrightarrow> run_steps (peer_kv env) (emit_if (w \<noteq> 0) ''WSBackoffMin'' (print_u (unat w))) (q, cur) =
     Some (Inr (peer_or (when_flag (w \<noteq> 0) WGPEER_HAS_WS_SETTINGS) (q\<lparr>ws_backoff_min_ms := w\<rparr>), cur))"
  "ws_backoff_max_ms q = 0 \<Longrightarrow> run_steps (peer_kv env) (emit_if (w \<noteq> 0) ''WSBackoffMax'' (print_u (unat w))) (q, cur) =
     Some (Inr (peer_or (when_flag (w \<noteq> 0) WGPEER_HAS_WS_SETTINGS) (q\<lparr>ws_backoff_max_ms := w\<rparr>), cur))"
  by (auto simp: peer_kv_fields tokens_opt_def unset_field parse_ws_target_nonempty split: option.split)

lemma run_ws_url:
  assumes "\<forall>u. s = Some u \<longrightarrow> tokens u \<and> is_ws_url u
      \<and> (\<exists>h p. ws_url_split u 256 16 = Some (h, p) \<and> parse_endpoint env (ws_hostport h p) = Some (Inr a))"
    and "endpoint q = Sa_none" and "ws_url q = None"
  shows "run_steps (peer_kv env) (emit_opt ''Endpoint'' s) (q, cur) =
     Some (Inr (q\<lparr>endpoint := if s = None then Sa_none else a, ws_url := s\<rparr>, cur))"
proof (cases s)
  case None
  then show ?thesis using assms(2,3) by (cases q) simp
next
  case (Some u)
  then obtain h p where u: "tokens u" "is_ws_url u" "ws_url_split u 256 16 = Some (h, p)" "parse_endpoint env (ws_hostport h p) = Some (Inr a)"
    using assms(1) by auto
  then have "u \<noteq> []" by (auto simp: is_ws_url_iff ws_scheme_def strcaseeq_def)
  then have "peer_kv env (''Endpoint'', u) (q, cur) = set_endpoint env u (q, cur)"
    using dispatch_peer_key(1) [of u env "(q, cur)"] u(1) by (simp add: peer_kv_def)
  then show ?thesis using Some u by (simp add: set_endpoint_def parse_ws_endpoint_def)
qed

lemma run_showconf_ws:
  assumes "conf_ws_ok env p" and "transport p \<noteq> WGPEER_TRANSPORT_UDP" and "ws_unset q" and "endpoint q = Sa_none"
  shows "run_steps (peer_kv (sys env)) (showconf_ws p) (q, cur) =
    Some (Inr (peer_or (when_flag (ws_given p) WGPEER_HAS_WS_SETTINGS)
      (ws_fields p (q\<lparr>transport := transport p, endpoint := if ws_url p = None then Sa_none else endpoint p\<rparr>)), cur))"
proof -
  have t: "(if transport p = WGPEER_TRANSPORT_WSTUNNEL then WGPEER_TRANSPORT_WSTUNNEL else WGPEER_TRANSPORT_WEBSOCKET) = transport p"
    using assms(2) by (cases "transport p") auto
  define q1 where "q1 = q\<lparr>transport := transport p, endpoint := if ws_url p = None then Sa_none else endpoint p, ws_url := ws_url p\<rparr>"
  have url: "run_steps (peer_kv (sys env)) (emit_opt ''Endpoint'' (ws_url p)) (q\<lparr>transport := transport p\<rparr>, cur) = Some (Inr (q1, cur))"
    using run_ws_url [of "ws_url p" "sys env" "endpoint p" "q\<lparr>transport := transport p\<rparr>" cur] assms(1,3,4)
    by (simp add: conf_ws_ok_def ws_unset_def q1_def)
  have unset: "wstunnel_target q1 = None" "ws_bearer q1 = None" "ws_tls_ca q1 = None" "ws_tls_cert q1 = None" "ws_tls_key q1 = None"
    "ws_ping_interval_ms q1 = 0" "ws_backoff_min_ms q1 = 0" "ws_backoff_max_ms q1 = 0" "\<not> ws_mask q1" "\<not> ws_tls_insecure q1"
    using assms(3) by (simp_all add: q1_def ws_unset_def)
  have ok: "\<forall>t. wstunnel_target p = Some t \<longrightarrow> tokens t \<and> parse_ws_target t = Inr t" "tokens_opt (ws_bearer p)" "tokens_opt (ws_tls_ca p)"
    "tokens_opt (ws_tls_cert p)" "tokens_opt (ws_tls_key p)"
    using assms(1) by (simp_all add: conf_ws_ok_def)
  have "run_steps (peer_kv (sys env)) (showconf_ws p) (q, cur) =
    Some (Inr (peer_or (when_flag (ws_given p) WGPEER_HAS_WS_SETTINGS) (ws_fields p q1), cur))"
    unfolding showconf_ws_def
    using url unset ok
    by (simp add: run_steps_append peer_kv_fields t run_ws_fields peer_or_def del: run_steps_emit)
      (simp add: q1_def ws_fields_def or.assoc when_flag_merge ws_given_def disj_assoc del: disj_not1 disj_not2)
  then show ?thesis using assms(3) by (simp add: q1_def ws_fields_def)
qed

lemma no_slash_not_url: "CHR ''/'' \<notin> set v \<Longrightarrow> \<not> is_ws_url v"
proof
  assume "CHR ''/'' \<notin> set v" and "is_ws_url v"
  then obtain s p where sp: "v = s @ p" "ws_scheme s" by (auto simp: is_ws_url_iff)
  have t: "tolower_c c = CHR ''/'' \<Longrightarrow> c = CHR ''/''" for c
  proof -
    have "tolower_c c \<noteq> CHR ''/''" if "65 \<le> n" "n \<le> 90" "(of_char c :: nat) = n" for n
      using that by (simp add: tolower_c_def char_of_eq_iff take_bit_eq_mod)
    then show "tolower_c c = CHR ''/'' \<Longrightarrow> c = CHR ''/''" by (auto simp: tolower_c_def split: if_splits)
  qed
  have l: "map tolower_c ''ws://'' = ''ws://''" "map tolower_c ''wss://'' = ''wss://''" by (simp_all add: tolower_c_def)
  have "map tolower_c s = ''ws://'' \<or> map tolower_c s = ''wss://''"
    using sp(2) unfolding ws_scheme_def strcaseeq_def l .
  then have "CHR ''/'' \<in> set (map tolower_c s)" by (elim disjE) simp_all
  then have "CHR ''/'' \<in> set s" using t by force
  then show False using \<open>CHR ''/'' \<notin> set v\<close> sp by simp
qed

lemma parse_endpoint_numeric:
  assumes "parse_dns_retries env = Inr n" and "split_endpoint v = Inr (h, s)" and "getaddrinfo env (Some h) s 0 = Inr r"
    and "is_inet r \<or> is_inet6 r"
  shows "parse_endpoint env v = Some (Inr (ai_addr r))"
proof -
  have "decisive env h s 0" using assms(3) by (simp add: decisive_def)
  then have "resolve_loop env h s v n 1000000 0 [] = Some (Inr r, [])"
    using resolve_loop_stop [of env h s 0 n v] assms(3) by (simp add: attempt_result_def)
  then show ?thesis using assms by (simp add: parse_endpoint_def)
qed

lemma peer_kv_endpoint:
  assumes "tokens v" and "v \<noteq> []" and "CHR ''/'' \<notin> set v" and "parse_endpoint env v = Some (Inr a)"
  shows "peer_kv env (''Endpoint'', v) (q, cur) = Some (Inr (q\<lparr>endpoint := a\<rparr>, cur))"
  using assms dispatch_peer_key(1) [OF assms(2)] no_slash_not_url [OF assms(3)]
  by (simp add: peer_kv_def set_endpoint_def)

lemma run_showconf_endpoint:
  assumes "conf_endpoint env a" and "parse_dns_retries (sys env) = Inr n" and "endpoint q = Sa_none"
  shows "run_steps (peer_kv (sys env)) (showconf_endpoint env a) (q, cur) = Some (Inr (q\<lparr>endpoint := a\<rparr>, cur))"
proof (cases "a = Sa_none")
  case True
  then show ?thesis using assms(3) by (cases q) (simp add: showconf_endpoint_def)
next
  case False
  then obtain h s r where e: "getnameinfo env a = Some (h, s)" "tokens h" "tokens s" "s \<noteq> []" "CHR ''/'' \<notin> set (h @ s)"
    "CHR ''['' \<notin> set h" "CHR '']'' \<notin> set h" "CHR '':'' \<notin> set s"
    "getaddrinfo (sys env) (Some h) s 0 = Inr r" "is_inet r \<or> is_inet6 r" "ai_addr r = a"
    using assms(1) by (auto simp: conf_endpoint_def)
  have "h = [] \<or> hd h \<noteq> CHR ''[''" using e(6) by (cases h) auto
  then have sp: "split_endpoint (h @ CHR '':'' # s) = Inr (h, s)" "split_endpoint (CHR ''['' # h @ CHR '']'' # CHR '':'' # s) = Inr (h, s)"
    using e(4,7,8) by (simp_all add: split_endpoint_plain split_endpoint_bracket)
  note pe = parse_endpoint_numeric [OF assms(2) sp(1) e(9,10)] parse_endpoint_numeric [OF assms(2) sp(2) e(9,10)]
  have "peer_kv (sys env) (''Endpoint'', h @ CHR '':'' # s) (q, cur) = Some (Inr (q\<lparr>endpoint := a\<rparr>, cur))"
    "peer_kv (sys env) (''Endpoint'', CHR ''['' # h @ CHR '']'' # CHR '':'' # s) (q, cur) = Some (Inr (q\<lparr>endpoint := a\<rparr>, cur))"
    using pe e by (auto intro!: peer_kv_endpoint simp: token_char_def isspace_c_def NUL_def)
  then show ?thesis using False e(1) by (simp add: showconf_endpoint_def)
qed

lemma run_showconf_peer:
  assumes "conf_ok_peer env p" and "parse_dns_retries (sys env) = Inr n"
  shows "\<exists>cur. run_steps (peer_kv (sys env)) (showconf_peer env p) (peer_or conf_flags zero_peer, None) = Some (Inr (conf_peer p, cur))"
proof -
  have p: "wf_key (peer_public_key p)" "wf_key (preshared_key p)" "list_all (conf_allowedip env) (allowedips p)"
    using assms(1) by (simp_all add: conf_ok_peer_def)
  define q1 where "q1 = peer_or WGPEER_HAS_PUBLIC_KEY ((peer_or conf_flags zero_peer)\<lparr>peer_public_key := peer_public_key p\<rparr>)"
  define q2 where "q2 = peer_or (when_flag (peer_has p WGPEER_HAS_PRESHARED_KEY) WGPEER_HAS_PRESHARED_KEY)
    (q1\<lparr>preshared_key := if peer_has p WGPEER_HAS_PRESHARED_KEY then preshared_key p else zero_key\<rparr>)"
  note qs = q1_def q2_def peer_or_def zero_peer_def conf_flags_def
  have psk: "run_steps (peer_kv (sys env)) (emit_if (peer_has p WGPEER_HAS_PRESHARED_KEY) ''PresharedKey'' (key_to_base64 (preshared_key p))) (q1, None)
      = Some (Inr (q2, None))"
    using p(2) by (simp add: peer_kv_fields qs)
  have aip: "\<exists>cur. run_steps (peer_kv (sys env)) (emit_if (allowedips p \<noteq> []) ''AllowedIPs'' (print_allowedips env (allowedips p))) (q2, None)
      = Some (Inr (conf_base p, cur))"
  proof (cases "allowedips p = []")
    case True
    then have "q2 = conf_base p" by (simp add: qs conf_base_def or.assoc)
    with True show ?thesis by simp
  next
    case False
    obtain cur where cur: "peer_kv (sys env) (''AllowedIPs'', print_allowedips env (allowedips p)) (q2, None)
        = Some (Inr (peer_or WGPEER_REPLACE_ALLOWEDIPS (q2\<lparr>allowedips := allowedips p\<rparr>), cur))"
      using peer_kv_allowedips [OF p(3) False, of q2] by (auto simp: qs)
    have "peer_or WGPEER_REPLACE_ALLOWEDIPS (q2\<lparr>allowedips := allowedips p\<rparr>) = conf_base p"
      by (simp add: qs conf_base_def ac_simps)
    then show ?thesis using cur False by simp
  qed
  then obtain cur where cur: "run_steps (peer_kv (sys env)) (emit_if (allowedips p \<noteq> []) ''AllowedIPs'' (print_allowedips env (allowedips p))) (q2, None)
      = Some (Inr (conf_base p, cur))" by blast
  define q3 where "q3 = (if transport p = WGPEER_TRANSPORT_UDP then (conf_base p)\<lparr>endpoint := endpoint p\<rparr>
    else peer_or (when_flag (ws_given p) WGPEER_HAS_WS_SETTINGS)
      (ws_fields p ((conf_base p)\<lparr>transport := transport p, endpoint := if ws_url p = None then Sa_none else endpoint p\<rparr>)))"
  have "run_steps (peer_kv (sys env)) (if transport p \<noteq> WGPEER_TRANSPORT_UDP then showconf_ws p else showconf_endpoint env (endpoint p)) (conf_base p, cur)
      = Some (Inr (q3, cur))"
    using assms run_showconf_ws [of env p "conf_base p" cur] run_showconf_endpoint [of env "endpoint p" n "conf_base p" cur]
    by (simp add: q3_def conf_ok_peer_def ws_unset_def conf_base_def zero_peer_def)
  moreover have "run_steps (peer_kv (sys env)) (emit_if (persistent_keepalive_interval p \<noteq> 0) ''PersistentKeepalive'' (print_u (unat (persistent_keepalive_interval p)))) (q3, cur)
      = Some (Inr (conf_peer p, cur))"
    by (simp add: peer_kv_fields conf_peer_def q3_def Let_def)
      (auto simp: peer_or_def conf_base_def zero_peer_def ws_fields_def)
  ultimately show ?thesis
    using p(1) psk cur by (simp add: showconf_peer_def run_steps_append peer_kv_fields q1_def [symmetric] del: run_steps_emit)
qed

section \<open>Reading back a device\<close>

lemma device_kv_token: "tokens v \<Longrightarrow> device_kv env (k, v) d = key_dispatch (device_keys env) (k @ CHR ''='' # v) d"
  by (simp add: device_kv_def)

lemma when_nonempty_simps:
  "nonempty None = False" "nonempty (Some v) = (v \<noteq> [])" "when_nonempty None = None" "when_nonempty (Some v) = (if v = [] then None else Some v)"
  by (simp_all add: nonempty_def when_nonempty_def)

lemma unset_device:
  "listen_port d = 0 \<Longrightarrow> d\<lparr>listen_port := 0\<rparr> = d" "fwmark d = 0 \<Longrightarrow> d\<lparr>fwmark := 0\<rparr> = d"
  "private_key d = zero_key \<Longrightarrow> d\<lparr>private_key := zero_key\<rparr> = d"
  "d\<lparr>dev_flags := dev_flags d\<rparr> = d"
  by (cases d; simp)+

lemma run_device_fields:
  "w \<noteq> 0 \<longrightarrow> (\<exists>r. getaddrinfo env None (print_u (unat w)) 0 = Inr r \<and> is_inet r \<and> sa_port (ai_addr r) = w) \<Longrightarrow> listen_port d = 0 \<Longrightarrow>
     run_steps (device_kv env) (emit_if (w \<noteq> 0) ''ListenPort'' (print_u (unat w))) d =
     Some (Inr (dev_or (when_flag (w \<noteq> 0) WGDEVICE_HAS_LISTEN_PORT) (d\<lparr>listen_port := w\<rparr>)))"
  "fwmark d = 0 \<Longrightarrow> run_steps (device_kv env) (emit_if (x \<noteq> 0) ''FwMark'' (''0x'' @ print_x (unat x))) d =
     Some (Inr (dev_or (when_flag (x \<noteq> 0) WGDEVICE_HAS_FWMARK) (d\<lparr>fwmark := x\<rparr>)))"
  "wf_key k \<Longrightarrow> private_key d = zero_key \<Longrightarrow> run_steps (device_kv env) (emit_if c ''PrivateKey'' (key_to_base64 k)) d =
     Some (Inr (dev_or (when_flag c WGDEVICE_HAS_PRIVATE_KEY) (d\<lparr>private_key := if c then k else zero_key\<rparr>)))"
  "nonempty s \<longrightarrow> tokens (the s) \<Longrightarrow> nonempty s \<longrightarrow> is_ws_url (the s) \<Longrightarrow> ws_listen d = None \<Longrightarrow>
     run_steps (device_kv env) (emit_nonempty ''WSListen'' s) d =
     Some (Inr (dev_or (when_flag (nonempty s) WGDEVICE_HAS_WS_LISTEN) (d\<lparr>ws_listen := when_nonempty s\<rparr>)))"
  "nonempty s \<longrightarrow> tokens (the s) \<Longrightarrow> ws_server_tls_cert d = None \<Longrightarrow>
     run_steps (device_kv env) (emit_nonempty ''WSServerTLSCert'' s) d =
     Some (Inr (dev_or (when_flag (nonempty s) WGDEVICE_HAS_WS_SERVER_TLS_CERT) (d\<lparr>ws_server_tls_cert := when_nonempty s\<rparr>)))"
  "nonempty s \<longrightarrow> tokens (the s) \<Longrightarrow> ws_server_tls_key d = None \<Longrightarrow>
     run_steps (device_kv env) (emit_nonempty ''WSServerTLSKey'' s) d =
     Some (Inr (dev_or (when_flag (nonempty s) WGDEVICE_HAS_WS_SERVER_TLS_KEY) (d\<lparr>ws_server_tls_key := when_nonempty s\<rparr>)))"
  "nonempty s \<longrightarrow> tokens (the s) \<Longrightarrow> ws_server_bearer d = None \<Longrightarrow>
     run_steps (device_kv env) (emit_nonempty ''WSServerBearer'' s) d =
     Some (Inr (dev_or (when_flag (nonempty s) WGDEVICE_HAS_WS_SERVER_BEARER) (d\<lparr>ws_server_bearer := when_nonempty s\<rparr>)))"
  "nonempty s \<longrightarrow> tokens (the s) \<Longrightarrow> ws_trusted_proxies d = None \<Longrightarrow>
     run_steps (device_kv env) (emit_nonempty ''WSTrustedProxies'' s) d =
     Some (Inr (dev_or (when_flag (nonempty s) WGDEVICE_HAS_WS_TRUSTED_PROXIES) (d\<lparr>ws_trusted_proxies := when_nonempty s\<rparr>)))"
proof -
  note dk = device_kv_token dispatch_device_key [simplified]
  show "w \<noteq> 0 \<longrightarrow> (\<exists>r. getaddrinfo env None (print_u (unat w)) 0 = Inr r \<and> is_inet r \<and> sa_port (ai_addr r) = w) \<Longrightarrow> listen_port d = 0 \<Longrightarrow>
     run_steps (device_kv env) (emit_if (w \<noteq> 0) ''ListenPort'' (print_u (unat w))) d =
     Some (Inr (dev_or (when_flag (w \<noteq> 0) WGDEVICE_HAS_LISTEN_PORT) (d\<lparr>listen_port := w\<rparr>)))"
    by (auto simp: dk set_listen_port_def parse_port_def unset_device_field dev_or_def)
  have x: "tokens (''0x'' @ print_x n)" for n by (simp add: token_char_def isspace_c_def NUL_def)
  show "fwmark d = 0 \<Longrightarrow> run_steps (device_kv env) (emit_if (x \<noteq> 0) ''FwMark'' (''0x'' @ print_x (unat x))) d =
     Some (Inr (dev_or (when_flag (x \<noteq> 0) WGDEVICE_HAS_FWMARK) (d\<lparr>fwmark := x\<rparr>)))"
    using device_kv_token [OF x] parse_fwmark_print [of _ x] dispatch_device_key(2) [of "''0x'' @ print_x (unat x)" env d]
    by (simp add: set_fwmark_def unset_device_field dev_or_def)
qed (cases s; simp add: device_kv_token dispatch_device_key [simplified] set_private_key_def parse_key_print set_ws_listen_def parse_ws_listen_def
    set_ws_str_def parse_ws_device_str_def unset_device unset_device_field dev_or_def when_nonempty_simps)+

lemma run_showconf_interface:
  assumes "conf_ok env d"
  shows "run_steps (device_kv (sys env)) (showconf_interface d) (device (config_read_init False)) = Some (Inr ((conf_device d)\<lparr>peers := []\<rparr>))"
proof -
  have k: "wf_key (private_key d)" using assms by (simp add: conf_ok_def)
  have port: "listen_port d \<noteq> 0 \<longrightarrow> (\<exists>r. getaddrinfo (sys env) None (print_u (unat (listen_port d))) 0 = Inr r \<and> is_inet r
      \<and> sa_port (ai_addr r) = listen_port d)" using assms unfolding conf_ok_def by blast
  have t: "nonempty (ws_listen d) \<longrightarrow> tokens (the (ws_listen d))" "nonempty (ws_listen d) \<longrightarrow> is_ws_url (the (ws_listen d))"
    "nonempty (ws_server_tls_cert d) \<longrightarrow> tokens (the (ws_server_tls_cert d))" "nonempty (ws_server_tls_key d) \<longrightarrow> tokens (the (ws_server_tls_key d))"
    "nonempty (ws_server_bearer d) \<longrightarrow> tokens (the (ws_server_bearer d))" "nonempty (ws_trusted_proxies d) \<longrightarrow> tokens (the (ws_trusted_proxies d))"
    using assms by (simp_all add: conf_ok_def)
  have absorb: "(a OR b OR c OR e) OR (when_flag x e OR y) = (a OR b OR c OR e) OR y" "(a OR b OR c OR e) OR (when_flag x c OR y) = (a OR b OR c OR e) OR y"
    "(a OR b OR c OR e) OR (when_flag x b OR y) = (a OR b OR c OR e) OR y" for a b c e y :: u32 and x
    by (simp_all add: when_flag_def ac_simps)
  show ?thesis
    unfolding showconf_interface_def
    using k t by (simp add: run_steps_append run_device_fields(1) [OF port] run_device_fields(2) [unfolded append.simps] run_device_fields config_read_init_def dev_or_def zero_device_def
        conf_device_def or.assoc del: run_steps_emit) (simp add: or.assoc [symmetric] absorb [unfolded or.assoc [symmetric]])
qed

section \<open>The whole text\<close>

text \<open>Every line that is printed has a key that starts a line, and a value without comment sign and newline.\<close>

definition conf_good :: "string \<times> string \<Rightarrow> bool" where
  "conf_good kv \<longleftrightarrow> conf_kv kv \<and> line_safe (conf_line kv)"

definition key_ok :: "string \<Rightarrow> bool" where
  "key_ok k \<longleftrightarrow> tokens k \<and> k \<noteq> [] \<and> hd k \<noteq> CHR ''[''"

lemma key_ok_keys:
  "key_ok ''ListenPort''" "key_ok ''FwMark''" "key_ok ''PrivateKey''" "key_ok ''WSListen''" "key_ok ''WSServerTLSCert''"
  "key_ok ''WSServerTLSKey''" "key_ok ''WSServerBearer''" "key_ok ''WSTrustedProxies''" "key_ok ''PublicKey''" "key_ok ''PresharedKey''"
  "key_ok ''AllowedIPs''" "key_ok ''WSMode''" "key_ok ''Endpoint''" "key_ok ''WSTunnelTarget''" "key_ok ''WSBearer''" "key_ok ''WSMask''"
  "key_ok ''WSTLSCA''" "key_ok ''WSTLSCert''" "key_ok ''WSTLSKey''" "key_ok ''WSTLSInsecure''" "key_ok ''WSPingInterval''"
  "key_ok ''WSBackoffMin''" "key_ok ''WSBackoffMax''" "key_ok ''PersistentKeepalive''"
  by (simp_all add: key_ok_def token_char_def isspace_c_def NUL_def)

lemma conf_good_value:
  assumes "key_ok k" and "CHR ''#'' \<notin> set v" and "line_safe v"
  shows "conf_good (k, v)"
proof -
  have "line_safe '' = ''" by (simp add: newline_def NUL_def)
  then show ?thesis using assms tokens_line_safe [of k] by (simp add: key_ok_def conf_good_def conf_kv_def conf_line_def)
qed

lemma conf_good_tokens: "key_ok k \<Longrightarrow> tokens v \<Longrightarrow> conf_good (k, v)"
  using conf_good_value tokens_no_comment tokens_line_safe by blast

lemma emit_good:
  "key_ok k \<Longrightarrow> tokens v \<Longrightarrow> list_all conf_good (emit_if c k v)"
  "key_ok k \<Longrightarrow> \<forall>v. s = Some v \<longrightarrow> tokens v \<Longrightarrow> list_all conf_good (emit_opt k s)"
  "key_ok k \<Longrightarrow> tokens_opt s \<Longrightarrow> list_all conf_good (emit_opt k s)"
  "key_ok k \<Longrightarrow> nonempty s \<longrightarrow> tokens (the s) \<Longrightarrow> list_all conf_good (emit_nonempty k s)"
  by (cases s; simp add: emit_if_def emit_opt_def emit_nonempty_def nonempty_def tokens_opt_def conf_good_tokens)+

lemma good_interface: "conf_ok env d \<Longrightarrow> list_all conf_good (showconf_interface d)"
proof -
  have x: "tokens (CHR ''0'' # CHR ''x'' # print_x n)" for n by (simp add: token_char_def isspace_c_def NUL_def)
  assume "conf_ok env d"
  then show ?thesis
    by (simp add: showconf_interface_def conf_ok_def emit_good key_ok_keys x del: list_all_emit tokens_Cons)
qed

lemma good_ws:
  assumes "conf_ws_ok env p"
  shows "list_all conf_good (showconf_ws p)"
proof -
  have "\<forall>v. ws_url p = Some v \<longrightarrow> tokens v" "\<forall>v. wstunnel_target p = Some v \<longrightarrow> tokens v"
    "tokens_opt (ws_bearer p)" "tokens_opt (ws_tls_ca p)" "tokens_opt (ws_tls_cert p)" "tokens_opt (ws_tls_key p)"
    using assms by (simp_all add: conf_ws_ok_def)
  then show ?thesis
    by (simp add: showconf_ws_def conf_good_tokens emit_good key_ok_keys literal_tokens del: list_all_emit tokens_Cons)
qed

lemma good_endpoint: "conf_endpoint env a \<Longrightarrow> list_all conf_good (showconf_endpoint env a)"
proof -
  have t: "token_char CHR '':''" "token_char CHR ''[''" "token_char CHR '']''" by (simp_all add: token_char_def isspace_c_def NUL_def)
  assume "conf_endpoint env a"
  then show ?thesis
    by (cases "a = Sa_none") (auto simp: showconf_endpoint_def conf_endpoint_def t intro!: conf_good_tokens key_ok_keys)
qed

lemma good_peer:
  assumes "conf_ok_peer env p"
  shows "list_all conf_good (showconf_peer env p)"
proof -
  have "list_all conf_good (emit_if (allowedips p \<noteq> []) ''AllowedIPs'' (print_allowedips env (allowedips p)))"
    using assms clean_print_allowedips(2,3) [of env "allowedips p"]
    by (simp add: emit_if_def conf_ok_peer_def conf_good_value key_ok_keys)
  moreover have "list_all conf_good (if transport p \<noteq> WGPEER_TRANSPORT_UDP then showconf_ws p else showconf_endpoint env (endpoint p))"
    using assms good_ws [of env p] good_endpoint [of env "endpoint p"] by (simp add: conf_ok_peer_def)
  ultimately show ?thesis
    using assms unfolding showconf_peer_def list_all_append conf_ok_peer_def
    by (simp add: emit_good key_ok_keys conf_good_tokens del: list_all_emit)
qed

definition nl :: "string \<Rightarrow> string" where
  "nl l = l @ [newline]"

lemma nl_conf_line: "map nl (map conf_line ls) = conf_text ls"
  by (simp add: conf_text_def nl_def)

lemma read_interface_header:
  "config_read_line env (nl ''[Interface]'') ctx = Some (Inr (ctx\<lparr>is_peer_section := False, is_device_section := True\<rparr>))"
proof -
  have "clean_line (nl ''[Interface]'') = ''[Interface]''"
    by (simp add: nl_def clean_line_def COMMENT_CHAR_def newline_def isspace_c_def)
  then show ?thesis by (simp add: config_read_line_def process_line_def strcaseeq_def)
qed

lemma read_peer_header:
  "config_read_line env (nl ''[Peer]'') ctx =
     Some (Inr ((add_peer (peer_or conf_flags zero_peer) ctx)\<lparr>is_peer_section := True, is_device_section := False\<rparr>))"
proof -
  have "clean_line (nl ''[Peer]'') = ''[Peer]''"
    by (simp add: nl_def clean_line_def COMMENT_CHAR_def newline_def isspace_c_def)
  then show ?thesis by (simp add: config_read_line_def process_line_def strcaseeq_def conf_flags_def tolower_c_def)
qed

lemma read_blank: "config_read_line env (nl []) ctx = Some (Inr ctx)"
  by (simp add: config_read_line_def nl_def clean_line_def COMMENT_CHAR_def newline_def isspace_c_def)

lemma list_all_good_kv: "list_all conf_good ls \<Longrightarrow> list_all conf_kv ls"
  by (auto simp: list_all_iff conf_good_def)

lemma run_showconf_peers:
  assumes "list_all (conf_ok_peer env) ps" and "parse_dns_retries (sys env) = Inr n"
    and "cursor_ok (last_peer ctx) (peers (device ctx))"
  shows "\<exists>ctx'. run_steps (config_read_line (sys env)) (map nl (showconf_peers env ps)) ctx = Some (Inr ctx')
    \<and> device ctx' = (device ctx)\<lparr>peers := peers (device ctx) @ map conf_peer ps\<rparr>"
  using assms(1,3)
proof (induction ps arbitrary: ctx)
  case (Cons p ps)
  let ?ps = "peers (device ctx)"
  have p: "conf_ok_peer env p" using Cons.prems(1) by simp
  obtain cur where cur: "run_steps (peer_kv (sys env)) (showconf_peer env p) (peer_or conf_flags zero_peer, None) = Some (Inr (conf_peer p, cur))"
    using run_showconf_peer [OF p assms(2)] by blast
  have "cursor_next (last_peer ctx) = Some (length ?ps)"
    using Cons.prems(2) by (auto simp: cursor_ok_def cursor_next_def split: option.splits)
  then have "(add_peer (peer_or conf_flags zero_peer) ctx)\<lparr>is_peer_section := True, is_device_section := False\<rparr>
      = conf_at ctx ?ps (peer_or conf_flags zero_peer, None)"
    using Cons.prems(2) by (simp add: add_peer_def conf_at_def link_after_append)
  then have head: "config_read_line (sys env) (nl ''[Peer]'') ctx = Some (Inr (conf_at ctx ?ps (peer_or conf_flags zero_peer, None)))"
    using read_peer_header by simp
  let ?ctx = "conf_at ctx ?ps (conf_peer p, cur)"
  have body: "run_steps (config_read_line (sys env)) (conf_text (showconf_peer env p)) (conf_at ctx ?ps (peer_or conf_flags zero_peer, None))
      = Some (Inr ?ctx)"
    using run_peer_kvs [OF list_all_good_kv [OF good_peer [OF p]]] cur by simp
  have c: "cursor_ok (last_peer ?ctx) (peers (device ?ctx))" by (simp add: conf_at_def cursor_ok_def)
  obtain ctx' where rest: "run_steps (config_read_line (sys env)) (map nl (showconf_peers env ps)) ?ctx = Some (Inr ctx')"
    "device ctx' = (device ?ctx)\<lparr>peers := peers (device ?ctx) @ map conf_peer ps\<rparr>"
    using Cons.IH [OF _ c] Cons.prems(1) by auto
  have sep: "run_steps (config_read_line (sys env)) (if ps \<noteq> [] then [nl []] else []) ?ctx = Some (Inr ?ctx)"
    using read_blank by simp
  have "map nl (showconf_peers env (p # ps)) = [nl ''[Peer]''] @ conf_text (showconf_peer env p) @ (if ps \<noteq> [] then [nl []] else []) @ map nl (showconf_peers env ps)"
    by (simp add: nl_conf_line [symmetric])
  then have "run_steps (config_read_line (sys env)) (map nl (showconf_peers env (p # ps))) ctx = Some (Inr ctx')"
    using head body sep rest(1) by (simp only: run_steps_append run_steps.simps option.case sum.case)
  then show ?case using rest(2) by (simp add: conf_at_def)
qed simp

lemma line_safe_header [simp]: "line_safe ''[Peer]''" "line_safe ''[Interface]''"
  by (simp_all add: newline_def NUL_def)

lemma safe_conf_lines: "list_all conf_good ls \<Longrightarrow> list_all line_safe (map conf_line ls)"
  by (auto simp: list_all_iff conf_good_def)

lemma safe_showconf_peers: "list_all (conf_ok_peer env) ps \<Longrightarrow> list_all line_safe (showconf_peers env ps)"
proof (induction ps)
  case (Cons p ps)
  then show ?case using safe_conf_lines [OF good_peer [of env p]] by (simp del: line_safe_Cons)
qed simp

lemma validate_conf_peer:
  assumes "conf_ok_peer env p"
  shows "validate_ws_peer (conf_peer p) = None" and "peer_has (conf_peer p) WGPEER_HAS_PUBLIC_KEY"
proof -
  have fields: "peer_has (conf_peer p) WGPEER_HAS_TRANSPORT"
    "transport p = WGPEER_TRANSPORT_UDP \<Longrightarrow> \<not> peer_has (conf_peer p) WGPEER_HAS_WS_SETTINGS \<and> ws_url (conf_peer p) = None"
    "transport (conf_peer p) = transport p"
    "transport p \<noteq> WGPEER_TRANSPORT_UDP \<Longrightarrow> ws_url (conf_peer p) = ws_url p \<and> wstunnel_target (conf_peer p) = wstunnel_target p
       \<and> endpoint (conf_peer p) = (if ws_url p = None then Sa_none else endpoint p)"
    by (simp_all add: conf_peer_def Let_def peer_or_def conf_base_def zero_peer_def conf_flags_def flag_set_or ws_fields_def when_flag_def)
  show "validate_ws_peer (conf_peer p) = None"
    unfolding validate_ws_peer_ok_iff
    using assms fields by (cases "transport p") (auto simp: conf_ok_peer_def conf_ws_ok_def)
  show "peer_has (conf_peer p) WGPEER_HAS_PUBLIC_KEY"
    by (simp add: conf_peer_def Let_def peer_or_def conf_base_def conf_flags_def flag_set_or ws_fields_def)
qed

lemma config_read_showconf:
  assumes "conf_ok env d"
  shows "config_read (sys env) False (getlines (text_of_lines (showconf_lines env d))) = Some (Inr (conf_device d))"
proof -
  have ps: "list_all (conf_ok_peer env) (peers d)" and k: "wf_key (private_key d)" using assms by (simp_all add: conf_ok_def)
  obtain n where n: "parse_dns_retries (sys env) = Inr n" using assms unfolding conf_ok_def by blast
  have "list_all line_safe (showconf_lines env d)"
    using safe_conf_lines [OF good_interface [OF assms]] safe_showconf_peers [OF ps] by (simp add: showconf_lines_def del: line_safe_Cons)
  then have lines: "getlines (text_of_lines (showconf_lines env d)) = map nl (showconf_lines env d)"
    by (simp add: getlines_text nl_def [abs_def])
  let ?init = "config_read_init False"
  let ?c1 = "?init\<lparr>is_peer_section := False, is_device_section := True\<rparr>"
  let ?c2 = "?c1\<lparr>device := (conf_device d)\<lparr>peers := []\<rparr>\<rparr>"
  have c1: "?c1\<lparr>device := device ?init\<rparr> = ?c1" by (simp add: config_read_init_def)
  have body: "run_steps (config_read_line (sys env)) (conf_text (showconf_interface d)) ?c1 = Some (Inr ?c2)"
    using run_device_kvs [OF list_all_good_kv [OF good_interface [OF assms]], of ?c1 "sys env" "device ?init"] run_showconf_interface [OF assms] c1
    by simp
  obtain ctx where ctx: "run_steps (config_read_line (sys env)) (map nl (showconf_peers env (peers d))) ?c2 = Some (Inr ctx)"
    "device ctx = (device ?c2)\<lparr>peers := peers (device ?c2) @ map conf_peer (peers d)\<rparr>"
    using run_showconf_peers [OF ps n, of ?c2] by (auto simp: config_read_init_def)
  have "map nl (showconf_lines env d) = [nl ''[Interface]''] @ conf_text (showconf_interface d) @ [nl []] @ map nl (showconf_peers env (peers d))"
    by (simp add: showconf_lines_def nl_conf_line [symmetric])
  then have "run_steps (config_read_line (sys env)) (map nl (showconf_lines env d)) ?init = Some (Inr ctx)"
    using read_interface_header [of "sys env" ?init] body read_blank [of "sys env" ?c2] ctx(1)
    by (simp only: run_steps_append run_steps.simps option.case sum.case)
  moreover have dev: "device ctx = conf_device d" using ctx(2) by (simp add: conf_device_def)
  moreover have "finish_peers (peers (conf_device d)) = None"
    unfolding finish_peers_None using validate_conf_peer ps by (auto simp: conf_device_def list_all_iff)
  ultimately show ?thesis by (simp add: config_read_def lines config_read_finish_def)
qed

section \<open>Properties\<close>

text \<open>
  C4: \<open>wg showconf\<close> followed by \<open>wg setconf\<close> is lossless. When the strings of a device can stand in a
  line, its numeric addresses resolve to themselves and its WebSocket settings are of a kind the reader
  accepts, the text that is printed is read without error, and gives exactly the device that was
  printed: its keys, port and mark, its peers in order with all their allowed IPs, endpoints, transport
  and WebSocket settings, with only what is at its default left out.
\<close>

theorem showconf_round_trip:
  assumes "ipc_get_device env iface fs = (Inr d, fs')" and "conf_ok (uapi env) d"
  shows "\<exists>text. showconf_main env [cmd, iface] fs = ((0, text), fs')
    \<and> config_read (sys (uapi env)) False (getlines text) = Some (Inr (conf_device d))"
  using config_read_showconf [OF assms(2)] assms(1) by (simp add: showconf_main_def)

definition sample_conf_ipc :: ipc_env where
  "sample_conf_ipc = sample_ipc\<lparr>kern := sample_kernel\<lparr>kernel_get_device := (\<lambda>_. Inr sample_udevice)\<rparr>\<rparr>"

lemma sample_get: "ipc_get_device sample_conf_ipc ''wg2'' sample_socks
  = (Inr sample_udevice, snd (userspace_has_wireguard_interface sample_unix ''wg2'' sample_socks))"
  using sample_has(2) by (simp add: ipc_get_device_def sample_conf_ipc_def sample_ipc_def split_beta)

lemma sample_conf_ok: "conf_ok sample_uenv sample_udevice"
proof -
  have t: "tokens ''10.0.0.1''" "tokens ''51820''" by (simp_all add: token_char_def isspace_c_def NUL_def)
  have "conf_allowedip sample_uenv sample_aip"
    unfolding conf_allowedip_def using t(1)
    by (simp add: print_ip_def sample_aip_def sample_uenv_def sample_uenv0_def sample_env_def valid_prefix_def
        zero_allowedip_def ip4_def af_defs del: tokens_Cons)
  moreover have "conf_endpoint sample_uenv (Sa_in 0x0A000001 51820)"
    unfolding conf_endpoint_def using t
    by (simp add: sample_uenv_def sample_uenv0_def sample_addrinfo_def is_inet_def sizeof_sockaddr_in_def del: tokens_Cons)
  ultimately show ?thesis
    by (simp add: conf_ok_def conf_ok_peer_def sample_udevice_def sample_upeer_def zero_device_def zero_peer_def nonempty_def
        sample_uenv_def sample_uenv0_def sample_addrinfo_def is_inet_def parse_dns_retries_def sample_env_def sa_port_def)
qed

theorem showconf_round_trip_witness:
  "peers sample_udevice = [sample_upeer] \<and>
   (\<exists>text. fst (showconf_main sample_conf_ipc [''showconf'', ''wg2''] sample_socks) = (0, text)
      \<and> config_read (sys (uapi sample_conf_ipc)) False (getlines text) = Some (Inr (conf_device sample_udevice)))"
proof -
  have "conf_ok (uapi sample_conf_ipc) sample_udevice"
    using sample_conf_ok by (simp add: sample_conf_ipc_def sample_ipc_def)
  then show ?thesis
    using showconf_round_trip [OF sample_get, of "''showconf''"] by (auto simp: sample_udevice_def)
qed

end
