(* ===== verification/Qsort.thy ===== *)
theory Qsort
  imports WG_Prelude "HOL-Library.Multiset" "HOL-Library.More_List"
begin

text \<open>
  The functions \<open>memcmp\<close> and \<open>qsort\<close> of the C library, as \<open>src/src/setconf.c\<close> and \<open>src/src/show.c\<close> use
  them. What \<open>qsort\<close> promises is stated in the locale \<open>comparison\<close> for every comparison function that
  is a total preorder on the elements of the array: the result is a permutation of the array, in ascending
  order. Of the results that are possible when elements compare equal, the model takes the one that keeps them in
  their order; the lemmas of the locale do not say which it is.
\<close>

fun byte_cmp :: "u8 list \<Rightarrow> u8 list \<Rightarrow> int" where
  "byte_cmp (x # xs) (y # ys) = (if x = y then byte_cmp xs ys else uint x - uint y)"
| "byte_cmp _ _ = 0"

text \<open>The first \<open>n\<close> bytes of an object, those it does not have read as 0.\<close>

definition bytes_at :: "nat \<Rightarrow> u8 list \<Rightarrow> u8 list" where
  "bytes_at n xs = map (nth_default 0 xs) [0..<n]"

definition memcmp :: "u8 list \<Rightarrow> u8 list \<Rightarrow> nat \<Rightarrow> int" where
  "memcmp xs ys n = byte_cmp (bytes_at n xs) (bytes_at n ys)"

fun qsort_insert :: "('a \<Rightarrow> 'a \<Rightarrow> int) \<Rightarrow> 'a \<Rightarrow> 'a list \<Rightarrow> 'a list" where
  "qsort_insert cmp x [] = [x]"
| "qsort_insert cmp x (y # ys) = (if cmp x y \<le> 0 then x # y # ys else y # qsort_insert cmp x ys)"

definition qsort :: "('a \<Rightarrow> 'a \<Rightarrow> int) \<Rightarrow> 'a list \<Rightarrow> 'a list" where
  "qsort cmp xs = foldr (qsort_insert cmp) xs []"

lemma mset_qsort_insert: "mset (qsort_insert cmp x xs) = add_mset x (mset xs)"
  by (induction xs) auto

lemma mset_qsort [simp]: "mset (qsort cmp xs) = mset xs"
  by (induction xs) (simp_all add: qsort_def mset_qsort_insert)

lemma set_qsort [simp]: "set (qsort cmp xs) = set xs"
  using mset_qsort [of cmp xs] by (metis set_mset_mset)

lemma set_qsort_insert [simp]: "set (qsort_insert cmp x xs) = insert x (set xs)"
  using mset_qsort_insert [of cmp x xs] by (metis set_mset_add_mset_insert set_mset_mset)

lemma length_qsort [simp]: "length (qsort cmp xs) = length xs"
  using mset_qsort [of cmp xs] by (metis size_mset)

lemma distinct_map_qsort [simp]: "distinct (map f (qsort cmp xs)) = distinct (map f xs)"
  using mset_qsort [of cmp xs] by (metis mset_eq_imp_distinct_iff mset_map)

locale comparison =
  fixes cmp :: "'a \<Rightarrow> 'a \<Rightarrow> int" and carrier :: "'a \<Rightarrow> bool"
  assumes cmp_total: "carrier x \<Longrightarrow> carrier y \<Longrightarrow> cmp x y > 0 \<Longrightarrow> cmp y x \<le> 0"
    and cmp_trans: "carrier x \<Longrightarrow> carrier y \<Longrightarrow> carrier z \<Longrightarrow> cmp x y \<le> 0 \<Longrightarrow> cmp y z \<le> 0 \<Longrightarrow> cmp x z \<le> 0"
begin

lemma sorted_insert:
  "carrier x \<Longrightarrow> \<forall>y \<in> set xs. carrier y \<Longrightarrow> sorted_wrt (\<lambda>x y. cmp x y \<le> 0) xs
     \<Longrightarrow> sorted_wrt (\<lambda>x y. cmp x y \<le> 0) (qsort_insert cmp x xs)"
proof (induction xs)
  case (Cons y ys)
  then have c: "carrier x" "carrier y" "\<forall>z \<in> set ys. carrier z" by simp_all
  show ?case
  proof (cases "cmp x y \<le> 0")
    case True
    then show ?thesis using Cons.prems cmp_trans [OF c(1,2) _ True] by auto
  next
    case False
    then have "cmp y x \<le> 0" using cmp_total [OF c(1,2)] by simp
    then show ?thesis using False Cons by auto
  qed
qed simp

lemma sorted_qsort: "\<forall>x \<in> set xs. carrier x \<Longrightarrow> sorted_wrt (\<lambda>x y. cmp x y \<le> 0) (qsort cmp xs)"
proof (induction xs)
  case (Cons x xs)
  then have "\<forall>y \<in> set (qsort cmp xs). carrier y" "carrier x" "sorted_wrt (\<lambda>x y. cmp x y \<le> 0) (qsort cmp xs)" by simp_all
  then show ?case using sorted_insert [of x "qsort cmp xs"] by (simp add: qsort_def)
qed (simp add: qsort_def)

end

section \<open>Comparing bytes\<close>

lemma byte_cmp_swap: "length xs = length ys \<Longrightarrow> byte_cmp ys xs = - byte_cmp xs ys"
  by (induction xs ys rule: list_induct2) auto

lemma byte_cmp_refl [simp]: "byte_cmp xs xs = 0"
  by (induction xs) auto

lemma byte_cmp_zero: "length xs = length ys \<Longrightarrow> byte_cmp xs ys = 0 \<longleftrightarrow> xs = ys"
  by (induction xs ys rule: list_induct2) (auto simp: word_uint_eq_iff)

lemma byte_cmp_trans:
  assumes "length xs = length ys" and "length ys = length zs" and "byte_cmp xs ys \<le> 0" and "byte_cmp ys zs \<le> 0"
  shows "byte_cmp xs zs \<le> 0"
  using assms
proof (induction xs ys zs rule: list_induct3)
  case (Cons x xs y ys z zs)
  then show ?case
    by (auto split: if_splits) (use word_uint_eq_iff in force)+
qed simp

lemma length_bytes_at [simp]: "length (bytes_at n xs) = n"
  by (simp add: bytes_at_def)

lemma bytes_at_id: "length xs = n \<Longrightarrow> bytes_at n xs = xs"
  by (rule nth_equalityI) (auto simp: bytes_at_def nth_default_nth)

lemma memcmp_laws:
  shows "memcmp ys xs n = - memcmp xs ys n"
    and "memcmp xs ys n = 0 \<longleftrightarrow> bytes_at n xs = bytes_at n ys"
    and "memcmp xs ys n \<le> 0 \<Longrightarrow> memcmp ys zs n \<le> 0 \<Longrightarrow> memcmp xs zs n \<le> 0"
proof -
  have l: "length (bytes_at n as) = length (bytes_at n bs)" for as bs by simp
  show "memcmp ys xs n = - memcmp xs ys n" unfolding memcmp_def by (rule byte_cmp_swap [OF l])
  show "memcmp xs ys n = 0 \<longleftrightarrow> bytes_at n xs = bytes_at n ys" unfolding memcmp_def by (rule byte_cmp_zero [OF l])
  show "memcmp xs ys n \<le> 0 \<Longrightarrow> memcmp ys zs n \<le> 0 \<Longrightarrow> memcmp xs zs n \<le> 0"
    unfolding memcmp_def by (rule byte_cmp_trans [OF l l])
qed

lemma memcmp_refl [simp]: "memcmp xs xs n = 0"
  by (simp add: memcmp_def)

lemma memcmp_zero_iff: "length xs = n \<Longrightarrow> length ys = n \<Longrightarrow> memcmp xs ys n = 0 \<longleftrightarrow> xs = ys"
  by (simp add: memcmp_laws(2) bytes_at_id)

end
