(* ===== verification/Setconf.thy ===== *)
theory Setconf
  imports ShowconfFacts Qsort
begin

text \<open>
  The commands that change a device: \<open>wg setconf\<close>, \<open>addconf\<close> and \<open>syncconf\<close> (\<open>src/src/setconf.c\<close>) and
  \<open>wg set\<close> (\<open>src/src/set.c\<close>).

  A pointer of \<open>struct peer_origin\<close> is an index into the list of the peers of the file or of the
  interface; the peers that \<open>sync_conf\<close> puts in front of the list of the file are kept apart from it
  until the end of the loop, so that the indices stay valid.
\<close>

section \<open>Synchronising with the interface\<close>

record peer_origin =
  origin :: nat
  from_file :: bool

definition origin_peer :: "wgpeer list \<Rightarrow> wgpeer list \<Rightarrow> peer_origin \<Rightarrow> wgpeer" where
  "origin_peer fp rt x = (if from_file x then fp ! origin x else rt ! origin x)"

definition peer_cmp :: "(peer_origin \<Rightarrow> key) \<Rightarrow> peer_origin \<Rightarrow> peer_origin \<Rightarrow> int" where
  "peer_cmp key_of a b =
     (let ret = memcmp (key_of a) (key_of b) WG_KEY_LEN
      in if ret \<noteq> 0 then ret else of_bool (from_file a) - of_bool (from_file b))"

definition removed_peer :: "key \<Rightarrow> wgpeer" where
  "removed_peer k = zero_peer\<lparr>peer_flags := WGPEER_REMOVE_ME, peer_public_key := k\<rparr>"

text \<open>What a peer of the file takes over from the peer of the interface with the same key.\<close>

definition clear_psk :: "wgpeer \<Rightarrow> wgpeer \<Rightarrow> wgpeer" where
  "clear_psk r p =
     (if peer_has r WGPEER_HAS_PRESHARED_KEY \<and> \<not> peer_has p WGPEER_HAS_PRESHARED_KEY
      then peer_or WGPEER_HAS_PRESHARED_KEY (p\<lparr>preshared_key := zero_key\<rparr>) else p)"

definition clear_keepalive :: "wgpeer \<Rightarrow> wgpeer \<Rightarrow> wgpeer" where
  "clear_keepalive r p =
     (if persistent_keepalive_interval r \<noteq> 0 \<and> \<not> peer_has p WGPEER_HAS_PERSISTENT_KEEPALIVE_INTERVAL
      then peer_or WGPEER_HAS_PERSISTENT_KEEPALIVE_INTERVAL (p\<lparr>persistent_keepalive_interval := 0\<rparr>) else p)"

fun sync_loop :: "wgpeer list \<Rightarrow> peer_origin list \<Rightarrow> wgpeer list \<Rightarrow> wgpeer list \<Rightarrow> wgpeer list \<times> wgpeer list" where
  "sync_loop rt [] fp removed = (fp, removed)"
| "sync_loop rt (x # xs) fp removed =
     (if from_file x then sync_loop rt xs fp removed
      else
        let r = rt ! origin x
        in if xs = [] \<or> \<not> from_file (hd xs) \<or> memcmp (peer_public_key r) (peer_public_key (origin_peer fp rt (hd xs))) WG_KEY_LEN \<noteq> 0
           then sync_loop rt xs fp (removed_peer (peer_public_key r) # removed)
           else
             let j = origin (hd xs);
                 fp1 = fp[j := clear_psk r (fp ! j)];
                 fp2 = fp1[j := clear_keepalive r (fp1 ! j)]
             in sync_loop rt xs fp2 removed)"

definition peer_origins :: "wgpeer list \<Rightarrow> wgpeer list \<Rightarrow> peer_origin list" where
  "peer_origins fp rt =
     map (\<lambda>i. \<lparr>origin = i, from_file = True\<rparr>) [0..<length fp] @ map (\<lambda>i. \<lparr>origin = i, from_file = False\<rparr>) [0..<length rt]"

definition sync_peers :: "wgpeer list \<Rightarrow> wgpeer list \<Rightarrow> wgpeer list" where
  "sync_peers fp rt =
     (let sorted = qsort (peer_cmp (\<lambda>x. peer_public_key (origin_peer fp rt x))) (peer_origins fp rt);
          (fp', removed) = sync_loop rt sorted fp []
      in removed @ fp')"

definition sync_conf :: "ipc_env \<Rightarrow> wgdevice \<Rightarrow> sockfs \<Rightarrow> wgdevice option \<times> sockfs" where
  "sync_conf env d fs =
     (if peers d = [] then (Some d, fs)
      else
        case ipc_get_device env (dev_name d) fs of
          (Inl _, fs') \<Rightarrow> (None, fs')
        | (Inr runtime, fs') \<Rightarrow>
            if peers runtime = [] then (Some d, fs')
            else (Some (d\<lparr>dev_flags := dev_flags d AND NOT WGDEVICE_REPLACE_PEERS, peers := sync_peers (peers d) (peers runtime)\<rparr>), fs'))"

section \<open>The commands\<close>

text \<open>The exit status; \<open>None\<close> when the resolver retries for ever.\<close>

definition setconf_main :: "ipc_env \<Rightarrow> string list \<Rightarrow> sockfs \<Rightarrow> (int \<times> sockfs) option" where
  "setconf_main env argv fs =
     (let senv = sys (uapi env)
      in if length argv \<noteq> 3 then Some (1, fs)
         else
           case fopen senv (argv ! 2) of
             None \<Rightarrow> Some (1, fs)
           | Some input \<Rightarrow>
               (case config_read senv (argv ! 0 = ''addconf'') (map c_str (getlines (f_bytes input))) of
                  None \<Rightarrow> None
                | Some (Inl _) \<Rightarrow> Some (1, fs)
                | Some (Inr dev) \<Rightarrow>
                    let d = set_dev_name (argv ! 1) dev
                    in case (if argv ! 0 = ''syncconf'' then sync_conf env d fs else (Some d, fs)) of
                         (None, fs1) \<Rightarrow> Some (1, fs1)
                       | (Some d', fs1) \<Rightarrow>
                           let (ret, fs2) = ipc_set_device env d' fs1 in Some (if ret \<noteq> 0 then 1 else 0, fs2)))"

definition set_main :: "ipc_env \<Rightarrow> string list \<Rightarrow> sockfs \<Rightarrow> (int \<times> sockfs) option" where
  "set_main env argv fs =
     (if length argv < 3 then Some (1, fs)
      else
        case config_read_cmd (sys (uapi env)) (drop 2 argv) of
          None \<Rightarrow> None
        | Some (Inl _) \<Rightarrow> Some (1, fs)
        | Some (Inr dev) \<Rightarrow>
            let (ret, fs') = ipc_set_device env (set_dev_name (argv ! 1) dev) fs in Some (if ret \<noteq> 0 then 1 else 0, fs'))"

section \<open>The order of the array\<close>

lemma peer_cmp_le_iff:
  "peer_cmp k a b \<le> 0 \<longleftrightarrow> memcmp (k a) (k b) WG_KEY_LEN < 0 \<or> memcmp (k a) (k b) WG_KEY_LEN = 0 \<and> (from_file a \<longrightarrow> from_file b)"
  by (cases "from_file a"; cases "from_file b") (auto simp: peer_cmp_def Let_def)

lemma peer_cmp_swap: "peer_cmp k b a = - peer_cmp k a b"
  by (simp add: peer_cmp_def Let_def memcmp_laws(1) [of "k b" "k a"])

interpretation origins: comparison "peer_cmp key_of" "\<lambda>_. True" for key_of
proof
  fix a b
  show "0 < peer_cmp key_of a b \<Longrightarrow> peer_cmp key_of b a \<le> 0"
    using peer_cmp_swap [of key_of b a] by simp
next
  fix a b c
  assume ab: "peer_cmp key_of a b \<le> 0" and bc: "peer_cmp key_of b c \<le> 0"
  let ?m = "\<lambda>x y. memcmp (key_of x) (key_of y) WG_KEY_LEN"
  have "?m a b \<le> 0" "?m b c \<le> 0" using ab bc unfolding peer_cmp_le_iff by auto
  then have ac: "?m a c \<le> 0" by (rule memcmp_laws(3))
  show "peer_cmp key_of a c \<le> 0"
  proof (cases "?m a c = 0")
    case True
    then have "?m c a \<le> 0" by (simp add: memcmp_laws(1) [of "key_of c"])
    then have "?m b a \<le> 0" "?m c b \<le> 0"
      using \<open>?m a b \<le> 0\<close> \<open>?m b c \<le> 0\<close> memcmp_laws(3) by blast+
    then have "?m a b = 0" "?m b c = 0"
      using \<open>?m a b \<le> 0\<close> \<open>?m b c \<le> 0\<close> memcmp_laws(1) [of "key_of a" "key_of b"] memcmp_laws(1) [of "key_of b" "key_of c"] by simp_all
    then show ?thesis using ab bc True unfolding peer_cmp_le_iff by auto
  qed (use ac in \<open>simp add: peer_cmp_le_iff\<close>)
qed

section \<open>What the loop of sync_conf does\<close>

definition merge_peer :: "wgpeer \<Rightarrow> wgpeer \<Rightarrow> wgpeer" where
  "merge_peer r p = clear_keepalive r (clear_psk r p)"

lemma merge_peer_key [simp]: "peer_public_key (merge_peer r p) = peer_public_key p"
  by (simp add: merge_peer_def clear_keepalive_def clear_psk_def peer_or_def)

text \<open>The array in order, each pair of key and origin once; \<open>K\<close> is the key an entry points to.\<close>

definition sorted_origins :: "(peer_origin \<Rightarrow> key) \<Rightarrow> peer_origin list \<Rightarrow> bool" where
  "sorted_origins K xs \<longleftrightarrow> sorted_wrt (\<lambda>x y. peer_cmp K x y \<le> 0) xs \<and> distinct (map (\<lambda>x. (K x, from_file x)) xs)
     \<and> (\<forall>x \<in> set xs. length (K x) = WG_KEY_LEN)"

lemma sorted_origins_tl: "sorted_origins K (x # xs) \<Longrightarrow> sorted_origins K xs"
  by (auto simp: sorted_origins_def)

lemma origins_between:
  assumes "peer_cmp K x y \<le> 0" and "peer_cmp K y z \<le> 0" and "K x = K z"
    and "length (K x) = WG_KEY_LEN" and "length (K y) = WG_KEY_LEN"
  shows "K y = K x"
proof -
  have "memcmp (K x) (K y) WG_KEY_LEN \<le> 0" "memcmp (K y) (K x) WG_KEY_LEN \<le> 0"
    using assms(1-3) unfolding peer_cmp_le_iff by auto
  then have "memcmp (K x) (K y) WG_KEY_LEN = 0" using memcmp_laws(1) [of "K x" "K y"] by simp
  then show ?thesis using memcmp_zero_iff assms(4,5) by metis
qed

lemma next_origin:
  assumes "sorted_origins K (x # xs)" and "\<not> from_file x"
  shows "(\<exists>y \<in> set xs. from_file y \<and> K y = K x) \<longleftrightarrow> xs \<noteq> [] \<and> from_file (hd xs) \<and> K (hd xs) = K x"
proof
  assume "\<exists>y \<in> set xs. from_file y \<and> K y = K x"
  then obtain y where y: "y \<in> set xs" "from_file y" "K y = K x" by blast
  then obtain z zs where xs: "xs = z # zs" by (cases xs) auto
  have le: "peer_cmp K x z \<le> 0" "y = z \<or> peer_cmp K z y \<le> 0"
    using assms(1) y(1) xs by (auto simp: sorted_origins_def)
  have "K z = K x"
    using le y origins_between [of K x z y] assms(1) xs by (auto simp: sorted_origins_def)
  moreover have "from_file z"
    using assms calculation xs by (auto simp: sorted_origins_def)
  ultimately show "xs \<noteq> [] \<and> from_file (hd xs) \<and> K (hd xs) = K x" using xs by simp
qed (metis list.set_sel(1))

lemma no_earlier_file:
  assumes "sorted_origins K (x # xs)" and "from_file x" and "z \<in> set xs" and "\<not> from_file z"
  shows "K z \<noteq> K x"
proof
  assume "K z = K x"
  moreover have "peer_cmp K x z \<le> 0" using assms by (auto simp: sorted_origins_def)
  ultimately show False using assms(2,4) by (simp add: peer_cmp_le_iff)
qed

definition unmatched :: "(peer_origin \<Rightarrow> key) \<Rightarrow> peer_origin list \<Rightarrow> peer_origin list" where
  "unmatched K xs = filter (\<lambda>x. \<not> from_file x \<and> \<not> (\<exists>y \<in> set xs. from_file y \<and> K y = K x)) xs"

lemma unmatched_Cons:
  assumes "sorted_origins K (x # xs)"
  shows "unmatched K (x # xs) =
    (if \<not> from_file x \<and> \<not> (xs \<noteq> [] \<and> from_file (hd xs) \<and> K (hd xs) = K x) then x # unmatched K xs else unmatched K xs)"
proof -
  have "(\<exists>y \<in> set (x # xs). from_file y \<and> K y = K z) \<longleftrightarrow> (\<exists>y \<in> set xs. from_file y \<and> K y = K z)" if "z \<in> set xs" "\<not> from_file z" for z
    using no_earlier_file [OF assms _ that] by auto
  then have "filter (\<lambda>z. \<not> from_file z \<and> \<not> (\<exists>y \<in> set (x # xs). from_file y \<and> K y = K z)) xs = unmatched K xs"
    unfolding unmatched_def by (intro filter_cong) auto
  moreover have "(\<exists>y \<in> set (x # xs). from_file y \<and> K y = K x) \<longleftrightarrow> xs \<noteq> [] \<and> from_file (hd xs) \<and> K (hd xs) = K x" if "\<not> from_file x"
    using next_origin [OF assms that] that by simp
  ultimately show ?thesis by (auto simp: unmatched_def)
qed

text \<open>The peer of the file at index \<open>j\<close>, after the entries \<open>xs\<close> of the array were visited.\<close>

definition merged :: "(peer_origin \<Rightarrow> key) \<Rightarrow> wgpeer list \<Rightarrow> peer_origin list \<Rightarrow> nat \<Rightarrow> wgpeer \<Rightarrow> wgpeer" where
  "merged K rt xs j p =
     (case find (\<lambda>x. \<not> from_file x \<and> K x = peer_public_key p) xs of
        Some x \<Rightarrow> if \<lparr>origin = j, from_file = True\<rparr> \<in> set xs then merge_peer (rt ! origin x) p else p
      | None \<Rightarrow> p)"

lemma find_None_later:
  assumes "sorted_origins K (x # xs)" and "\<not> from_file x"
  shows "find (\<lambda>y. \<not> from_file y \<and> K y = K x) xs = None"
  using assms by (auto simp: find_None_iff sorted_origins_def image_iff)

lemma sync_loop_spec:
  assumes "sorted_origins K xs" and "\<forall>x \<in> set xs. \<not> from_file x \<longrightarrow> K x = peer_public_key (rt ! origin x)"
    and "\<forall>x \<in> set xs. from_file x \<longrightarrow> origin x < length fp \<and> K x = peer_public_key (fp ! origin x)"
  shows "fst (sync_loop rt xs fp rm) = map (\<lambda>j. merged K rt xs j (fp ! j)) [0..<length fp]
    \<and> snd (sync_loop rt xs fp rm) = rev (map (\<lambda>x. removed_peer (K x)) (unmatched K xs)) @ rm"
  using assms
proof (induction xs arbitrary: fp rm)
  case Nil
  then show ?case by (simp add: merged_def unmatched_def map_nth)
next
  case (Cons x xs)
  note srt = sorted_origins_tl [OF Cons.prems(1)]
  note IH = Cons.IH [OF srt]
  consider (ours) "from_file x" | (gone) "\<not> from_file x" "\<not> (xs \<noteq> [] \<and> from_file (hd xs) \<and> K (hd xs) = K x)"
    | (kept) "\<not> from_file x" "xs \<noteq> []" "from_file (hd xs)" "K (hd xs) = K x" by blast
  then show ?case
  proof cases
    case ours
    have "merged K rt (x # xs) j (fp ! j) = merged K rt xs j (fp ! j)" if "j < length fp" for j
    proof (cases "x = \<lparr>origin = j, from_file = True\<rparr>")
      case True
      then have "K x = peer_public_key (fp ! j)" using Cons.prems(3) by auto
      then have "find (\<lambda>z. \<not> from_file z \<and> K z = peer_public_key (fp ! j)) xs = None"
        using no_earlier_file [OF Cons.prems(1) ours] by (auto simp: find_None_iff)
      then show ?thesis using ours by (simp add: merged_def)
    next
      case False
      then show ?thesis using ours by (simp add: merged_def split: option.split)
    qed
    then show ?thesis
      using ours IH [of fp rm] Cons.prems(2,3) unmatched_Cons [OF Cons.prems(1)] by auto
  next
    case gone
    have cond: "xs = [] \<or> \<not> from_file (hd xs) \<or> memcmp (peer_public_key (rt ! origin x)) (peer_public_key (origin_peer fp rt (hd xs))) WG_KEY_LEN \<noteq> 0"
    proof (cases "xs = [] \<or> \<not> from_file (hd xs)")
      case False
      then have k: "hd xs \<in> set xs" "K (hd xs) = peer_public_key (origin_peer fp rt (hd xs))" "K x = peer_public_key (rt ! origin x)"
        using Cons.prems(2,3) gone(1) by (auto simp: origin_peer_def)
      moreover have "length (K x) = WG_KEY_LEN" "length (K (hd xs)) = WG_KEY_LEN"
        using Cons.prems(1) k(1) by (auto simp: sorted_origins_def)
      ultimately show ?thesis
        using False gone(2) memcmp_zero_iff [of "K x" WG_KEY_LEN "K (hd xs)"] by simp
    qed auto
    have "merged K rt (x # xs) j (fp ! j) = merged K rt xs j (fp ! j)" if "j < length fp" for j
    proof (cases "K x = peer_public_key (fp ! j)")
      case True
      have "\<lparr>origin = j, from_file = True\<rparr> \<notin> set xs"
        using True gone next_origin [OF Cons.prems(1) gone(1)] Cons.prems(3) by fastforce
      moreover have "x \<noteq> \<lparr>origin = j, from_file = True\<rparr>" using gone(1) by auto
      ultimately show ?thesis by (auto simp: merged_def split: option.split)
    next
      case False
      have "x \<noteq> \<lparr>origin = j, from_file = True\<rparr>" using gone(1) by auto
      then show ?thesis using False by (auto simp: merged_def split: option.split)
    qed
    then show ?thesis
      using gone cond IH [of fp "removed_peer (peer_public_key (rt ! origin x)) # rm"] Cons.prems(2,3) unmatched_Cons [OF Cons.prems(1)]
      by auto
  next
    case kept
    let ?r = "rt ! origin x" and ?j = "origin (hd xs)"
    have h: "hd xs \<in> set xs" "hd xs = \<lparr>origin = ?j, from_file = True\<rparr>" using kept by (auto intro: peer_origin.equality)
    then have h3: "\<lparr>origin = ?j, from_file = True\<rparr> \<in> set xs" by metis
    have j: "?j < length fp" "K (hd xs) = peer_public_key (fp ! ?j)" "K x = peer_public_key ?r"
      using Cons.prems(2,3) kept h by auto
    define fp2 where "fp2 = fp[?j := merge_peer ?r (fp ! ?j)]"
    have step: "sync_loop rt (x # xs) fp rm = sync_loop rt xs fp2 rm"
      using kept j by (simp add: fp2_def merge_peer_def origin_peer_def Let_def)
    have keys: "peer_public_key (fp2 ! i) = peer_public_key (fp ! i)" if "i < length fp" for i
      using that j(1) by (cases "i = ?j") (simp_all add: fp2_def)
    have "merged K rt (x # xs) i (fp ! i) = merged K rt xs i (fp2 ! i)" if i: "i < length fp" for i
    proof (cases "i = ?j")
      case True
      have "merged K rt (x # xs) i (fp ! i) = merge_peer ?r (fp ! i)"
        using True h3 j kept by (simp add: merged_def)
      moreover have "merged K rt xs i (fp2 ! i) = fp2 ! i"
        using True find_None_later [OF Cons.prems(1) kept(1)] kept j keys [OF i] by (simp add: merged_def)
      ultimately show ?thesis using True j(1) by (simp add: fp2_def)
    next
      case False
      have same: "fp2 ! i = fp ! i" using False by (simp add: fp2_def)
      have x: "x \<noteq> \<lparr>origin = i, from_file = True\<rparr>" using kept(1) by auto
      show ?thesis
      proof (cases "\<lparr>origin = i, from_file = True\<rparr> \<in> set xs")
        case inxs: True
        have "K x \<noteq> peer_public_key (fp ! i)"
        proof
          assume "K x = peer_public_key (fp ! i)"
          then have "K \<lparr>origin = i, from_file = True\<rparr> = K (hd xs)" using Cons.prems(3) inxs kept(4) by auto
          moreover have "inj_on (\<lambda>x. (K x, from_file x)) (set xs)" using srt by (simp add: sorted_origins_def distinct_map)
          ultimately have "\<lparr>origin = i, from_file = True\<rparr> = hd xs"
            using inxs h(1) kept(3) by (auto dest!: inj_onD)
          then have "origin \<lparr>origin = i, from_file = True\<rparr> = ?j" by (rule arg_cong)
          then show False using False by simp
        qed
        then show ?thesis using same x by (simp add: merged_def split: option.split)
      next
        case False
        then show ?thesis using same x by (auto simp: merged_def split: option.split)
      qed
    qed
    then have eq: "map (\<lambda>i. merged K rt (x # xs) i (fp ! i)) [0..<length fp] = map (\<lambda>i. merged K rt xs i (fp2 ! i)) [0..<length fp2]"
      by (simp add: fp2_def)
    have "unmatched K (x # xs) = unmatched K xs" using unmatched_Cons [OF Cons.prems(1)] kept by simp
    moreover have "\<forall>y \<in> set xs. from_file y \<longrightarrow> origin y < length fp2 \<and> K y = peer_public_key (fp2 ! origin y)"
      using Cons.prems(3) keys by (simp add: fp2_def)
    ultimately show ?thesis
      unfolding step eq using IH [of fp2 rm] Cons.prems(2) by simp
  qed
qed

definition carry_over :: "wgpeer list \<Rightarrow> wgpeer \<Rightarrow> wgpeer" where
  "carry_over rt p = (case find (\<lambda>r. peer_public_key r = peer_public_key p) rt of None \<Rightarrow> p | Some r \<Rightarrow> merge_peer r p)"

abbreviation peer_keys_of :: "wgpeer list \<Rightarrow> key list" where
  "peer_keys_of ps \<equiv> map peer_public_key ps"

lemma peer_origins_set: "set (peer_origins fp rt) =
  (\<lambda>i. \<lparr>origin = i, from_file = True\<rparr>) ` {0..<length fp} \<union> (\<lambda>i. \<lparr>origin = i, from_file = False\<rparr>) ` {0..<length rt}"
  by (simp add: peer_origins_def)

lemma map_over_nth: "map (\<lambda>i. g (xs ! i)) [0..<length xs] = map g xs"
  by (rule nth_equalityI) simp_all

lemma distinct_tagged: "distinct (map (\<lambda>p. (f p, b)) ps) \<longleftrightarrow> distinct (map f ps)"
  by (auto simp: distinct_map inj_on_def)

lemma sync_peers_spec:
  assumes "distinct (peer_keys_of fp)" and "distinct (peer_keys_of rt)" and "\<forall>p \<in> set fp \<union> set rt. wf_key (peer_public_key p)"
  shows "\<exists>ks. sync_peers fp rt = map removed_peer ks @ map (carry_over rt) fp
    \<and> distinct ks \<and> set ks = set (peer_keys_of rt) - set (peer_keys_of fp)"
proof -
  define K where "K = (\<lambda>x. peer_public_key (origin_peer fp rt x))"
  define xs where "xs = qsort (peer_cmp K) (peer_origins fp rt)"
  have set_xs: "set xs = set (peer_origins fp rt)" by (simp add: xs_def)
  have Kf: "K \<lparr>origin = i, from_file = True\<rparr> = peer_public_key (fp ! i)" and Kr: "K \<lparr>origin = i, from_file = False\<rparr> = peer_public_key (rt ! i)" for i
    by (simp_all add: K_def origin_peer_def)
  have "distinct (map (\<lambda>x. (K x, from_file x)) (peer_origins fp rt))"
    using assms(1,2) by (auto simp: peer_origins_def Kf Kr comp_def distinct_tagged map_over_nth [of "\<lambda>p. (peer_public_key p, _)"])
  moreover have "length (K x) = WG_KEY_LEN" if "x \<in> set xs" for x
    using that assms(3) unfolding set_xs peer_origins_set by (auto simp: Kf Kr wf_key_def)
  ultimately have srt: "sorted_origins K xs"
    unfolding sorted_origins_def xs_def using origins.sorted_qsort [where key_of = K] by simp
  have r: "\<forall>x \<in> set xs. \<not> from_file x \<longrightarrow> K x = peer_public_key (rt ! origin x)"
    and f: "\<forall>x \<in> set xs. from_file x \<longrightarrow> origin x < length fp \<and> K x = peer_public_key (fp ! origin x)"
    unfolding set_xs peer_origins_set by (auto simp: Kf Kr)
  have merged: "merged K rt xs j (fp ! j) = carry_over rt (fp ! j)" if j: "j < length fp" for j
  proof (cases "find (\<lambda>r. peer_public_key r = peer_public_key (fp ! j)) rt")
    case None
    then have "find (\<lambda>x. \<not> from_file x \<and> K x = peer_public_key (fp ! j)) xs = None"
      by (auto simp: find_None_iff set_xs peer_origins_set Kf Kr)
    then show ?thesis using None by (simp add: merged_def carry_over_def)
  next
    case (Some q)
    then obtain i where i: "i < length rt" "rt ! i = q" "peer_public_key q = peer_public_key (fp ! j)"
      by (auto simp: find_Some_iff)
    have "find (\<lambda>x. \<not> from_file x \<and> K x = peer_public_key (fp ! j)) xs \<noteq> None"
      using i by (auto simp: find_None_iff set_xs peer_origins_set Kr intro!: exI [of _ "\<lparr>origin = i, from_file = False\<rparr>"])
    then obtain x where x: "find (\<lambda>x. \<not> from_file x \<and> K x = peer_public_key (fp ! j)) xs = Some x" by blast
    then have "x \<in> set xs" "\<not> from_file x" "K x = peer_public_key (fp ! j)" by (auto simp: find_Some_iff)
    then obtain i' where i': "i' < length rt" "x = \<lparr>origin = i', from_file = False\<rparr>" "peer_public_key (rt ! i') = peer_public_key (rt ! i)"
      using i by (auto simp: set_xs peer_origins_set Kf Kr)
    then have "i' = i" using nth_eq_iff_index_eq [OF assms(2), of i' i] i(1) by simp
    then have "rt ! origin x = q" using i' i(2) by simp
    moreover have "\<lparr>origin = j, from_file = True\<rparr> \<in> set xs" using j by (simp add: set_xs peer_origins_set)
    ultimately show ?thesis using x Some by (simp add: merged_def carry_over_def)
  qed
  define ks where "ks = rev (map K (unmatched K xs))"
  have fst: "fst (sync_loop rt xs fp []) = map (carry_over rt) fp" and snd: "snd (sync_loop rt xs fp []) = map removed_peer ks"
  proof -
    have "map (\<lambda>j. merged K rt xs j (fp ! j)) [0..<length fp] = map (\<lambda>j. carry_over rt (fp ! j)) [0..<length fp]"
      using merged by (intro map_cong) simp_all
    also have "\<dots> = map (carry_over rt) fp" by (rule map_over_nth)
    finally show "fst (sync_loop rt xs fp []) = map (carry_over rt) fp" using sync_loop_spec [OF srt r f, of "[]"] by simp
    show "snd (sync_loop rt xs fp []) = map removed_peer ks"
      using sync_loop_spec [OF srt r f, of "[]"] by (simp add: ks_def rev_map comp_def)
  qed
  have "sync_peers fp rt = map removed_peer ks @ map (carry_over rt) fp"
    using fst snd by (simp add: sync_peers_def K_def [symmetric] xs_def [symmetric] split_beta)
  moreover have "distinct ks"
  proof -
    have "distinct (map (\<lambda>x. (K x, from_file x)) (unmatched K xs))"
      using srt distinct_map_filter by (auto simp: unmatched_def sorted_origins_def)
    then show ?thesis by (auto simp: ks_def distinct_map inj_on_def unmatched_def)
  qed
  moreover have "set ks = set (peer_keys_of rt) - set (peer_keys_of fp)"
  proof -
    have idx: "set (peer_keys_of ps) = (\<lambda>i. peer_public_key (ps ! i)) ` {0..<length ps}" for ps
      using map_over_nth [of peer_public_key ps] by (metis atLeastLessThan_upt image_set)
    have infile: "(\<exists>y \<in> set xs. from_file y \<and> K y = k) \<longleftrightarrow> k \<in> set (peer_keys_of fp)" for k
      unfolding set_xs peer_origins_set idx bex_Un bex_simps by (auto simp: Kf)
    have "k \<in> set ks \<longleftrightarrow> k \<notin> set (peer_keys_of fp) \<and> (\<exists>y \<in> set xs. \<not> from_file y \<and> K y = k)" for k
      by (auto simp: ks_def unmatched_def infile)
    moreover have "(\<exists>y \<in> set xs. \<not> from_file y \<and> K y = k) \<longleftrightarrow> k \<in> set (peer_keys_of rt)" for k
      unfolding set_xs peer_origins_set idx bex_Un bex_simps by (auto simp: Kr)
    ultimately show ?thesis by blast
  qed
  ultimately show ?thesis by blast
qed

text \<open>
  The effect of a set request on the keys of the peers of an interface, as the kernel documents it in
  \<open>src/src/uapi/linux/linux/wireguard.h\<close>: \<open>REPLACE_PEERS\<close> removes all peers first, \<open>REMOVE_ME\<close> removes a
  peer, and any other peer exists afterwards.
\<close>

definition apply_peer :: "wgpeer \<Rightarrow> key set \<Rightarrow> key set" where
  "apply_peer p ks = (if peer_has p WGPEER_REMOVE_ME then ks - {peer_public_key p} else insert (peer_public_key p) ks)"

definition apply_request :: "wgdevice \<Rightarrow> key set \<Rightarrow> key set" where
  "apply_request d ks = fold apply_peer (peers d) (if dev_has d WGDEVICE_REPLACE_PEERS then {} else ks)"

lemma fold_apply_removed: "fold apply_peer (map removed_peer ks) S = S - set ks"
  by (induction ks arbitrary: S) (auto simp: apply_peer_def removed_peer_def)

lemma fold_apply_added:
  "\<forall>p \<in> set ps. \<not> peer_has p WGPEER_REMOVE_ME \<Longrightarrow> fold apply_peer ps S = S \<union> set (peer_keys_of ps)"
  by (induction ps arbitrary: S) (auto simp: apply_peer_def)

lemma carry_over_fields: "peer_public_key (carry_over rt p) = peer_public_key p"
  "peer_has (carry_over rt p) WGPEER_REMOVE_ME = peer_has p WGPEER_REMOVE_ME"
  by (auto simp: carry_over_def merge_peer_def clear_psk_def clear_keepalive_def peer_or_def flag_set_or split: option.split)

lemma sync_conf_request:
  assumes "ipc_get_device env (dev_name d) fs = (Inr rt, fs')" and "peers d \<noteq> []"
    and "distinct (peer_keys_of (peers d))" and "distinct (peer_keys_of (peers rt))"
    and "\<forall>p \<in> set (peers d) \<union> set (peers rt). wf_key (peer_public_key p)"
  shows "\<exists>d' ks. sync_conf env d fs = (Some d', fs') \<and> distinct ks \<and> set ks = set (peer_keys_of (peers rt)) - set (peer_keys_of (peers d))
    \<and> peers d' = map removed_peer ks @ map (carry_over (peers rt)) (peers d)
    \<and> (peers rt = [] \<or> \<not> dev_has d' WGDEVICE_REPLACE_PEERS)"
proof (cases "peers rt = []")
  case True
  have "map (carry_over []) (peers d) = peers d" by (simp add: carry_over_def map_idI)
  then show ?thesis using True assms(1,2) by (intro exI [of _ d] exI [of _ "[]"]) (simp add: sync_conf_def)
next
  case False
  obtain ks where ks: "sync_peers (peers d) (peers rt) = map removed_peer ks @ map (carry_over (peers rt)) (peers d)"
    "distinct ks" "set ks = set (peer_keys_of (peers rt)) - set (peer_keys_of (peers d))"
    using sync_peers_spec [OF assms(3,4,5)] by blast
  let ?d = "d\<lparr>dev_flags := dev_flags d AND NOT WGDEVICE_REPLACE_PEERS, peers := sync_peers (peers d) (peers rt)\<rparr>"
  have "\<not> dev_has ?d WGDEVICE_REPLACE_PEERS" by (simp add: flag_set_def and.assoc)
  then show ?thesis using False assms(1,2) ks by (intro exI [of _ ?d] exI [of _ ks]) (simp add: sync_conf_def)
qed

lemma filter_unique_key:
  "distinct (map f xs) \<Longrightarrow> x \<in> set xs \<Longrightarrow> filter (\<lambda>y. f y = f x) xs = [x]"
proof (induction xs)
  case (Cons y ys)
  show ?case
  proof (cases "x = y")
    case True
    have "f y \<notin> f ` set ys" using Cons.prems(1) by simp
    then have "filter (\<lambda>z. f z = f x) ys = []" unfolding True filter_empty_conv by (metis imageI)
    then show ?thesis using True by simp
  next
    case False
    then have "x \<in> set ys" "f y \<noteq> f x" using Cons.prems by auto
    then show ?thesis using Cons by simp
  qed
qed simp

section \<open>Properties\<close>

text \<open>
  C6: \<open>wg syncconf\<close> does what its name says. When the peers of the file and of the interface each have
  distinct keys, and no peer of the file is marked for removal, the request that \<open>sync_conf\<close> prepares
  leaves the interface with exactly the peers of the file: it names each peer that is to go once, and no
  peer of the file is dropped, reordered or marked.
\<close>

theorem sync_conf_syncs:
  assumes "ipc_get_device env (dev_name d) fs = (Inr rt, fs')" and "peers d \<noteq> []"
    and "distinct (peer_keys_of (peers d))" and "distinct (peer_keys_of (peers rt))"
    and "\<forall>p \<in> set (peers d) \<union> set (peers rt). wf_key (peer_public_key p)"
    and "\<forall>p \<in> set (peers d). \<not> peer_has p WGPEER_REMOVE_ME"
  shows "\<exists>d' ks. sync_conf env d fs = (Some d', fs') \<and> distinct ks
    \<and> peers d' = map removed_peer ks @ map (carry_over (peers rt)) (peers d)
    \<and> apply_request d' (set (peer_keys_of (peers rt))) = set (peer_keys_of (peers d))"
proof -
  obtain d' ks where r: "sync_conf env d fs = (Some d', fs')" "distinct ks"
    "set ks = set (peer_keys_of (peers rt)) - set (peer_keys_of (peers d))"
    "peers d' = map removed_peer ks @ map (carry_over (peers rt)) (peers d)" "peers rt = [] \<or> \<not> dev_has d' WGDEVICE_REPLACE_PEERS"
    using sync_conf_request [OF assms(1-5)] by blast
  have "\<forall>p \<in> set (map (carry_over (peers rt)) (peers d)). \<not> peer_has p WGPEER_REMOVE_ME"
    using assms(6) by (simp add: carry_over_fields)
  then have "apply_request d' (set (peer_keys_of (peers rt))) = set (peer_keys_of (peers d))"
    using r(3,5) by (auto simp: apply_request_def r(4) fold_apply_removed fold_apply_added carry_over_fields)
  then show ?thesis using r(1,2,4) by blast
qed

definition sync_sample :: wgdevice where
  "sync_sample = set_dev_name ''wg2'' (zero_device\<lparr>dev_flags := WGDEVICE_REPLACE_PEERS,
     peers := [zero_peer\<lparr>peer_flags := WGPEER_HAS_PUBLIC_KEY, peer_public_key := replicate 32 1\<rparr>]\<rparr>)"

lemma sync_sample_peers: "peers sync_sample = [zero_peer\<lparr>peer_flags := WGPEER_HAS_PUBLIC_KEY, peer_public_key := replicate 32 1\<rparr>]"
  "dev_name sync_sample = ''wg2''" "peer_public_key sample_upeer = zero_key" "peers sample_udevice = [sample_upeer]"
  by (simp_all add: sync_sample_def set_dev_name_def IFNAMSIZ_def sample_upeer_def sample_udevice_def zero_peer_def)

theorem sync_conf_syncs_witness:
  "\<exists>d'. fst (sync_conf sample_conf_ipc sync_sample sample_socks) = Some d' \<and> peers sample_udevice = [sample_upeer]
     \<and> apply_request d' {zero_key} = {replicate 32 1}"
  using sync_conf_syncs [of sample_conf_ipc sync_sample sample_socks sample_udevice, unfolded sync_sample_peers, OF sample_get]
  by (auto simp: wf_key_def WG_KEY_LEN_def zero_key_def sync_sample_peers)

text \<open>
  The settings of a peer after a request: what the request does not give stays as it was.
\<close>

definition effective_psk :: "wgpeer \<Rightarrow> wgpeer \<Rightarrow> key" where
  "effective_psk r p = (if peer_has p WGPEER_HAS_PRESHARED_KEY then preshared_key p else preshared_key r)"

definition effective_keepalive :: "wgpeer \<Rightarrow> wgpeer \<Rightarrow> u16" where
  "effective_keepalive r p =
     (if peer_has p WGPEER_HAS_PERSISTENT_KEEPALIVE_INTERVAL then persistent_keepalive_interval p else persistent_keepalive_interval r)"

lemma merge_peer_effective:
  assumes "peer_has r WGPEER_HAS_PRESHARED_KEY \<or> preshared_key r = zero_key"
  shows "effective_psk r (merge_peer r p) = (if peer_has p WGPEER_HAS_PRESHARED_KEY then preshared_key p else zero_key)"
    and "effective_keepalive r (merge_peer r p) =
      (if peer_has p WGPEER_HAS_PERSISTENT_KEEPALIVE_INTERVAL then persistent_keepalive_interval p else 0)"
  using assms by (auto simp: effective_psk_def effective_keepalive_def merge_peer_def clear_psk_def clear_keepalive_def peer_or_def flag_set_or)

lemma carry_over_effective:
  assumes "distinct (peer_keys_of rt)" and "r \<in> set rt" and "peer_public_key r = peer_public_key p"
    and "peer_has r WGPEER_HAS_PRESHARED_KEY \<or> preshared_key r = zero_key"
  shows "effective_psk r (carry_over rt p) = (if peer_has p WGPEER_HAS_PRESHARED_KEY then preshared_key p else zero_key)
    \<and> effective_keepalive r (carry_over rt p) =
        (if peer_has p WGPEER_HAS_PERSISTENT_KEEPALIVE_INTERVAL then persistent_keepalive_interval p else 0)"
proof -
  have "find (\<lambda>r. peer_public_key r = peer_public_key p) rt = Some r"
  proof (cases "find (\<lambda>r. peer_public_key r = peer_public_key p) rt")
    case None
    then show ?thesis using assms(2,3) by (auto simp: find_None_iff)
  next
    case (Some q)
    then have "q \<in> set rt" "peer_public_key q = peer_public_key r" using assms(3) by (auto simp: find_Some_iff)
    then have "q = r" using assms(1,2) by (auto simp: distinct_map dest: inj_onD)
    then show ?thesis using Some by simp
  qed
  then show ?thesis using merge_peer_effective [OF assms(4), of p] by (simp add: carry_over_def)
qed

text \<open>
  C9: \<open>wg syncconf\<close> also resets what the file leaves out. Let \<open>p\<close> be a peer of the file and \<open>r\<close> the peer of the
  interface with the same key. The request that \<open>sync_conf\<close> prepares names that key in exactly one peer, and after it
  the preshared key and the keepalive interval are those of the file, or none when the file gives none, although the
  request does not replace the peer.
\<close>

theorem sync_conf_resets:
  assumes "ipc_get_device env (dev_name d) fs = (Inr rt, fs')"
    and "distinct (peer_keys_of (peers d))" and "distinct (peer_keys_of (peers rt))"
    and "\<forall>p \<in> set (peers d) \<union> set (peers rt). wf_key (peer_public_key p)"
    and "p \<in> set (peers d)" and "r \<in> set (peers rt)" and "peer_public_key r = peer_public_key p"
    and "peer_has r WGPEER_HAS_PRESHARED_KEY \<or> preshared_key r = zero_key"
  shows "\<exists>d' q. sync_conf env d fs = (Some d', fs') \<and> filter (\<lambda>q. peer_public_key q = peer_public_key p) (peers d') = [q]
    \<and> effective_psk r q = (if peer_has p WGPEER_HAS_PRESHARED_KEY then preshared_key p else zero_key)
    \<and> effective_keepalive r q = (if peer_has p WGPEER_HAS_PERSISTENT_KEEPALIVE_INTERVAL then persistent_keepalive_interval p else 0)"
proof -
  let ?key = "\<lambda>q. peer_public_key q = peer_public_key p"
  have "peers d \<noteq> []" using assms(5) by auto
  then obtain d' ks where r: "sync_conf env d fs = (Some d', fs')"
    "set ks = set (peer_keys_of (peers rt)) - set (peer_keys_of (peers d))"
    "peers d' = map removed_peer ks @ map (carry_over (peers rt)) (peers d)"
    using sync_conf_request [OF assms(1) _ assms(2-4)] by blast
  have "filter ?key (map removed_peer ks) = []"
    using r(2) assms(5) by (auto simp: filter_empty_conv removed_peer_def)
  moreover have "filter ?key (peers d) = [p]" using assms(2,5) by (rule filter_unique_key)
  then have "filter ?key (map (carry_over (peers rt)) (peers d)) = [carry_over (peers rt) p]"
    by (simp add: filter_map comp_def carry_over_fields)
  ultimately have "filter ?key (peers d') = [carry_over (peers rt) p]" by (simp add: r(3))
  then show ?thesis using r(1) carry_over_effective [OF assms(3,6-8)] by blast
qed

definition reset_sample :: wgdevice where
  "reset_sample = set_dev_name ''wg2'' (zero_device\<lparr>peers := [zero_peer]\<rparr>)"

theorem sync_conf_resets_witness:
  "\<exists>d' q. fst (sync_conf sample_conf_ipc reset_sample sample_socks) = Some d'
     \<and> filter (\<lambda>q. peer_public_key q = zero_key) (peers d') = [q]
     \<and> persistent_keepalive_interval sample_upeer = 25 \<and> effective_keepalive sample_upeer q = 0"
proof -
  have d: "peers reset_sample = [zero_peer]" "dev_name reset_sample = ''wg2''"
    by (simp_all add: reset_sample_def set_dev_name_def IFNAMSIZ_def)
  show ?thesis
    using sync_conf_resets [of sample_conf_ipc reset_sample sample_socks sample_udevice _ zero_peer sample_upeer, unfolded d sync_sample_peers, OF sample_get]
    by (auto simp: sample_upeer_def zero_peer_def wf_key_def WG_KEY_LEN_def zero_key_def)
qed

end
