(* ===== verification/Terminal.thy ===== *)
theory Terminal
  imports ConfigValues
begin

text \<open>
  Coloured output (\<open>src/src/terminal.c\<close>, \<open>src/src/terminal.h\<close>). \<open>filter_ansi\<close> removes the control
  sequences when the output is not a terminal: it overwrites them with NUL in the formatted string and
  then prints what lies between the NULs. The string is a list of its bytes with the terminator, the
  loops are recursions on their index.
\<close>

section \<open>Control sequences\<close>

definition ESC :: char where "ESC = CHR 0x1B"

definition csi :: "string \<Rightarrow> string" where
  "csi code = ESC # CHR ''['' # code"

definition TERMINAL_FG_RED :: string where "TERMINAL_FG_RED = csi ''31m''"
definition TERMINAL_FG_GREEN :: string where "TERMINAL_FG_GREEN = csi ''32m''"
definition TERMINAL_FG_YELLOW :: string where "TERMINAL_FG_YELLOW = csi ''33m''"
definition TERMINAL_FG_CYAN :: string where "TERMINAL_FG_CYAN = csi ''36m''"
definition TERMINAL_BOLD :: string where "TERMINAL_BOLD = csi ''1m''"
definition TERMINAL_RESET :: string where "TERMINAL_RESET = csi ''0m''"

section \<open>Filtering\<close>

definition color_mode :: "sysenv \<Rightarrow> bool \<Rightarrow> bool" where
  "color_mode env isatty =
     (case getenv env ''WG_COLOR_MODE'' of
        None \<Rightarrow> isatty
      | Some var \<Rightarrow> if var = ''always'' then True else if var = ''never'' then False else isatty)"

text \<open>The inner loop: from \<open>j\<close> up to the first letter, or the end.\<close>

function blank_params :: "string \<Rightarrow> nat \<Rightarrow> nat \<Rightarrow> string \<times> nat" where
  "blank_params str len j =
     (if \<not> j < len then (str, j)
      else if char_is_alpha (c_int (char_at str j)) then (str, j)
      else blank_params (str[j := NUL]) len (j + 1))"
  by pat_completeness auto
termination
  by (relation "measure (\<lambda>(_, len, j). len - j)") auto

function blank_codes :: "string \<Rightarrow> nat \<Rightarrow> nat \<Rightarrow> string" where
  "blank_codes str len i =
     (if \<not> i < len - 2 then str
      else if char_at str i = ESC \<and> char_at str (i + 1) = CHR ''['' then
        let (str1, j) = blank_params (str[i := NUL, i + 1 := NUL]) len (i + 2)
        in blank_codes (str1[j := NUL]) len (i + 1)
      else blank_codes str len (i + 1))"
  by pat_completeness auto
termination
  by (relation "measure (\<lambda>(_, len, i). len - i)") auto

text \<open>The index of the next byte that is not NUL, or \<open>len\<close>.\<close>

function skip_nuls :: "string \<Rightarrow> nat \<Rightarrow> nat \<Rightarrow> nat" where
  "skip_nuls str len j = (if \<not> j < len \<or> char_at str j \<noteq> NUL then j else skip_nuls str len (j + 1))"
  by pat_completeness auto
termination
  by (relation "measure (\<lambda>(_, len, j). len - j)") auto

declare blank_params.simps [simp del] blank_codes.simps [simp del] skip_nuls.simps [simp del]

lemma skip_nuls_ge: "j \<le> skip_nuls str len j"
  by (induction str len j rule: skip_nuls.induct) (subst skip_nuls.simps, auto)

lemma skip_nuls_gt: "j < len \<Longrightarrow> char_at str j = NUL \<Longrightarrow> j < skip_nuls str len j"
  using skip_nuls_ge [of "j + 1" str len] by (subst skip_nuls.simps) simp

function print_pieces :: "string \<Rightarrow> nat \<Rightarrow> nat \<Rightarrow> string" where
  "print_pieces str len i =
     (if \<not> i < len then []
      else
        let piece = c_str (drop i str)
        in piece @ print_pieces str len (skip_nuls str len (i + length piece)))"
  by pat_completeness auto
termination
proof (relation "measure (\<lambda>(_, len, i). len - i)", goal_cases)
  case (2 str len i piece)
  have "i < skip_nuls str len (i + length piece)"
  proof (cases "piece = []")
    case True
    then have "char_at str i = NUL"
      using 2 by (cases "drop i str") (auto simp: c_str_def char_at_def nth_via_drop split: if_splits)
    then show ?thesis using True 2 skip_nuls_gt [of i len str] by simp
  next
    case False
    then show ?thesis using skip_nuls_ge [of "i + length piece" str len] by (cases piece) auto
  qed
  then show ?case using 2 by auto
qed simp

declare print_pieces.simps [simp del]

definition filter_ansi :: "bool \<Rightarrow> string \<Rightarrow> string" where
  "filter_ansi color text =
     (if color then text
      else
        let len = length text; str = text @ [NUL];
            str1 = (if len \<ge> 2 then blank_codes str len 0 else str)
        in print_pieces str1 len 0)"

section \<open>The reference: removing control sequences\<close>

definition alpha :: "char \<Rightarrow> bool" where
  "alpha c \<longleftrightarrow> char_is_alpha (c_int c)"

text \<open>A sequence starts with ESC and a bracket, followed by at least one character, and ends after the first letter.\<close>

definition code_start :: "string \<Rightarrow> bool" where
  "code_start s \<longleftrightarrow> (case s of c # d # e # _ \<Rightarrow> c = ESC \<and> d = CHR ''['' | _ \<Rightarrow> False)"

definition code_rest :: "string \<Rightarrow> string" where
  "code_rest s = tl (dropWhile (\<lambda>c. \<not> alpha c) (drop 2 s))"

lemma code_rest_shorter: "code_start s \<Longrightarrow> length (code_rest s) < length s"
proof -
  assume "code_start s"
  then obtain c d e r where "s = c # d # e # r" by (auto simp: code_start_def split: list.splits)
  then show ?thesis
    using length_dropWhile_le [of "\<lambda>c. \<not> alpha c" "e # r"] by (simp add: code_rest_def)
qed

function strip_codes :: "string \<Rightarrow> string" where
  "strip_codes s =
     (if s = [] then [] else if code_start s then strip_codes (code_rest s) else hd s # strip_codes (tl s))"
  by pat_completeness auto
termination
  by (relation "measure length") (auto simp: code_rest_shorter)

text \<open>The same with NUL in the place of what is removed.\<close>

function blanked :: "string \<Rightarrow> string" where
  "blanked s =
     (if s = [] then []
      else if code_start s then replicate (length s - length (code_rest s)) NUL @ blanked (code_rest s)
      else hd s # blanked (tl s))"
  by pat_completeness auto
termination
  by (relation "measure length") (auto simp: code_rest_shorter)

declare strip_codes.simps [simp del] blanked.simps [simp del]

lemma code_simps [simp]:
  "blanked [] = []" "strip_codes [] = []"
  "code_start s \<Longrightarrow> blanked s = replicate (length s - length (code_rest s)) NUL @ blanked (code_rest s)"
  "code_start s \<Longrightarrow> strip_codes s = strip_codes (code_rest s)"
  "\<not> code_start (c # s) \<Longrightarrow> blanked (c # s) = c # blanked s"
  "\<not> code_start (c # s) \<Longrightarrow> strip_codes (c # s) = c # strip_codes s"
  by (subst blanked.simps strip_codes.simps, auto simp: code_start_def)+

lemma code_rest_le: "length (code_rest s) \<le> length s"
  unfolding code_rest_def using length_dropWhile_le [of "\<lambda>c. \<not> alpha c" "drop 2 s"] by (simp add: le_diff_conv)

lemma length_blanked: "length (blanked s) = length s"
  using code_rest_le by (induction s rule: blanked.induct) (subst blanked.simps, auto)

lemma filter_blanked: "NUL \<notin> set s \<Longrightarrow> filter (\<lambda>c. c \<noteq> NUL) (blanked s) = strip_codes s"
proof (induction s rule: blanked.induct)
  case (1 s)
  have "set (code_rest s) \<subseteq> set s"
    unfolding code_rest_def using set_dropWhileD in_set_dropD by (metis list.set_sel(2) subsetI tl_Nil)
  then have "NUL \<notin> set (code_rest s)" using 1(3) by blast
  then show ?case
    using 1 by (cases s; cases "code_start s") auto
qed

section \<open>Blanking\<close>

lemma char_at_append [simp]: "char_at (pre @ c # s) (length pre) = c"
  by (simp add: char_at_def)

lemma blank_params_spec:
  "blank_params (pre @ s @ [NUL]) (length pre + length s) (length pre) =
     (pre @ replicate (length (takeWhile (\<lambda>c. \<not> alpha c) s)) NUL @ dropWhile (\<lambda>c. \<not> alpha c) s @ [NUL],
      length pre + length (takeWhile (\<lambda>c. \<not> alpha c) s))"
proof (induction s arbitrary: pre)
  case Nil
  then show ?case by (subst blank_params.simps) simp
next
  case (Cons c s)
  show ?case
  proof (cases "alpha c")
    case True
    then show ?thesis by (subst blank_params.simps) (simp add: alpha_def)
  next
    case False
    have "blank_params (pre @ (c # s) @ [NUL]) (length pre + length (c # s)) (length pre)
        = blank_params ((pre @ [NUL]) @ s @ [NUL]) (length (pre @ [NUL]) + length s) (length (pre @ [NUL]))"
      using False by (subst blank_params.simps) (simp add: alpha_def)
    also have "\<dots> = ((pre @ [NUL]) @ replicate (length (takeWhile (\<lambda>c. \<not> alpha c) s)) NUL @ dropWhile (\<lambda>c. \<not> alpha c) s @ [NUL],
        length (pre @ [NUL]) + length (takeWhile (\<lambda>c. \<not> alpha c) s))"
      by (rule Cons.IH)
    finally show ?thesis using False by simp
  qed
qed

lemma ESC_not_NUL [simp]: "NUL \<noteq> ESC" "ESC \<noteq> NUL"
  by (simp_all add: ESC_def NUL_def)

lemma blank_codes_nuls:
  "blank_codes (pre @ replicate n NUL @ s @ [NUL]) (length pre + n + length s) (length pre)
   = blank_codes ((pre @ replicate n NUL) @ s @ [NUL]) (length (pre @ replicate n NUL) + length s) (length (pre @ replicate n NUL))"
proof (induction n arbitrary: pre)
  case (Suc n)
  have "blank_codes (pre @ replicate (Suc n) NUL @ s @ [NUL]) (length pre + Suc n + length s) (length pre)
      = blank_codes ((pre @ [NUL]) @ replicate n NUL @ s @ [NUL]) (length (pre @ [NUL]) + n + length s) (length (pre @ [NUL]))"
  proof (cases "length pre < length pre + Suc n + length s - 2")
    case True
    then show ?thesis by (subst blank_codes.simps) simp
  next
    case False
    then show ?thesis by (subst (1 2) blank_codes.simps) simp
  qed
  also have "\<dots> = blank_codes (((pre @ [NUL]) @ replicate n NUL) @ s @ [NUL]) (length ((pre @ [NUL]) @ replicate n NUL) + length s)
      (length ((pre @ [NUL]) @ replicate n NUL))"
    by (rule Suc.IH)
  finally show ?case by simp
qed simp

lemma blank_codes_spec:
  "blank_codes (pre @ s @ [NUL]) (length pre + length s) (length pre) = pre @ blanked s @ [NUL]"
proof (induction s arbitrary: pre rule: blanked.induct)
  case (1 s)
  consider (nil) "s = []" | (code) "code_start s" | (plain) "s \<noteq> []" "\<not> code_start s" by blast
  then show ?case
  proof cases
    case nil
    have "\<not> length pre < length pre - 2" by arith
    with nil show ?thesis by (subst blank_codes.simps) simp
  next
    case code
    then obtain t where s: "s = ESC # CHR ''['' # t" "t \<noteq> []" by (auto simp: code_start_def split: list.splits)
    let ?t = t and ?pre = "pre @ [NUL, NUL]"
    define ps where "ps = takeWhile (\<lambda>c. \<not> alpha c) ?t"
    define rest where "rest = dropWhile (\<lambda>c. \<not> alpha c) ?t"
    have t: "?t = ps @ rest" by (simp add: ps_def rest_def)
    have cr: "code_rest s = tl rest" by (simp add: s code_rest_def rest_def)
    have bp: "blank_params ((pre @ s @ [NUL])[length pre := NUL, length pre + 1 := NUL]) (length pre + length s) (length pre + 2)
        = (?pre @ replicate (length ps) NUL @ rest @ [NUL], length pre + 2 + length ps)"
      using blank_params_spec [of ?pre ?t] s by (simp add: ps_def [symmetric] rest_def [symmetric] list_update_append)
    have n: "length s - length (tl rest) = 2 + length ps + (if rest = [] then 0 else 1)"
      using s arg_cong [OF t, of length] by (cases rest) simp_all
    have upd: "(?pre @ replicate (length ps) NUL @ rest @ [NUL])[length pre + 2 + length ps := NUL]
        = pre @ replicate (length s - length (tl rest)) NUL @ tl rest @ [NUL]"
      unfolding n by (cases rest) (simp_all add: list_update_append replicate_append_same [symmetric] replicate_add)
    have "length pre < length pre + length s - 2" using s by simp
    then have "blank_codes (pre @ s @ [NUL]) (length pre + length s) (length pre)
        = blank_codes (pre @ replicate (length s - length (tl rest)) NUL @ tl rest @ [NUL]) (length pre + length s) (length pre + 1)"
      using bp upd s by (subst blank_codes.simps) (simp add: char_at_def nth_append)
    also have "\<dots> = blank_codes ((pre @ [NUL]) @ replicate (length s - length (tl rest) - 1) NUL @ tl rest @ [NUL])
        (length (pre @ [NUL]) + (length s - length (tl rest) - 1) + length (tl rest)) (length (pre @ [NUL]))"
    proof -
      obtain k where k: "length s - length (tl rest) = Suc k" using n by simp
      then have "length s = Suc k + length (tl rest)" by simp
      with k show ?thesis by (simp add: add.assoc)
    qed
    also have "\<dots> = blank_codes ((pre @ replicate (length s - length (tl rest)) NUL) @ tl rest @ [NUL])
        (length (pre @ replicate (length s - length (tl rest)) NUL) + length (tl rest)) (length (pre @ replicate (length s - length (tl rest)) NUL))"
    proof -
      have "(pre @ [NUL]) @ replicate (length s - length (tl rest) - 1) NUL = pre @ replicate (length s - length (tl rest)) NUL"
        using n by simp
      then show ?thesis by (subst blank_codes_nuls) (simp only:)
    qed
    also have "\<dots> = pre @ blanked s @ [NUL]"
      using 1(1) [OF _ code, of "pre @ replicate (length s - length (tl rest)) NUL"] s code cr by simp
    finally show ?thesis .
  next
    case plain
    obtain c t where s: "s = c # t" using plain by (cases s) auto
    show ?thesis
    proof (cases "length s \<le> 2")
      case True
      have "blanked s = s" using True s plain by (cases t; cases "tl t") (auto simp: code_start_def)
      moreover have "\<not> length pre < length pre + length s - 2" using True by arith
      ultimately show ?thesis by (subst blank_codes.simps) simp
    next
      case False
      then obtain d e r where t: "t = d # e # r" using s by (cases t; cases "tl t") auto
      then have "\<not> (c = ESC \<and> d = CHR ''['')" using plain s by (auto simp: code_start_def)
      then have "blank_codes (pre @ s @ [NUL]) (length pre + length s) (length pre)
          = blank_codes ((pre @ [c]) @ t @ [NUL]) (length (pre @ [c]) + length t) (length (pre @ [c]))"
        using s t by (subst blank_codes.simps) (auto simp: char_at_def nth_append)
      also have "\<dots> = (pre @ [c]) @ blanked t @ [NUL]"
        using 1(2) [OF plain, of "pre @ [c]"] s by simp
      finally show ?thesis using plain s by simp
    qed
  qed
qed

section \<open>Printing\<close>

lemma skip_nuls_spec:
  assumes "j \<le> length s"
  shows "skip_nuls (s @ [NUL]) (length s) j \<le> length s
    \<and> filter (\<lambda>c. c \<noteq> NUL) (drop (skip_nuls (s @ [NUL]) (length s) j) s) = filter (\<lambda>c. c \<noteq> NUL) (drop j s)"
  using assms
proof (induction "s @ [NUL]" "length s" j rule: skip_nuls.induct)
  case (1 j)
  show ?case
  proof (cases "j < length s \<and> s ! j = NUL")
    case True
    then have "char_at (s @ [NUL]) j = NUL" by (simp add: char_at_def nth_append)
    moreover have "filter (\<lambda>c. c \<noteq> NUL) (drop j s) = filter (\<lambda>c. c \<noteq> NUL) (drop (j + 1) s)"
      using True by (simp add: Cons_nth_drop_Suc [symmetric])
    ultimately show ?thesis using 1 True by (subst (1 2) skip_nuls.simps) simp
  next
    case False
    then have "\<not> j < length s \<or> char_at (s @ [NUL]) j \<noteq> NUL" by (auto simp: char_at_def nth_append)
    then have "skip_nuls (s @ [NUL]) (length s) j = j" by (subst skip_nuls.simps) simp
    then show ?thesis using 1(2) by simp
  qed
qed

lemma print_pieces_spec:
  assumes "i \<le> length s"
  shows "print_pieces (s @ [NUL]) (length s) i = filter (\<lambda>c. c \<noteq> NUL) (drop i s)"
  using assms
proof (induction "s @ [NUL]" "length s" i rule: print_pieces.induct)
  case (1 i)
  show ?case
  proof (cases "i < length s")
    case False
    then show ?thesis using 1(2) by (subst print_pieces.simps) simp
  next
    case True
    define piece where "piece = c_str (drop i (s @ [NUL]))"
    have p: "piece = takeWhile (\<lambda>c. c \<noteq> NUL) (drop i s)"
      using True by (simp add: piece_def c_str_def takeWhile_tail)
    then have len: "i + length piece \<le> length s"
      using True length_takeWhile_le [of "\<lambda>c. c \<noteq> NUL" "drop i s"] by simp
    have "drop i s = piece @ drop (i + length piece) s"
      using p by (metis append.assoc append_eq_conv_conj drop_drop takeWhile_dropWhile_id add.commute)
    then have "filter (\<lambda>c. c \<noteq> NUL) (drop i s) = piece @ filter (\<lambda>c. c \<noteq> NUL) (drop (i + length piece) s)"
      using p by (metis filter_append filter_True set_takeWhileD)
    moreover have "print_pieces (s @ [NUL]) (length s) i
        = piece @ print_pieces (s @ [NUL]) (length s) (skip_nuls (s @ [NUL]) (length s) (i + length piece))"
      using True by (subst print_pieces.simps) (simp add: piece_def Let_def)
    ultimately show ?thesis
      using 1(1) [OF _ piece_def] True skip_nuls_spec [OF len] by simp
  qed
qed

lemma filter_ansi_strip: "no_nul s \<Longrightarrow> filter_ansi False s = strip_codes s"
proof -
  assume n: "no_nul s"
  have "(if length s \<ge> 2 then blank_codes (s @ [NUL]) (length s) 0 else s @ [NUL]) = blanked s @ [NUL]"
  proof (cases "length s \<ge> 2")
    case True
    then show ?thesis using blank_codes_spec [of "[]" s] by simp
  next
    case False
    have "blanked s = s" using False by (cases s; cases "tl s") (auto simp: code_start_def)
    then show ?thesis using False by simp
  qed
  then show ?thesis
    using print_pieces_spec [of 0 "blanked s"] filter_blanked [of s] n
    by (simp add: filter_ansi_def Let_def length_blanked no_nul_def)
qed

section \<open>Properties\<close>

text \<open>
  C13: without colours, \<open>filter_ansi\<close> prints exactly what is left of the formatted string when its control
  sequences are removed: the passes over the bytes, in place and with their several indices, agree with
  the recursive definition of removing them, and stay within the string.
\<close>

theorem filter_ansi_equiv:
  assumes "no_nul s"
  shows "filter_ansi False s = strip_codes s"
  using assms by (rule filter_ansi_strip)

theorem filter_ansi_equiv_witness: "filter_ansi False (TERMINAL_BOLD @ ''peer'' @ TERMINAL_RESET @ '': '') = ''peer: ''"
proof -
  have "strip_codes (TERMINAL_BOLD @ ''peer'' @ TERMINAL_RESET @ '': '') = ''peer: ''"
    by code_simp
  moreover have "no_nul (TERMINAL_BOLD @ ''peer'' @ TERMINAL_RESET @ '': '')"
    by (simp add: no_nul_def TERMINAL_BOLD_def TERMINAL_RESET_def csi_def NUL_def ESC_def)
  ultimately show ?thesis using filter_ansi_equiv by simp
qed

end
