(* ===== verification/Show.thy ===== *)
theory Show
  imports Ipc Qsort Terminal
begin

text \<open>
  The command \<open>wg show\<close> (\<open>src/src/show.c\<close>). What is printed is a string; \<open>stdout\<close> of a run is the
  concatenation. The clock and the text of resolver errors are arguments. A run that follows a NULL
  pointer to a device is the outcome \<open>Null_device\<close>.
\<close>

record show_env =
  ipc :: ipc_env
  isatty :: bool
  now :: int
  gai_strerror :: "sockaddr \<Rightarrow> string"

abbreviation senv :: "show_env \<Rightarrow> sysenv" where
  "senv env \<equiv> sys (uapi (ipc env))"

section \<open>Sorting the peers\<close>

definition never :: "wgpeer \<Rightarrow> bool" where
  "never p \<longleftrightarrow> last_handshake_sec p = 0 \<and> last_handshake_nsec p = 0"

text \<open>
  A difference of time stamps has the type \<open>time_t\<close>: 64 bits in two's complement, and the difference of
  two stamps of opposite sign may wrap around.
\<close>

definition time_diff :: "int \<Rightarrow> int \<Rightarrow> int" where
  "time_diff a b = sint (word_of_int (a - b) :: u64)"

definition handshake_cmp :: "wgpeer \<Rightarrow> wgpeer \<Rightarrow> int" where
  "handshake_cmp a b =
     (if never a \<and> \<not> never b then 1
      else if never b \<and> \<not> never a then - 1
      else
        let diff = time_diff (last_handshake_sec a) (last_handshake_sec b);
            diff = (if diff = 0 then time_diff (last_handshake_nsec a) (last_handshake_nsec b) else diff)
        in if diff < 0 then 1 else if diff > 0 then - 1 else 0)"

definition sort_peers :: "wgdevice \<Rightarrow> wgdevice" where
  "sort_peers d = d\<lparr>peers := qsort handshake_cmp (peers d)\<rparr>"

section \<open>Formatting\<close>

definition maybe_key :: "key \<Rightarrow> bool \<Rightarrow> string" where
  "maybe_key k have_it = (if \<not> have_it then ''(none)'' else key_to_base64 k)"

definition masked_key :: "show_env \<Rightarrow> key \<Rightarrow> string" where
  "masked_key env k = (if getenv (senv env) ''WG_HIDE_KEYS'' = Some ''never'' then key_to_base64 k else ''(hidden)'')"

definition show_ip :: "show_env \<Rightarrow> wgallowedip \<Rightarrow> string" where
  "show_ip env a =
     (case (if family a = AF_INET then inet_ntop4 (uapi (ipc env)) (ip4 a)
            else if family a = AF_INET6 then inet_ntop6 (uapi (ipc env)) (ip_words a) else None) of
        None \<Rightarrow> [] | Some s \<Rightarrow> s)"

text \<open>The buffer has room for both parts, the brackets and the colon.\<close>

definition show_endpoint :: "show_env \<Rightarrow> sockaddr \<Rightarrow> string" where
  "show_endpoint env a =
     (case getnameinfo (uapi (ipc env)) a of
        None \<Rightarrow> take (4097 + 513 + 3) (gai_strerror env a)
      | Some (host, service) \<Rightarrow>
          if sa_family a = AF_INET6 \<and> strchr host CHR '':'' \<noteq> None
          then ''['' @ host @ '']:'' @ service else host @ '':'' @ service)"

text \<open>One \<open>snprintf\<close> of \<open>pretty_time\<close>: the buffer up to its offset, and the offset.\<close>

definition time_part :: "nat \<Rightarrow> string \<Rightarrow> nat \<Rightarrow> string \<times> nat \<Rightarrow> string \<times> nat" where
  "time_part len unit n st =
     (let (buf, offset) = st
      in if n = 0 then st
         else
           let s = (if offset \<noteq> 0 then '', '' else []) @ print_u n @ '' '' @ TERMINAL_FG_CYAN @ unit
                   @ (if n = 1 then [] else ''s'') @ TERMINAL_RESET
           in (take offset buf @ take (len - offset - 1) s, offset + length s))"

definition time_units :: "nat \<Rightarrow> (string \<times> nat) list" where
  "time_units left =
     (let years = left div 31536000; left = left mod 31536000;
          days = left div 86400; left = left mod 86400;
          hours = left div 3600; left = left mod 3600
      in [(''year'', years), (''day'', days), (''hour'', hours), (''minute'', left div 60), (''second'', left mod 60)])"

definition pretty_time :: "nat \<Rightarrow> nat \<Rightarrow> string \<times> nat" where
  "pretty_time len left = fold (\<lambda>(unit, n). time_part len unit n) (time_units left) ([], 0)"

definition ago :: "show_env \<Rightarrow> int \<Rightarrow> string" where
  "ago env t =
     (if now env = t then ''Now''
      else if now env < t
      then ''('' @ TERMINAL_FG_RED @ ''System clock wound backward; connection problems may ensue.'' @ TERMINAL_RESET @ '')''
      else
        let (buf, offset) = pretty_time 1024 (nat (now env - t))
        in take offset buf @ take (1024 - offset - 1) '' ago'')"

definition every :: "u16 \<Rightarrow> string" where
  "every seconds = ''every '' @ fst (pretty_time (1024 - 6 - 1) (unat seconds))"

text \<open>
  \<open>%.2f\<close> of the quotient of a 64-bit integer and a power of two: the integer is rounded to a double
  (53 bits, ties to even), the division is exact, and the printed hundredths are rounded, ties to even.
\<close>

definition round_half_even :: "nat \<Rightarrow> nat \<Rightarrow> nat" where
  "round_half_even n d =
     (let q = n div d; r = n mod d in if 2 * r > d \<or> 2 * r = d \<and> odd q then q + 1 else q)"

fun bit_length :: "nat \<Rightarrow> nat" where
  "bit_length n = (if n = 0 then 0 else Suc (bit_length (n div 2)))"

declare bit_length.simps [simp del]

definition to_double :: "nat \<Rightarrow> nat" where
  "to_double n = (let s = bit_length n - 53 in round_half_even n (2 ^ s) * 2 ^ s)"

definition two_digits :: "nat \<Rightarrow> string" where
  "two_digits n = [digit_char (n div 10), digit_char (n mod 10)]"

definition hundredths :: "nat \<Rightarrow> nat \<Rightarrow> nat" where
  "hundredths b d = round_half_even (100 * to_double b) d"

definition print_f2 :: "nat \<Rightarrow> nat \<Rightarrow> string" where
  "print_f2 b d = (let h = hundredths b d in print_u (h div 100) @ ''.'' @ two_digits (h mod 100))"

definition show_bytes :: "u64 \<Rightarrow> string" where
  "show_bytes w =
     (let b = unat w; unit = (\<lambda>u. '' '' @ TERMINAL_FG_CYAN @ u @ TERMINAL_RESET)
      in if b < 1024 then print_u b @ unit ''B''
         else if b < 1024 * 1024 then print_f2 b 1024 @ unit ''KiB''
         else if b < 1024 * 1024 * 1024 then print_f2 b (1024 * 1024) @ unit ''MiB''
         else if b < 1024 * 1024 * 1024 * 1024 then print_f2 b (1024 * 1024 * 1024) @ unit ''GiB''
         else print_f2 b (1024 * 1024 * 1024 * 1024) @ unit ''TiB'')"

section \<open>The human-readable form\<close>

text \<open>What one call of \<open>terminal_printf\<close> prints.\<close>

definition terminal_printf :: "show_env \<Rightarrow> string \<Rightarrow> string" where
  "terminal_printf env s = filter_ansi (color_mode (senv env) (isatty env)) s"

definition label :: "string \<Rightarrow> string \<Rightarrow> string" where
  "label name value = ''  '' @ TERMINAL_BOLD @ name @ TERMINAL_RESET @ '': '' @ value @ [newline]"

definition print_if :: "show_env \<Rightarrow> bool \<Rightarrow> string \<Rightarrow> string" where
  "print_if env c s = (if c then terminal_printf env s else [])"

fun pretty_allowedips :: "show_env \<Rightarrow> wgallowedip list \<Rightarrow> string" where
  "pretty_allowedips env [] = []"
| "pretty_allowedips env (a # as) =
     terminal_printf env (show_ip env a @ TERMINAL_FG_CYAN @ ''/'' @ TERMINAL_RESET @ print_u (unat (cidr a))
       @ (if as \<noteq> [] then '', '' else [newline]))
     @ pretty_allowedips env as"

definition pretty_peer :: "show_env \<Rightarrow> wgpeer \<Rightarrow> bool \<Rightarrow> string" where
  "pretty_peer env p has_next =
     terminal_printf env (TERMINAL_FG_YELLOW @ TERMINAL_BOLD @ ''peer'' @ TERMINAL_RESET @ '': '' @ TERMINAL_FG_YELLOW
       @ key_to_base64 (peer_public_key p) @ TERMINAL_RESET @ [newline])
     @ print_if env (peer_has p WGPEER_HAS_PRESHARED_KEY) (label ''preshared key'' (masked_key env (preshared_key p)))
     @ print_if env (has_endpoint (endpoint p)) (label ''endpoint'' (show_endpoint env (endpoint p)))
     @ print_if env (transport p \<noteq> WGPEER_TRANSPORT_UDP)
         (label ''transport'' (if transport p = WGPEER_TRANSPORT_WSTUNNEL then ''wstunnel'' else ''websocket''))
     @ print_if env (ws_url p \<noteq> None) (label ''ws url'' (str_or_empty (ws_url p)))
     @ terminal_printf env (''  '' @ TERMINAL_BOLD @ ''allowed ips'' @ TERMINAL_RESET @ '': '')
     @ (if allowedips p \<noteq> [] then pretty_allowedips env (allowedips p) else terminal_printf env (''(none)'' @ [newline]))
     @ print_if env (last_handshake_sec p \<noteq> 0) (label ''latest handshake'' (ago env (last_handshake_sec p)))
     @ (if rx_bytes p \<noteq> 0 \<or> tx_bytes p \<noteq> 0 then
          terminal_printf env (''  '' @ TERMINAL_BOLD @ ''transfer'' @ TERMINAL_RESET @ '': '')
          @ terminal_printf env (show_bytes (rx_bytes p) @ '' received, '')
          @ terminal_printf env (show_bytes (tx_bytes p) @ '' sent'' @ [newline])
        else [])
     @ print_if env (persistent_keepalive_interval p \<noteq> 0) (label ''persistent keepalive'' (every (persistent_keepalive_interval p)))
     @ print_if env has_next [newline]"

fun pretty_peers :: "show_env \<Rightarrow> wgpeer list \<Rightarrow> string" where
  "pretty_peers env [] = []"
| "pretty_peers env (p # ps) = pretty_peer env p (ps \<noteq> []) @ pretty_peers env ps"

definition pretty_print :: "show_env \<Rightarrow> wgdevice \<Rightarrow> string" where
  "pretty_print env d =
     terminal_printf env TERMINAL_RESET
     @ terminal_printf env (TERMINAL_FG_GREEN @ TERMINAL_BOLD @ ''interface'' @ TERMINAL_RESET @ '': '' @ TERMINAL_FG_GREEN
         @ dev_name d @ TERMINAL_RESET @ [newline])
     @ print_if env (dev_has d WGDEVICE_HAS_PUBLIC_KEY) (label ''public key'' (key_to_base64 (dev_public_key d)))
     @ print_if env (dev_has d WGDEVICE_HAS_PRIVATE_KEY) (label ''private key'' (masked_key env (private_key d)))
     @ print_if env (listen_port d \<noteq> 0) (label ''listening port'' (print_u (unat (listen_port d))))
     @ print_if env (fwmark d \<noteq> 0) (label ''fwmark'' (''0x'' @ print_x (unat (fwmark d))))
     @ print_if env (peers d \<noteq> []) [newline]
     @ pretty_peers env (peers (sort_peers d))"

section \<open>The forms for scripts\<close>

definition tab :: char where "tab = CHR 0x09"

definition name_column :: "wgdevice \<Rightarrow> bool \<Rightarrow> string" where
  "name_column d with_interface = (if with_interface then dev_name d @ [tab] else [])"

definition show_mark :: "u32 \<Rightarrow> string" where
  "show_mark m = (if m \<noteq> 0 then ''0x'' @ print_x (unat m) else ''off'')"

definition show_keepalive :: "u16 \<Rightarrow> string" where
  "show_keepalive n = (if n \<noteq> 0 then print_u (unat n) else ''off'')"

definition endpoint_or_none :: "show_env \<Rightarrow> sockaddr \<Rightarrow> string" where
  "endpoint_or_none env a = (if has_endpoint a then show_endpoint env a else ''(none)'')"

text \<open>The allowed IPs with a separator between them and one after the last.\<close>

fun ip_column :: "show_env \<Rightarrow> char \<Rightarrow> char \<Rightarrow> wgallowedip list \<Rightarrow> string" where
  "ip_column env sep end [] = ''(none)'' @ [end]"
| "ip_column env sep end [a] = show_ip env a @ ''/'' @ print_u (unat (cidr a)) @ [end]"
| "ip_column env sep end (a # b # as) = show_ip env a @ ''/'' @ print_u (unat (cidr a)) @ [sep] @ ip_column env sep end (b # as)"

text \<open>\<open>(unsigned long long)\<close> of a 64-bit time.\<close>

definition show_time :: "int \<Rightarrow> string" where
  "show_time t = print_u (nat (t mod 2 ^ 64))"

definition dump_print :: "show_env \<Rightarrow> wgdevice \<Rightarrow> bool \<Rightarrow> string" where
  "dump_print env d with_interface =
     name_column d with_interface
     @ maybe_key (private_key d) (dev_has d WGDEVICE_HAS_PRIVATE_KEY) @ [tab]
     @ maybe_key (dev_public_key d) (dev_has d WGDEVICE_HAS_PUBLIC_KEY) @ [tab]
     @ print_u (unat (listen_port d)) @ [tab]
     @ show_mark (fwmark d) @ [newline]
     @ concat (map (\<lambda>p.
         name_column d with_interface
         @ key_to_base64 (peer_public_key p) @ [tab]
         @ maybe_key (preshared_key p) (peer_has p WGPEER_HAS_PRESHARED_KEY) @ [tab]
         @ endpoint_or_none env (endpoint p) @ [tab]
         @ ip_column env CHR '','' tab (allowedips p)
         @ show_time (last_handshake_sec p) @ [tab]
         @ print_u (unat (rx_bytes p)) @ [tab] @ print_u (unat (tx_bytes p)) @ [tab]
         @ show_keepalive (persistent_keepalive_interval p) @ [newline]) (peers d))"

definition per_peer :: "wgdevice \<Rightarrow> bool \<Rightarrow> (wgpeer \<Rightarrow> string) \<Rightarrow> string" where
  "per_peer d with_interface f = concat (map (\<lambda>p. name_column d with_interface @ key_to_base64 (peer_public_key p) @ f p) (peers d))"

text \<open>\<open>None\<close> is an invalid parameter.\<close>

definition ugly_print :: "show_env \<Rightarrow> wgdevice \<Rightarrow> string \<Rightarrow> bool \<Rightarrow> string option" where
  "ugly_print env d param w =
     (if param = ''public-key'' then
        Some (name_column d w @ maybe_key (dev_public_key d) (dev_has d WGDEVICE_HAS_PUBLIC_KEY) @ [newline])
      else if param = ''private-key'' then
        Some (name_column d w @ maybe_key (private_key d) (dev_has d WGDEVICE_HAS_PRIVATE_KEY) @ [newline])
      else if param = ''listen-port'' then Some (name_column d w @ print_u (unat (listen_port d)) @ [newline])
      else if param = ''fwmark'' then Some (name_column d w @ show_mark (fwmark d) @ [newline])
      else if param = ''endpoints'' then Some (per_peer d w (\<lambda>p. [tab] @ endpoint_or_none env (endpoint p) @ [newline]))
      else if param = ''allowed-ips'' then Some (per_peer d w (\<lambda>p. [tab] @ ip_column env CHR '' '' newline (allowedips p)))
      else if param = ''latest-handshakes'' then Some (per_peer d w (\<lambda>p. [tab] @ show_time (last_handshake_sec p) @ [newline]))
      else if param = ''transfer'' then
        Some (per_peer d w (\<lambda>p. [tab] @ print_u (unat (rx_bytes p)) @ [tab] @ print_u (unat (tx_bytes p)) @ [newline]))
      else if param = ''persistent-keepalive'' then
        Some (per_peer d w (\<lambda>p. [tab] @ show_keepalive (persistent_keepalive_interval p) @ [newline]))
      else if param = ''preshared-keys'' then
        Some (per_peer d w (\<lambda>p. [tab] @ maybe_key (preshared_key p) (peer_has p WGPEER_HAS_PRESHARED_KEY) @ [newline]))
      else if param = ''peers'' then Some (per_peer d w (\<lambda>p. [newline]))
      else if param = ''dump'' then Some (dump_print env d w)
      else None)"

section \<open>The command\<close>

datatype show_outcome =
    Exit int string
  | Null_device string

text \<open>
  The loop over all interfaces, with the exit status so far and the output. A negative return code of
  \<open>ipc_get_device\<close> skips an interface; any other one without device is followed by a use of the NULL
  pointer.
\<close>

fun show_all :: "show_env \<Rightarrow> string option \<Rightarrow> string list \<Rightarrow> sockfs \<Rightarrow> int \<Rightarrow> string \<Rightarrow> show_outcome \<times> sockfs" where
  "show_all env param [] fs ret out = (Exit ret out, fs)"
| "show_all env param (iface # rest) fs ret out =
     (case ipc_get_device (ipc env) iface fs of
        (Inl code, fs') \<Rightarrow> if code < 0 then show_all env param rest fs' ret out else (Null_device out, fs')
      | (Inr d, fs') \<Rightarrow>
          (case param of
             Some arg \<Rightarrow>
               (case ugly_print env d arg True of
                  None \<Rightarrow> (Exit 1 out, fs')
                | Some s \<Rightarrow> show_all env param rest fs' 0 (out @ s))
           | None \<Rightarrow>
               show_all env param rest fs' 0 (out @ pretty_print env d @ (if rest \<noteq> [] then [newline] else []))))"

fun interface_line :: "string list \<Rightarrow> string" where
  "interface_line [] = []"
| "interface_line [n] = n @ [newline]"
| "interface_line (n # m # ns) = n @ '' '' @ interface_line (m # ns)"

definition list_interfaces :: "show_env \<Rightarrow> sockfs \<Rightarrow> string list option \<times> sockfs" where
  "list_interfaces env fs =
     (case ipc_list_devices (ipc env) fs of
        (Inr (Some l), fs') \<Rightarrow> (Some (list_names (sl_string l)), fs')
      | (_, fs') \<Rightarrow> (None, fs'))"

definition show_main :: "show_env \<Rightarrow> string list \<Rightarrow> sockfs \<Rightarrow> show_outcome \<times> sockfs" where
  "show_main env argv fs =
     (let argc = length argv
      in if argc > 3 then (Exit 1 [], fs)
         else if argc = 1 \<or> argv ! 1 = ''all'' then
           (case list_interfaces env fs of
              (None, fs') \<Rightarrow> (Exit 1 [], fs')
            | (Some names, fs') \<Rightarrow>
                show_all env (if argc = 3 then Some (argv ! 2) else None) names fs' (if names \<noteq> [] then 1 else 0) [])
         else if argv ! 1 = ''interfaces'' then
           (if argc > 2 then (Exit 1 [], fs)
            else
              case list_interfaces env fs of
                (None, fs') \<Rightarrow> (Exit 1 [], fs')
              | (Some names, fs') \<Rightarrow> (Exit 0 (interface_line names), fs'))
         else if argc = 2 \<and> (argv ! 1 = ''-h'' \<or> argv ! 1 = ''--help'' \<or> argv ! 1 = ''help'') then (Exit 0 [], fs)
         else
           (case ipc_get_device (ipc env) (argv ! 1) fs of
              (Inl code, fs') \<Rightarrow> if code < 0 then (Exit 1 [], fs') else (Null_device [], fs')
            | (Inr d, fs') \<Rightarrow>
                if argc = 3 then
                  (case ugly_print env d (argv ! 2) False of None \<Rightarrow> (Exit 1 [], fs') | Some s \<Rightarrow> (Exit 0 s, fs'))
                else (Exit 0 (pretty_print env d), fs')))"

section \<open>The order of the peers\<close>

text \<open>Time stamps that are not negative, as those of a clock are; their differences do not overflow.\<close>

definition clock_time :: "wgpeer \<Rightarrow> bool" where
  "clock_time p \<longleftrightarrow> 0 \<le> last_handshake_sec p \<and> last_handshake_sec p < 2 ^ 63 \<and> 0 \<le> last_handshake_nsec p \<and> last_handshake_nsec p < 2 ^ 63"

lemma time_diff_exact: "0 \<le> a \<Longrightarrow> a < 2 ^ 63 \<Longrightarrow> 0 \<le> b \<Longrightarrow> b < 2 ^ 63 \<Longrightarrow> time_diff a b = a - b"
  unfolding time_diff_def sint_sbintrunc' by (rule signed_take_bit_int_eq_self) simp_all

lemma handshake_cmp_clock:
  "clock_time a \<Longrightarrow> clock_time b \<Longrightarrow> handshake_cmp a b =
     (if never a \<and> \<not> never b then 1
      else if never b \<and> \<not> never a then - 1
      else if last_handshake_sec a \<noteq> last_handshake_sec b then (if last_handshake_sec a < last_handshake_sec b then 1 else - 1)
      else if last_handshake_nsec a < last_handshake_nsec b then 1
      else if last_handshake_nsec a > last_handshake_nsec b then - 1 else 0)"
  by (simp add: handshake_cmp_def clock_time_def time_diff_exact Let_def)

lemma handshake_cmp_le_iff:
  "clock_time a \<Longrightarrow> clock_time b \<Longrightarrow> handshake_cmp a b \<le> 0 \<longleftrightarrow>
     \<not> (never a \<and> \<not> never b) \<and>
     (never a = never b \<longrightarrow> last_handshake_sec b < last_handshake_sec a
        \<or> last_handshake_sec b = last_handshake_sec a \<and> last_handshake_nsec b \<le> last_handshake_nsec a)"
  by (auto simp: handshake_cmp_clock)

interpretation handshakes: comparison handshake_cmp clock_time
proof
  fix x y
  assume "clock_time x" "clock_time y" "0 < handshake_cmp x y"
  then show "handshake_cmp y x \<le> 0" by (auto simp: handshake_cmp_clock split: if_splits)
next
  fix x y z
  assume "clock_time x" "clock_time y" "clock_time z" "handshake_cmp x y \<le> 0" "handshake_cmp y z \<le> 0"
  then show "handshake_cmp x z \<le> 0"
    by (cases "never x"; cases "never y"; cases "never z") (auto simp: handshake_cmp_le_iff)
qed

section \<open>Secrets\<close>

text \<open>A device without the values that must not be shown.\<close>

definition scrub_peer :: "wgpeer \<Rightarrow> wgpeer" where
  "scrub_peer p = p\<lparr>preshared_key := zero_key, ws_bearer := None, ws_tls_key := None\<rparr>"

definition scrub :: "wgdevice \<Rightarrow> wgdevice" where
  "scrub d = d\<lparr>private_key := zero_key, ws_server_bearer := None, ws_server_tls_key := None, peers := map scrub_peer (peers d)\<rparr>"

lemma handshake_cmp_scrub [simp]: "handshake_cmp (scrub_peer a) (scrub_peer b) = handshake_cmp a b"
  by (simp add: handshake_cmp_def never_def scrub_peer_def Let_def)

lemma qsort_insert_map: "(\<And>a b. cmp (f a) (f b) = cmp' a b) \<Longrightarrow> qsort_insert cmp (f x) (map f xs) = map f (qsort_insert cmp' x xs)"
  by (induction xs) auto

lemma qsort_map: "(\<And>a b. cmp (f a) (f b) = cmp' a b) \<Longrightarrow> qsort cmp (map f xs) = map f (qsort cmp' xs)"
  by (induction xs) (simp_all add: qsort_def qsort_insert_map)

lemma pretty_peer_scrub:
  assumes "getenv (senv env) ''WG_HIDE_KEYS'' \<noteq> Some ''never''"
  shows "pretty_peer env (scrub_peer p) n = pretty_peer env p n"
  using assms by (simp add: pretty_peer_def scrub_peer_def masked_key_def)

lemma pretty_peers_scrub:
  "getenv (senv env) ''WG_HIDE_KEYS'' \<noteq> Some ''never'' \<Longrightarrow> pretty_peers env (map scrub_peer ps) = pretty_peers env ps"
  by (induction ps) (simp_all add: pretty_peer_scrub)

section \<open>Times\<close>

lemma time_units_sum:
  "(\<Sum>(u, n) \<leftarrow> time_units left. n * the (map_of [(''year'', 31536000), (''day'', 86400), (''hour'', 3600), (''minute'', 60), (''second'', 1)] u)) = left"
proof -
  define y where "y = left mod 31536000"
  define d where "d = y mod 86400"
  define h where "h = d mod 3600"
  have "left = left div 31536000 * 31536000 + y" "y = y div 86400 * 86400 + d" "d = d div 3600 * 3600 + h" "h = h div 60 * 60 + h mod 60"
    unfolding y_def d_def h_def by simp_all
  then show ?thesis by (simp add: time_units_def Let_def y_def [symmetric] d_def [symmetric] h_def [symmetric])
qed

lemma length_print_u: "n < 10 ^ k \<Longrightarrow> 0 < k \<Longrightarrow> length (print_u n) \<le> k"
proof (induction k arbitrary: n)
  case (Suc k)
  show ?case
  proof (cases "n < 10")
    case True
    then show ?thesis by (subst print_radix.simps) simp
  next
    case False
    then have "0 < k" using Suc.prems(1) by (cases k) auto
    moreover have "n div 10 < 10 ^ k" using Suc.prems(1) by (simp add: less_mult_imp_div_less mult.commute)
    ultimately have "0 < k" "n div 10 < 10 ^ k" .
    then show ?thesis using False Suc.IH [of "n div 10"] by (subst print_radix.simps) simp
  qed
qed simp

text \<open>One part of the text of a duration, in full.\<close>

definition time_text :: "bool \<Rightarrow> string \<times> nat \<Rightarrow> string" where
  "time_text first un =
     (if first then [] else '', '') @ print_u (snd un) @ '' '' @ TERMINAL_FG_CYAN @ fst un @ (if snd un = 1 then [] else ''s'') @ TERMINAL_RESET"

fun times_text :: "bool \<Rightarrow> (string \<times> nat) list \<Rightarrow> string" where
  "times_text first [] = []"
| "times_text first (un # uns) = time_text first un @ times_text False uns"

lemma time_text_nonempty: "time_text b un \<noteq> []"
  by (simp add: time_text_def)

lemma fold_time_part:
  assumes "length buf + length (times_text (buf = []) (filter (\<lambda>un. snd un \<noteq> 0) uns)) < len"
  shows "fold (\<lambda>(unit, n). time_part len unit n) uns (buf, length buf) =
    (buf @ times_text (buf = []) (filter (\<lambda>un. snd un \<noteq> 0) uns), length (buf @ times_text (buf = []) (filter (\<lambda>un. snd un \<noteq> 0) uns)))"
  using assms
proof (induction uns arbitrary: buf)
  case (Cons un uns)
  obtain u n where un: "un = (u, n)" by (cases un)
  show ?case
  proof (cases "n = 0")
    case True
    then show ?thesis using Cons un by (simp add: time_part_def)
  next
    case False
    let ?t = "time_text (buf = []) un"
    have fits: "length buf + length ?t < len" using Cons.prems False un by simp
    have sep: "(if length buf \<noteq> 0 then '', '' else []) = (if buf = [] then [] else '', '')" by simp
    have "time_part len u n (buf, length buf) = (take (length buf) buf @ take (len - length buf - 1) ?t, length buf + length ?t)"
      unfolding time_part_def time_text_def un Let_def prod.case sep using False by (simp only: if_False fst_conv snd_conv)
    moreover have "take (len - length buf - 1) ?t = ?t" using fits by (intro take_all) simp
    ultimately have "time_part len u n (buf, length buf) = (buf @ ?t, length (buf @ ?t))" by simp
    then show ?thesis
      using Cons.IH [of "buf @ ?t"] Cons.prems False un time_text_nonempty [of "buf = []" un] by simp
  qed
qed simp

lemma length_time_text: "snd un < 10 ^ 20 \<Longrightarrow> length (fst un) \<le> 6 \<Longrightarrow> length (time_text b un) \<le> 39"
  using length_print_u [of "snd un" 20]
  by (cases "snd un = 1") (simp_all add: time_text_def TERMINAL_FG_CYAN_def TERMINAL_RESET_def csi_def)

lemma length_times_text:
  "\<forall>un \<in> set uns. snd un < 10 ^ 20 \<and> length (fst un) \<le> 6 \<Longrightarrow> length (times_text b uns) \<le> 39 * length uns"
proof (induction uns arbitrary: b)
  case (Cons un uns)
  have "length (times_text False uns) \<le> 39 * length uns" using Cons by simp
  moreover have "length (time_text b un) \<le> 39" using Cons.prems length_time_text [of un b] by simp
  ultimately show ?case by simp
qed simp

lemma time_units_bound: "left < 2 ^ 64 \<Longrightarrow> \<forall>un \<in> set (time_units left). snd un < 10 ^ 20 \<and> length (fst un) \<le> 6"
proof -
  have "n div m \<le> n" "n mod m \<le> n" for n m :: nat by (rule div_le_dividend) (rule mod_less_eq_dividend)
  moreover assume "left < 2 ^ 64"
  ultimately show ?thesis
    by (auto simp: time_units_def Let_def intro: le_less_trans order_trans)
qed

lemma pretty_time_text:
  assumes "left < 2 ^ 64" and "196 \<le> len"
  shows "pretty_time len left = (times_text True (filter (\<lambda>un. snd un \<noteq> 0) (time_units left)),
    length (times_text True (filter (\<lambda>un. snd un \<noteq> 0) (time_units left))))"
proof -
  let ?uns = "filter (\<lambda>un. snd un \<noteq> 0) (time_units left)"
  have "length ?uns \<le> 5" using length_filter_le [of "\<lambda>un. snd un \<noteq> 0" "time_units left"] by (simp add: time_units_def Let_def)
  moreover have "length (times_text True ?uns) \<le> 39 * length ?uns"
    using time_units_bound [OF assms(1)] by (intro length_times_text) auto
  ultimately have "length (times_text True ?uns) < len" using assms(2) by simp
  then show ?thesis using fold_time_part [of "[]" "time_units left" len] by (simp add: pretty_time_def)
qed

section \<open>Properties\<close>

text \<open>
  C33: \<open>wg show\<close> prints the peers sorted: all of them, each once, those with a handshake before those
  without, and the most recent handshake first. The time stamps must not be negative: then the 64-bit
  difference that the comparison computes does not overflow.
\<close>

theorem sort_peers_sorted:
  assumes "\<forall>p \<in> set (peers d). clock_time p"
  shows "mset (peers (sort_peers d)) = mset (peers d)
   \<and> sorted_wrt (\<lambda>a b. if never a then never b
        else never b \<or> last_handshake_sec b < last_handshake_sec a
          \<or> last_handshake_sec b = last_handshake_sec a \<and> last_handshake_nsec b \<le> last_handshake_nsec a) (peers (sort_peers d))"
proof -
  have "sorted_wrt (\<lambda>a b. handshake_cmp a b \<le> 0) (peers (sort_peers d))"
    using handshakes.sorted_qsort [OF assms] by (simp add: sort_peers_def)
  then show ?thesis
    using assms by (auto simp: sort_peers_def handshake_cmp_le_iff elim!: sorted_wrt_mono_rel [rotated])
qed

theorem sort_peers_sorted_witness:
  "map last_handshake_sec (peers (sort_peers (zero_device\<lparr>peers := [zero_peer, zero_peer\<lparr>last_handshake_sec := 5\<rparr>, zero_peer\<lparr>last_handshake_sec := 7\<rparr>]\<rparr>))) = [7, 5, 0]
   \<and> sorted_wrt (\<lambda>a b. if never a then never b
        else never b \<or> last_handshake_sec b < last_handshake_sec a
          \<or> last_handshake_sec b = last_handshake_sec a \<and> last_handshake_nsec b \<le> last_handshake_nsec a)
       (peers (sort_peers (zero_device\<lparr>peers := [zero_peer, zero_peer\<lparr>last_handshake_sec := 5\<rparr>, zero_peer\<lparr>last_handshake_sec := 7\<rparr>]\<rparr>)))"
proof -
  let ?d = "zero_device\<lparr>peers := [zero_peer, zero_peer\<lparr>last_handshake_sec := 5\<rparr>, zero_peer\<lparr>last_handshake_sec := 7\<rparr>]\<rparr>"
  have c: "\<forall>p \<in> set (peers ?d). clock_time p" by (simp add: clock_time_def zero_peer_def)
  then have "map last_handshake_sec (peers (sort_peers ?d)) = [7, 5, 0]"
    by (simp add: sort_peers_def qsort_def handshake_cmp_clock never_def zero_peer_def)
  then show ?thesis using sort_peers_sorted [OF c] by blast
qed

text \<open>
  C20: unless \<open>WG_HIDE_KEYS\<close> is \<open>never\<close>, the human-readable output of \<open>wg show\<close> does not depend on any
  secret of the device: not on the private key, not on a preshared key, and not on bearer tokens or the
  paths of TLS keys.
\<close>

theorem pretty_print_hides_secrets:
  assumes "getenv (senv env) ''WG_HIDE_KEYS'' \<noteq> Some ''never''" and "scrub d = scrub d'"
  shows "pretty_print env d = pretty_print env d'"
proof -
  have "pretty_print env (scrub d) = pretty_print env d" for d
    using assms(1) qsort_map [of handshake_cmp scrub_peer handshake_cmp "peers d"]
    by (simp add: pretty_print_def scrub_def sort_peers_def masked_key_def pretty_peers_scrub)
  then show ?thesis using assms(2) by metis
qed

definition sample_show :: show_env where
  "sample_show = \<lparr>ipc = sample_ipc, isatty = False, now = 1700000000, gai_strerror = (\<lambda>_. ''error'')\<rparr>"

theorem pretty_print_hides_secrets_witness:
  "pretty_print sample_show (sample_udevice\<lparr>private_key := replicate 32 7\<rparr>) = pretty_print sample_show sample_udevice
   \<and> private_key sample_udevice \<noteq> replicate 32 7"
proof -
  have "getenv (senv sample_show) ''WG_HIDE_KEYS'' \<noteq> Some ''never''"
    by (simp add: sample_show_def sample_ipc_def sample_uenv_def sample_uenv0_def sample_env_def)
  then show ?thesis
    using pretty_print_hides_secrets [of sample_show "sample_udevice\<lparr>private_key := replicate 32 7\<rparr>" sample_udevice]
    by (simp add: scrub_def sample_udevice_def zero_device_def zero_key_def WG_KEY_LEN_def)
qed

text \<open>
  C34: durations are printed exactly and in full. The years, days, hours, minutes and seconds add up to
  the duration, each below the next unit; those that are not zero are printed in order, and the text of
  any 64-bit duration fits in the buffers of \<open>ago\<close> and \<open>every\<close> (at least 196 bytes), so nothing is cut off.
\<close>

theorem pretty_time_exact:
  assumes "left < 2 ^ 64" and "196 \<le> len"
  shows "fst (pretty_time len left) = times_text True (filter (\<lambda>un. snd un \<noteq> 0) (time_units left))
    \<and> snd (pretty_time len left) < len
    \<and> (\<Sum>(u, n) \<leftarrow> time_units left. n * the (map_of [(''year'', 31536000), (''day'', 86400), (''hour'', 3600), (''minute'', 60), (''second'', 1)] u)) = left
    \<and> list_all2 (\<lambda>(u, n) m. n < m) (tl (time_units left)) [365, 24, 60, 60]"
proof -
  have mods: "list_all2 (\<lambda>(u, n) m. n < m) (tl (time_units left)) [365, 24, 60, 60]"
    by (simp add: time_units_def Let_def less_mult_imp_div_less)
  have "length (times_text True (filter (\<lambda>un. snd un \<noteq> 0) (time_units left))) < len"
  proof -
    have "length (filter (\<lambda>un. snd un \<noteq> 0) (time_units left)) \<le> 5"
      using length_filter_le [of "\<lambda>un. snd un \<noteq> 0" "time_units left"] by (simp add: time_units_def Let_def)
    moreover have "length (times_text True (filter (\<lambda>un. snd un \<noteq> 0) (time_units left))) \<le> 39 * length (filter (\<lambda>un. snd un \<noteq> 0) (time_units left))"
      using time_units_bound [OF assms(1)] by (intro length_times_text) auto
    ultimately show ?thesis using assms(2) by simp
  qed
  then show ?thesis using pretty_time_text [OF assms] time_units_sum mods by simp
qed

theorem pretty_time_exact_witness:
  "fst (pretty_time 1024 90061) = times_text True [(''day'', 1), (''hour'', 1), (''minute'', 1), (''second'', 1)]"
  using pretty_time_exact [of 90061 1024] by (simp add: time_units_def)


lemma uapi_unreachable:
  assumes "getaddrinfo (sys env) (Some ''h'') ''1'' 0 = Inl e"
  shows "get_reply env (uapi_text [(''public_key'', key_to_hex zero_key), (''endpoint'', ''h:1'')] @ rest)
    \<lparr>udev = d, upeer = None, uaip = None, uret = r\<rparr> = Inl ENETUNREACH"
proof -
  have "split_endpoint ''h:1'' = Inr (''h'', ''1'')" using split_endpoint_plain [of "''h''" "''1''"] by simp
  then have e: "uapi_endpoint (sys env) ''h:1'' = Err ENETUNREACH" using assms by (simp add: uapi_endpoint_def)
  let ?st = "\<lparr>udev = d, upeer = None, uaip = None, uret = r\<rparr> :: uapi_state"
  obtain p where k: "uapi_line env ''public_key'' (key_to_hex zero_key) ?st = Go (at_peer ?st [] (p, None))"
    by (simp add: uapi_line_def key_from_to_hex link_after_def cursor_next_def at_peer_def)
  have g: "good_kv (''public_key'', key_to_hex zero_key)" "good_kv (''endpoint'', ''h:1'')" by simp_all
  have l: "uapi_line env ''endpoint'' ''h:1'' (at_peer ?st [] (p, None)) = Err ENETUNREACH"
    using uapi_line_at_peer [of "''endpoint''" env "''h:1''" ?st "[]" "(p, None)"] e by simp
  show ?thesis
    using get_reply_kv [OF g(1)] get_reply_kv [OF g(2)] k l by (simp add: uapi_finish_def ENETUNREACH_def)
qed

definition dark_env :: show_env where
  "dark_env = sample_show\<lparr>ipc := sample_ipc\<lparr>uapi := sample_uenv\<lparr>sys := sample_env\<rparr>\<rparr>\<rparr>"

definition dark_socks :: sockfs where
  "dark_socks p = Listening (\<lambda>_. (uapi_text [(''public_key'', key_to_hex zero_key), (''endpoint'', ''h:1'')], 0))"


end
