(* ===== verification/Montgomery.thy ===== *)
theory Montgomery
  imports Bytes
begin

text \<open>
  What both implementations of Curve25519 compute: the Montgomery ladder over the integers modulo the prime
  \<open>2^255 - 19\<close>, as RFC 7748 states it, and the interface of an arithmetic of field elements that the ladder needs.
\<close>

unbundle bit_operations_syntax

section \<open>The reference\<close>

definition prime25519 :: int where "prime25519 = 2 ^ 255 - 19"

type_synonym xz = "int \<times> int"

text \<open>The double of one point and the sum of two points whose difference has the coordinate \<open>u\<close>.\<close>

definition mont_double_add :: "int \<Rightarrow> xz \<times> xz \<Rightarrow> xz \<times> xz" where
  "mont_double_add u p =
     (let ((x2, z2), (x3, z3)) = p;
          a = x2 + z2; aa = a ^ 2; b = x2 - z2; bb = b ^ 2; e = aa - bb;
          c = x3 + z3; d = x3 - z3; da = d * a; cb = c * b
      in ((aa * bb mod prime25519, e * (aa + 121665 * e) mod prime25519),
          ((da + cb) ^ 2 mod prime25519, u * (da - cb) ^ 2 mod prime25519)))"

definition cond_swap :: "bool \<Rightarrow> 'a \<times> 'a \<Rightarrow> 'a \<times> 'a" where
  "cond_swap b p = (if b then (snd p, fst p) else p)"

definition mont_step :: "int \<Rightarrow> xz \<times> xz \<Rightarrow> bool \<Rightarrow> xz \<times> xz" where
  "mont_step u p b = cond_swap b (mont_double_add u (cond_swap b p))"

definition mont_ladder :: "int \<Rightarrow> bool list \<Rightarrow> xz \<times> xz" where
  "mont_ladder u bits = foldl (mont_step u) ((1, 0), (u, 1)) bits"

text \<open>The highest \<open>n\<close> bits of a scalar, from the most significant one.\<close>

definition scalar_bits :: "nat \<Rightarrow> nat \<Rightarrow> bool list" where
  "scalar_bits n k = map (bit k) (rev [0..<n])"

definition x25519 :: "nat \<Rightarrow> nat \<Rightarrow> int \<Rightarrow> int" where
  "x25519 n k u = (case mont_ladder u (scalar_bits n k) of ((x, z), _) \<Rightarrow> x * z ^ nat (prime25519 - 2) mod prime25519)"

text \<open>The scalar of a secret key: a multiple of eight, with bit 254 the highest one.\<close>

definition clamped_scalar :: "u8 list \<Rightarrow> nat" where
  "clamped_scalar secret = 2 ^ 254 + 8 * (read_le 32 secret mod 2 ^ 254 div 8)"

definition point_coordinate :: "u8 list \<Rightarrow> int" where
  "point_coordinate bs = int (read_le 32 bs mod 2 ^ 255)"

definition encode_coordinate :: "int \<Rightarrow> u8 list" where
  "encode_coordinate x = le_bytes 32 (nat (x mod prime25519))"

section \<open>Bits of a scalar\<close>

lemma bit_base_256:
  assumes "b < 256"
  shows "j < 8 \<Longrightarrow> bit (b + 256 * r) j = bit (b :: nat) j" "bit (b + 256 * r) (8 + m) = bit r m"
proof -
  have "(b + 256 * r) div 2 ^ (8 + m) = r div 2 ^ m" using assms by (simp add: power_add div_mult2_eq)
  then show "bit (b + 256 * r) (8 + m) = bit r m" by (simp add: bit_iff_odd)
  assume j: "j < 8"
  then have "(256 :: nat) = 2 ^ j * (2 * 2 ^ (7 - j))" by (simp flip: power_add power_Suc)
  then have "b + 256 * r = b + 2 ^ j * (2 * (2 ^ (7 - j) * r))" by (simp only: mult.assoc)
  then have "(b + 256 * r) div 2 ^ j = 2 * (2 ^ (7 - j) * r) + b div 2 ^ j" by (simp only:) (subst div_mult_self2, simp_all)
  then show "bit (b + 256 * r) j = bit b j" by (simp add: bit_iff_odd)
qed

lemma bit_read_le: "i < n \<Longrightarrow> i < length bs \<Longrightarrow> j < 8 \<Longrightarrow> bit (read_le n bs) (8 * i + j) = bit (bs ! i) j"
proof (induction n arbitrary: bs i)
  case (Suc n)
  obtain b r where bs: "bs = b # r" using Suc.prems(2) by (cases bs) auto
  have b: "unat b < 256" using unsigned_less [of b] by simp
  show ?case
  proof (cases i)
    case 0
    then show ?thesis using Suc.prems(3) by (simp add: bs bit_base_256(1) [OF b] bit_unsigned_iff)
  next
    case (Suc k)
    then show ?thesis using Suc.IH Suc.prems bit_base_256(2) [OF b, of "read_le n r" "8 * k + j"] by (simp add: bs algebra_simps)
  qed
qed simp

lemma scalar_bits_Suc:
  assumes "i < n" "i < length bs"
  shows "scalar_bits (8 * Suc i) (read_le n bs) = map (\<lambda>j. bit (bs ! i) (7 - j)) [0..<8] @ scalar_bits (8 * i) (read_le n bs)"
proof -
  have e: "rev [0..<8] = map (\<lambda>j. 7 - j) [0..<8]" by (simp add: upt_rec)
  have "[0..<8 * Suc i] = [0..<8 * i] @ map (\<lambda>j. j + 8 * i) [0..<8]"
    using upt_add_eq_append [of 0 "8 * i" 8] map_add_upt [of "8 * i" 8] by (simp add: add.commute)
  then have "rev [0..<8 * Suc i] = map (\<lambda>j. j + 8 * i) (rev [0..<8]) @ rev [0..<8 * i]" by (simp only: rev_append rev_map)
  then have "rev [0..<8 * Suc i] = map (\<lambda>j. 8 * i + (7 - j)) [0..<8] @ rev [0..<8 * i]" by (simp only: e map_map comp_def add.commute)
  moreover have "bit (read_le n bs) (8 * i + (7 - j)) = bit (bs ! i) (7 - j)" for j using assms by (intro bit_read_le) simp_all
  ultimately show ?thesis by (simp only: scalar_bits_def map_append map_map comp_def)
qed

section \<open>Numbers in bytes\<close>

lemma read_le_below: "read_le n bs < 256 ^ n"
proof (induction n arbitrary: bs)
  case (Suc n)
  show ?case
  proof (cases bs)
    case (Cons b r)
    have "unat b < 256" "read_le n r + 1 \<le> 256 ^ n" using unsigned_less [of b] Suc.IH [of r] by simp_all
    then have "unat b + 256 * read_le n r < 256 * 256 ^ n" by linarith
    then show ?thesis using Cons by simp
  qed simp
qed simp

lemma read_le_append: "read_le (length xs + m) (xs @ ys) = read_le (length xs) xs + 256 ^ length xs * read_le m ys"
  by (induction xs) (simp_all add: algebra_simps)

lemma read_le_slice:
  assumes "length bs = n" "i + m \<le> n"
  shows "read_le m (drop i bs) = take_bit (8 * m) (drop_bit (8 * i) (read_le n bs))"
proof -
  define xs ys zs where "xs = take i bs" and "ys = take m (drop i bs)" and "zs = drop m (drop i bs)"
  have bs: "bs = xs @ ys @ zs" "drop i bs = ys @ zs" by (simp_all only: xs_def ys_def zs_def append_take_drop_id)
  have l: "length xs = i" "length ys = m" using assms by (simp_all add: xs_def ys_def)
  obtain k where n: "n = i + (m + k)" using assms(2) le_Suc_ex by (metis add.assoc)
  have r: "read_le m (ys @ zs) = read_le m ys" using read_le_append [of ys 0 zs] by (simp add: l(2))
  have "read_le n bs = read_le i xs + 256 ^ i * (read_le m ys + 256 ^ m * read_le k zs)"
    using read_le_append [of xs "m + k" "ys @ zs"] read_le_append [of ys k zs] unfolding bs(1) n by (simp add: l)
  moreover have "(256 :: nat) ^ i = 2 ^ (8 * i)" "(256 :: nat) ^ m = 2 ^ (8 * m)" by (simp_all add: power_mult)
  moreover have "read_le i xs < 256 ^ i" "read_le m ys < 256 ^ m" by (rule read_le_below)+
  ultimately show ?thesis unfolding bs(2) r take_bit_eq_mod drop_bit_eq_div by simp
qed

lemma le_bytes_append: "le_bytes (m + n) k = le_bytes m k @ le_bytes n (k div 256 ^ m)"
  by (induction m arbitrary: k) (simp_all add: div_mult2_eq)

lemma le_bytes_mod: "le_bytes m (k mod 256 ^ m) = le_bytes m k"
proof (induction m arbitrary: k)
  case (Suc m)
  have "k mod 256 ^ Suc m = k mod 256 + 256 * (k div 256 mod 256 ^ m)" by (simp add: mod_mult2_eq)
  moreover have "(word_of_nat (k mod 256 + 256 * (k div 256 mod 256 ^ m)) :: u8) = word_of_nat k"
    unfolding word_of_nat_eq_iff take_bit_eq_mod by simp
  ultimately show ?case using Suc.IH [of "k div 256"] by simp
qed simp

lemma bit_byte: "x < 256 \<Longrightarrow> bit (x :: nat) n \<Longrightarrow> n < 8"
proof -
  assume "x < 256" "bit x n"
  then have "bit (take_bit 8 x) n" by (simp add: take_bit_nat_eq_self)
  then show ?thesis by (simp only: bit_take_bit_iff)
qed

lemma clamp_low:
  assumes "x < 256"
  shows "x AND 248 = 8 * (x div (8 :: nat))"
proof -
  have "(248 :: nat) = push_bit 3 (mask 5)" by (simp add: push_bit_eq_mult mask_eq_exp_minus_1)
  then have k: "bit (248 :: nat) n \<longleftrightarrow> 3 \<le> n \<and> n - 3 < 5" for n by (simp only: bit_push_bit_iff bit_mask_iff) simp
  have "x AND 248 = push_bit 3 (drop_bit 3 x)"
  proof (rule bit_eqI)
    fix n
    have "bit x n \<Longrightarrow> n - 3 < 5" using bit_byte [OF assms] by fastforce
    then show "bit (x AND 248) n = bit (push_bit 3 (drop_bit 3 x)) n"
      by (auto simp add: bit_and_iff k bit_push_bit_iff bit_drop_bit_eq)
  qed
  then show ?thesis by (simp add: push_bit_eq_mult drop_bit_eq_div)
qed

lemma clamp_high: "(x AND 127) OR 64 = 64 + x mod (64 :: nat)"
proof -
  have m: "(127 :: nat) = mask 7" "(64 :: nat) = 2 ^ 6" by (simp_all add: mask_eq_exp_minus_1)
  have "(x AND mask 7) OR 2 ^ 6 = 2 ^ 6 OR take_bit 6 x"
    by (rule bit_eqI) (auto simp add: bit_and_iff bit_or_iff bit_take_bit_iff bit_mask_iff bit_exp_iff simp del: power_numeral)
  also have "\<dots> = 2 ^ 6 + take_bit 6 x"
    by (rule disjunctive_add_eq_or [symmetric], rule bit_eqI) (simp add: bit_and_iff bit_exp_iff bit_take_bit_iff del: power_numeral)
  finally show ?thesis unfolding m take_bit_eq_mod .
qed

section \<open>Congruence\<close>

definition congruent :: "int \<Rightarrow> int \<Rightarrow> bool" where "congruent x y \<longleftrightarrow> x mod prime25519 = y mod prime25519"

lemma congruent_refl [simp]: "congruent x x"
  by (simp add: congruent_def)

lemma congruent_mod [simp]: "congruent x (y mod prime25519) \<longleftrightarrow> congruent x y"
  by (simp add: congruent_def)

lemma congruent_trans: "congruent x y \<Longrightarrow> congruent y z \<Longrightarrow> congruent x z"
  by (simp add: congruent_def)

lemma congruent_sym: "congruent x y \<Longrightarrow> congruent y x"
  by (simp add: congruent_def)

lemma congruent_arith:
  assumes "congruent a x" "congruent b y"
  shows "congruent (a * b) (x * y)" "congruent (a + b) (x + y)" "congruent (a - b) (x - y)"
  using assms unfolding congruent_def by (metis mod_mult_eq, metis mod_add_eq, metis mod_diff_eq)

section \<open>Arithmetic of field elements\<close>

text \<open>
  The operations of an implementation, on elements with small limbs (\<open>tight\<close>) and with larger ones (\<open>loose\<close>):
  a product takes large limbs and leaves small ones, a sum or difference the other way round.
\<close>

locale field_impl =
  fixes val :: "'f \<Rightarrow> int" and tight loose :: "'f \<Rightarrow> bool"
    and mul add sub :: "'f \<Rightarrow> 'f \<Rightarrow> 'f" and sq :: "'f \<Rightarrow> 'f"
  assumes tight_loose: "tight a \<Longrightarrow> loose a"
    and mul_tight: "loose a \<Longrightarrow> loose b \<Longrightarrow> tight (mul a b)"
    and mul_val: "loose a \<Longrightarrow> loose b \<Longrightarrow> congruent (val (mul a b)) (val a * val b)"
    and sq_mul: "loose a \<Longrightarrow> sq a = mul a a"
    and add_loose: "tight a \<Longrightarrow> tight b \<Longrightarrow> loose (add a b)"
    and add_val: "tight a \<Longrightarrow> tight b \<Longrightarrow> congruent (val (add a b)) (val a + val b)"
    and sub_loose: "tight a \<Longrightarrow> tight b \<Longrightarrow> loose (sub a b)"
    and sub_val: "tight a \<Longrightarrow> tight b \<Longrightarrow> congruent (val (sub a b)) (val a - val b)"
begin

definition tight_rep :: "'f \<Rightarrow> int \<Rightarrow> bool" where
  "tight_rep f x \<longleftrightarrow> tight f \<and> congruent (val f) x"

definition loose_rep :: "'f \<Rightarrow> int \<Rightarrow> bool" where
  "loose_rep f x \<longleftrightarrow> loose f \<and> congruent (val f) x"

lemma tight_is_loose: "tight_rep f x \<Longrightarrow> loose_rep f x"
  by (simp add: tight_rep_def loose_rep_def tight_loose)

lemma rep_cong: "tight_rep f x \<Longrightarrow> congruent x y \<Longrightarrow> tight_rep f y"
  unfolding tight_rep_def using congruent_trans by blast

lemma rep_mod [simp]: "tight_rep f (x mod prime25519) \<longleftrightarrow> tight_rep f x"
  by (simp add: tight_rep_def)

lemma rep_mul: "loose_rep f x \<Longrightarrow> loose_rep g y \<Longrightarrow> tight_rep (mul f g) (x * y)"
  by (simp add: loose_rep_def tight_rep_def mul_tight congruent_trans [OF mul_val congruent_arith(1)])

lemma rep_sq: "loose_rep f x \<Longrightarrow> tight_rep (sq f) (x ^ 2)"
  using rep_mul [of f x f x] sq_mul [of f] by (simp add: power2_eq_square loose_rep_def)

lemma rep_add: "tight_rep f x \<Longrightarrow> tight_rep g y \<Longrightarrow> loose_rep (add f g) (x + y)"
  by (simp add: loose_rep_def tight_rep_def add_loose congruent_trans [OF add_val congruent_arith(2)])

lemma rep_sub: "tight_rep f x \<Longrightarrow> tight_rep g y \<Longrightarrow> loose_rep (sub f g) (x - y)"
  by (simp add: loose_rep_def tight_rep_def sub_loose congruent_trans [OF sub_val congruent_arith(3)])

lemmas rep_intros = rep_mul rep_sq rep_add rep_sub tight_is_loose

text \<open>Powers, for the inversion by a chain of squarings and products.\<close>

lemma pow_mul: "tight_rep f (z ^ i) \<Longrightarrow> tight_rep g (z ^ j) \<Longrightarrow> tight_rep (mul f g) (z ^ (i + j))"
  unfolding power_add by (intro rep_mul tight_is_loose)

lemma pow_sq: "tight_rep f (z ^ i) \<Longrightarrow> tight_rep (sq f) (z ^ (2 * i))"
  unfolding power_even_eq by (intro rep_sq tight_is_loose)

lemma pow_sq_times: "tight_rep f (z ^ i) \<Longrightarrow> tight_rep ((sq ^^ n) f) (z ^ (2 ^ n * i))"
proof (induction n)
  case (Suc n)
  then have "tight_rep (sq ((sq ^^ n) f)) (z ^ (2 * (2 ^ n * i)))" by (intro pow_sq)
  then show ?case by (simp only: funpow.simps comp_apply power_Suc mult.assoc)
qed simp

end

end
