(* ===== verification/Curve25519Facts.thy ===== *)
theory Curve25519Facts
  imports Curve25519 Montgomery
begin

text \<open>
  The 64-bit implementation of Curve25519 computes on integers modulo \<open>2^255 - 19\<close>: each operation on limbs is the
  operation on the numbers they stand for, with no overflow on the way, the ladder is the ladder of the
  Montgomery curve, and the result is the encoding of the representative below the prime.
\<close>

section \<open>Values of limbs\<close>

fun fval :: "felem \<Rightarrow> int" where
  "fval (Fe a0 a1 a2 a3 a4) = uint a0 + 2 ^ 51 * uint a1 + 2 ^ 102 * uint a2 + 2 ^ 153 * uint a3 + 2 ^ 204 * uint a4"

fun wval :: "wide \<Rightarrow> int" where
  "wval (Wide t0 t1 t2 t3 t4) = uint t0 + 2 ^ 51 * uint t1 + 2 ^ 102 * uint t2 + 2 ^ 153 * uint t3 + 2 ^ 204 * uint t4"

fun fbound :: "int \<Rightarrow> felem \<Rightarrow> bool" where
  "fbound m (Fe a0 a1 a2 a3 a4) \<longleftrightarrow> uint a0 \<le> m \<and> uint a1 \<le> m \<and> uint a2 \<le> m \<and> uint a3 \<le> m \<and> uint a4 \<le> m"

lemma uint_small64: "0 \<le> n \<Longrightarrow> n < 2 ^ 64 \<Longrightarrow> uint (word_of_int n :: u64) = n"
  by (simp add: uint_word_of_int)

lemma uint_small128: "0 \<le> n \<Longrightarrow> n < 2 ^ 128 \<Longrightarrow> uint (word_of_int n :: u128) = n"
  by (simp add: uint_word_of_int)

lemma uint_add64: "uint a + uint b < 2 ^ 64 \<Longrightarrow> uint (a + b :: u64) = uint a + uint b"
  by (simp add: uint_word_ariths)

lemma uint_add128: "uint a + uint b < 2 ^ 128 \<Longrightarrow> uint (a + b :: u128) = uint a + uint b"
  by (simp add: uint_word_ariths)

lemma uint_times64: "uint a * uint b < 2 ^ 64 \<Longrightarrow> uint (a * b :: u64) = uint a * uint b"
  by (simp add: uint_word_ariths)

lemma uint_shift:
  fixes a :: "'a::len word"
  shows "uint (drop_bit n a) = uint a div 2 ^ n"
proof -
  have "take_bit LENGTH('a) (uint a) = uint a" by (simp add: take_bit_int_eq_self_iff)
  then show ?thesis unfolding unsigned_drop_bit_eq by (simp only: drop_bit_eq_div)
qed

lemma uint_mask64: "uint (a AND limb_mask) = uint a mod 2 ^ 51"
proof -
  have "a AND limb_mask = take_bit 51 a" by (simp only: limb_mask_def take_bit_eq_mask) (simp add: mask_eq_exp_minus_1)
  then have "uint (a AND limb_mask) = take_bit 51 (uint a)" by (simp only: unsigned_take_bit_eq)
  then show ?thesis by (simp only: take_bit_eq_mod)
qed

lemma uint_mask128: "uint (a AND ucast limb_mask :: u128) = uint a mod 2 ^ 51"
proof -
  have "(ucast limb_mask :: u128) = mask 51" by (simp add: limb_mask_def mask_eq_exp_minus_1)
  then have "a AND ucast limb_mask = take_bit 51 a" by (simp only: take_bit_eq_mask)
  then have "uint (a AND ucast limb_mask) = take_bit 51 (uint a)" by (simp only: unsigned_take_bit_eq)
  then show ?thesis by (simp only: take_bit_eq_mod)
qed

lemma uint_widen: "uint (ucast (a :: u64) :: u128) = uint a"
  using uint_lt2p [of a] by (simp add: unsigned_ucast_eq take_bit_int_eq_self_iff)

lemma uint_narrow: "uint (ucast (a :: u128) :: u64) = uint a mod 2 ^ 64"
  by (simp add: unsigned_ucast_eq take_bit_eq_mod)

lemma widen_hom: "(ucast (a :: u64) :: u128) = word_of_int (uint a)"
  by (metis uint_widen word_of_int_uint)

lemma uint_bounds64: "0 \<le> uint (a :: u64)" "uint a < 2 ^ 64"
  using uint_lt2p [of a] by simp_all

lemma div_below:
  fixes x k m :: int
  assumes "0 < k" and "x < k * m"
  shows "x div k < m"
proof (rule ccontr)
  assume "\<not> x div k < m"
  then have "k * m \<le> k * (x div k)" using assms(1) by simp
  also have "\<dots> \<le> x" using assms(1) by (metis add.commute le_add_same_cancel2 mult_div_mod_eq pos_mod_sign)
  finally show False using assms(2) by simp
qed

section \<open>Carrying\<close>

lemma carry_wide_step:
  assumes "uint b < 2 ^ 120"
  shows "\<exists>r s. carry_wide_step a b = (r, s) \<and> uint r = uint a mod 2 ^ 51 \<and> uint s = uint b + uint a div 2 ^ 51"
proof -
  have "uint a div 2 ^ 51 < 2 ^ 77" using uint_lt2p [of a] by (intro div_below) simp_all
  then have "uint (b + drop_bit 51 a) = uint b + uint a div 2 ^ 51" using assms by (subst uint_add128) (simp_all add: uint_shift)
  moreover have "uint a mod 2 ^ 64 mod 2 ^ 51 = uint a mod 2 ^ 51" by (simp add: mod_mod_cancel)
  ultimately show ?thesis by (simp add: carry_wide_step_def Let_def uint_widen uint_mask64 uint_narrow)
qed

lemma carry_split: "(uint (a :: 'a::len word) :: int) mod 2 ^ 51 = uint a - 2 ^ 51 * (uint a div 2 ^ 51)"
  by (simp add: minus_div_mult_eq_mod [symmetric] mult.commute)

lemma carry_telescope:
  fixes r0 r1 r2 r3 r4 :: int
  assumes "r0 = t0 - 2 ^ 51 * c0" "s1 = t1 + c0" "r1 = s1 - 2 ^ 51 * c1" "s2 = t2 + c1" "r2 = s2 - 2 ^ 51 * c2" "s3 = t3 + c2"
    "r3 = s3 - 2 ^ 51 * c3" "r4 = t4 + c3"
  shows "r0 + 2 ^ 51 * r1 + 2 ^ 102 * r2 + 2 ^ 153 * r3 + 2 ^ 204 * r4 = t0 + 2 ^ 51 * t1 + 2 ^ 102 * t2 + 2 ^ 153 * t3 + 2 ^ 204 * t4"
  unfolding assms by (simp add: algebra_simps)

lemma carry_wide:
  assumes "uint t0 < 2 ^ 120" "uint t1 < 2 ^ 120" "uint t2 < 2 ^ 120" "uint t3 < 2 ^ 120" "uint t4 < 2 ^ 120"
  shows "\<exists>r0 r1 r2 r3 r4. fproduct_carry_wide (Wide t0 t1 t2 t3 t4) = Wide r0 r1 r2 r3 r4
    \<and> uint r0 < 2 ^ 51 \<and> uint r1 < 2 ^ 51 \<and> uint r2 < 2 ^ 51 \<and> uint r3 < 2 ^ 51 \<and> uint r4 \<le> uint t4 + 2 ^ 70
    \<and> wval (Wide r0 r1 r2 r3 r4) = wval (Wide t0 t1 t2 t3 t4)"
proof -
  obtain r0 s1 where 0: "carry_wide_step t0 t1 = (r0, s1)" "uint r0 = uint t0 mod 2 ^ 51" "uint s1 = uint t1 + uint t0 div 2 ^ 51"
    using carry_wide_step [OF assms(2)] by blast
  obtain r1 s2 where 1: "carry_wide_step s1 t2 = (r1, s2)" "uint r1 = uint s1 mod 2 ^ 51" "uint s2 = uint t2 + uint s1 div 2 ^ 51"
    using carry_wide_step [OF assms(3)] by blast
  obtain r2 s3 where 2: "carry_wide_step s2 t3 = (r2, s3)" "uint r2 = uint s2 mod 2 ^ 51" "uint s3 = uint t3 + uint s2 div 2 ^ 51"
    using carry_wide_step [OF assms(4)] by blast
  obtain r3 r4 where 3: "carry_wide_step s3 t4 = (r3, r4)" "uint r3 = uint s3 mod 2 ^ 51" "uint r4 = uint t4 + uint s3 div 2 ^ 51"
    using carry_wide_step [OF assms(5)] by blast
  have "uint s2 div 2 ^ 51 < 2 ^ 77" using uint_lt2p [of s2] by (intro div_below) simp_all
  then have "uint s3 < 2 ^ 121" using 2(3) assms(4) by simp
  then have "uint s3 div 2 ^ 51 < 2 ^ 70" by (intro div_below) simp_all
  then have top: "uint r4 \<le> uint t4 + 2 ^ 70" using 3(3) by simp
  have val: "wval (Wide r0 r1 r2 r3 r4) = wval (Wide t0 t1 t2 t3 t4)"
    unfolding wval.simps
    by (rule carry_telescope [OF 0(2) [unfolded carry_split] 0(3) 1(2) [unfolded carry_split] 1(3) 2(2) [unfolded carry_split] 2(3) 3(2) [unfolded carry_split] 3(3)])
  have low: "uint r0 < 2 ^ 51" "uint r1 < 2 ^ 51" "uint r2 < 2 ^ 51" "uint r3 < 2 ^ 51" by (simp_all add: 0(2) 1(2) 2(2) 3(2))
  have "fproduct_carry_wide (Wide t0 t1 t2 t3 t4) = Wide r0 r1 r2 r3 r4" by (simp add: 0(1) 1(1) 2(1) 3(1))
  then show ?thesis using low top val by blast
qed

text \<open>The largest limbs that occur as operands, and the bound of those that a reduction leaves.\<close>

definition limb_max :: int where "limb_max = 2 ^ 54 + 2 ^ 51 + 2 ^ 13"
definition limb_red :: int where "limb_red = 2 ^ 51 + 2 ^ 13"

lemma mod_prime_shift: "(x + 2 ^ 255 * c) mod prime25519 = (x + 19 * c) mod prime25519"
proof -
  have "x + 2 ^ 255 * c = x + 19 * c + prime25519 * c" by (simp add: prime25519_def algebra_simps)
  then show ?thesis by (simp only: mod_mult_self2)
qed

lemma wide_carry_top_ok:
  assumes "uint r0 < 2 ^ 51" "uint r1 < 2 ^ 51" "uint r2 < 2 ^ 51" "uint r3 < 2 ^ 51" "uint r4 \<le> m" "19 * (m div 2 ^ 51) + 2 ^ 51 \<le> 2 ^ 64"
  shows "\<exists>i0 i1 i2 i3 i4. fproduct_copy_from_wide (wide_carry_top (Wide r0 r1 r2 r3 r4)) = Fe i0 i1 i2 i3 i4
    \<and> uint i0 \<le> 2 ^ 51 + 19 * (m div 2 ^ 51) \<and> uint i1 < 2 ^ 51 \<and> uint i2 < 2 ^ 51 \<and> uint i3 < 2 ^ 51 \<and> uint i4 < 2 ^ 51
    \<and> fval (Fe i0 i1 i2 i3 i4) mod prime25519 = wval (Wide r0 r1 r2 r3 r4) mod prime25519"
proof -
  let ?c = "uint r4 div 2 ^ 51"
  have c: "?c \<le> m div 2 ^ 51" "0 \<le> ?c" using assms(5) by (simp_all add: zdiv_mono1 pos_imp_zdiv_nonneg_iff)
  then have c64: "?c < 2 ^ 64" using assms(6) by simp
  have "uint (ucast (ucast (drop_bit 51 r4) :: u64) :: u128) = ?c" using c64 c(2) by (simp add: uint_widen uint_narrow uint_shift)
  then have "(ucast (ucast (drop_bit 51 r4) :: u64) :: u128) = word_of_int ?c" by (metis word_of_int_uint)
  then have p: "ucast (19 :: u64) * ucast (ucast (drop_bit 51 r4) :: u64) = (word_of_int (19 * ?c) :: u128)"
    by (simp only: wi_hom_mult [symmetric]) simp
  define i0 where "i0 = (ucast (r0 + word_of_int (19 * ?c)) :: u64)"
  have "uint (word_of_int (19 * ?c) :: u128) = 19 * ?c" using assms(6) c by (intro uint_small128) simp_all
  then have "uint (r0 + word_of_int (19 * ?c)) = uint r0 + 19 * ?c"
    using assms(1,6) c(1) by (subst uint_add128) (simp_all only:, simp_all)
  then have i0: "uint i0 = uint r0 + 19 * ?c" using assms(1,6) c unfolding i0_def uint_narrow by simp
  have low: "uint (ucast r1 :: u64) = uint r1" "uint (ucast r2 :: u64) = uint r2" "uint (ucast r3 :: u64) = uint r3"
    using assms(2-4) by (simp_all add: uint_narrow)
  have i4: "uint (ucast (r4 AND ucast limb_mask) :: u64) = uint r4 - 2 ^ 51 * ?c"
    unfolding carry_split [symmetric] uint_narrow uint_mask128 by (simp add: mod_mod_cancel)
  have "wval (Wide r0 r1 r2 r3 r4) = uint r0 + 2 ^ 51 * uint r1 + 2 ^ 102 * uint r2 + 2 ^ 153 * uint r3 + 2 ^ 204 * (uint r4 - 2 ^ 51 * ?c) + 2 ^ 255 * ?c"
    by (simp add: algebra_simps)
  then have "fval (Fe i0 (ucast r1) (ucast r2) (ucast r3) (ucast (r4 AND ucast limb_mask))) mod prime25519 = wval (Wide r0 r1 r2 r3 r4) mod prime25519"
    by (simp only: mod_prime_shift fval.simps i0 low i4) (simp add: ac_simps)
  moreover have "uint r4 - 2 ^ 51 * ?c < 2 ^ 51" unfolding carry_split [symmetric] by simp
  moreover have "fproduct_copy_from_wide (wide_carry_top (Wide r0 r1 r2 r3 r4)) = Fe i0 (ucast r1) (ucast r2) (ucast r3) (ucast (r4 AND ucast limb_mask))"
    by (simp only: wide_carry_top.simps fproduct_copy_from_wide.simps p i0_def)
  moreover have "uint i0 \<le> 2 ^ 51 + 19 * (m div 2 ^ 51)" using i0 assms(1) c(1) by linarith
  ultimately show ?thesis using assms(2-4) i4 low by metis
qed

lemma carry_0_to_1_ok:
  assumes "uint i1 < 2 ^ 51" "uint i2 < 2 ^ 51" "uint i3 < 2 ^ 51" "uint i4 < 2 ^ 51"
  shows "fbound limb_red (carry_0_to_1 (Fe i0 i1 i2 i3 i4))" "fval (carry_0_to_1 (Fe i0 i1 i2 i3 i4)) = fval (Fe i0 i1 i2 i3 i4)"
proof -
  let ?c = "uint i0 div 2 ^ 51"
  have c: "?c < 2 ^ 13" using uint_lt2p [of i0] by (intro div_below) simp_all
  then have s: "uint (i1 + drop_bit 51 i0) = uint i1 + ?c" using assms(1) by (subst uint_add64) (simp_all add: uint_shift)
  have l: "uint (i0 AND limb_mask) = uint i0 - 2 ^ 51 * ?c" "uint (i0 AND limb_mask) < 2 ^ 51"
    unfolding carry_split [symmetric] uint_mask64 by simp_all
  show "fbound limb_red (carry_0_to_1 (Fe i0 i1 i2 i3 i4))"
    using assms c l(2) unfolding carry_0_to_1.simps fbound.simps s limb_red_def by simp
  show "fval (carry_0_to_1 (Fe i0 i1 i2 i3 i4)) = fval (Fe i0 i1 i2 i3 i4)"
    unfolding carry_0_to_1.simps fval.simps s l(1) by (simp add: algebra_simps)
qed

definition reduce_wide :: "wide \<Rightarrow> felem" where
  "reduce_wide t = carry_0_to_1 (fproduct_copy_from_wide (wide_carry_top (fproduct_carry_wide t)))"

lemma reduce_wide_ok:
  assumes "uint t0 < 2 ^ 120" "uint t1 < 2 ^ 120" "uint t2 < 2 ^ 120" "uint t3 < 2 ^ 120" "uint t4 \<le> 5 * limb_max\<^sup>2"
  shows "fbound limb_red (reduce_wide (Wide t0 t1 t2 t3 t4))
    \<and> fval (reduce_wide (Wide t0 t1 t2 t3 t4)) mod prime25519 = wval (Wide t0 t1 t2 t3 t4) mod prime25519"
proof -
  have "uint t4 < 2 ^ 120" using assms(5) by (simp add: limb_max_def)
  then obtain r0 r1 r2 r3 r4 where r: "fproduct_carry_wide (Wide t0 t1 t2 t3 t4) = Wide r0 r1 r2 r3 r4"
    "uint r0 < 2 ^ 51" "uint r1 < 2 ^ 51" "uint r2 < 2 ^ 51" "uint r3 < 2 ^ 51" "uint r4 \<le> uint t4 + 2 ^ 70"
    "wval (Wide r0 r1 r2 r3 r4) = wval (Wide t0 t1 t2 t3 t4)"
    using carry_wide [OF assms(1-4)] by blast
  have "uint r4 \<le> 5 * limb_max\<^sup>2 + 2 ^ 70" using r(6) assms(5) by linarith
  moreover have "19 * ((5 * limb_max\<^sup>2 + 2 ^ 70) div 2 ^ 51) + 2 ^ 51 \<le> (2 ^ 64 :: int)" by (simp add: limb_max_def)
  ultimately obtain i0 i1 i2 i3 i4 where i: "fproduct_copy_from_wide (wide_carry_top (Wide r0 r1 r2 r3 r4)) = Fe i0 i1 i2 i3 i4"
    "uint i1 < 2 ^ 51" "uint i2 < 2 ^ 51" "uint i3 < 2 ^ 51" "uint i4 < 2 ^ 51"
    "fval (Fe i0 i1 i2 i3 i4) mod prime25519 = wval (Wide r0 r1 r2 r3 r4) mod prime25519"
    using wide_carry_top_ok [OF r(2-5)] by blast
  show ?thesis using carry_0_to_1_ok [OF i(2-5), of i0] i(6) r(7) unfolding reduce_wide_def r(1) i(1) by metis
qed

section \<open>Products\<close>

lemma product_identity:
  fixes w :: int
  shows "(a0 + w * a1 + w ^ 2 * a2 + w ^ 3 * a3 + w ^ 4 * a4) * (b0 + w * b1 + w ^ 2 * b2 + w ^ 3 * b3 + w ^ 4 * b4) =
    (a0 * b0 + 19 * a4 * b1 + 19 * a3 * b2 + 19 * a2 * b3 + 19 * a1 * b4)
    + w * (a1 * b0 + a0 * b1 + 19 * a4 * b2 + 19 * a3 * b3 + 19 * a2 * b4)
    + w ^ 2 * (a2 * b0 + a1 * b1 + a0 * b2 + 19 * a4 * b3 + 19 * a3 * b4)
    + w ^ 3 * (a3 * b0 + a2 * b1 + a1 * b2 + a0 * b3 + 19 * a4 * b4)
    + w ^ 4 * (a4 * b0 + a3 * b1 + a2 * b2 + a1 * b3 + a0 * b4)
    + (w ^ 5 - 19) * ((a1 * b4 + a2 * b3 + a3 * b2 + a4 * b1) + w * (a2 * b4 + a3 * b3 + a4 * b2) + w ^ 2 * (a3 * b4 + a4 * b3) + w ^ 3 * (a4 * b4))"
  by algebra

lemma widen_times: "(ucast (x :: u64) * ucast (y :: u64) :: u128) = word_of_int (uint x * uint y)"
  by (simp only: widen_hom wi_hom_mult)

lemma uint_19: "uint x \<le> limb_max \<Longrightarrow> uint (19 * x :: u64) = 19 * uint x" "uint x \<le> limb_max \<Longrightarrow> uint (x * 19 :: u64) = 19 * uint x"
  by (simp_all add: uint_times64 limb_max_def)

lemma limb_product:
  assumes "uint (x :: u64) \<le> limb_max" "uint (y :: u64) \<le> limb_max"
  shows "uint x * uint y \<le> limb_max\<^sup>2" "0 \<le> uint x * uint y"
  using mult_mono [OF assms] by (simp_all add: power2_eq_square limb_max_def)

definition prod_bound :: "int \<Rightarrow> int \<Rightarrow> bool" where "prod_bound k t \<longleftrightarrow> 0 \<le> t \<and> t \<le> k * limb_max\<^sup>2"

lemma prod_bound_sum:
  "prod_bound j s \<Longrightarrow> prod_bound k t \<Longrightarrow> prod_bound (j + k) (s + t)"
  "uint (x :: u64) \<le> limb_max \<Longrightarrow> uint (y :: u64) \<le> limb_max \<Longrightarrow> prod_bound 19 (19 * uint x * uint y)"
  "uint (x :: u64) \<le> limb_max \<Longrightarrow> uint (y :: u64) \<le> limb_max \<Longrightarrow> prod_bound 1 (uint x * uint y)"
  using limb_product [of x y] by (simp_all add: prod_bound_def algebra_simps)

lemma prod_bound_weaken: "prod_bound k t \<Longrightarrow> k \<le> j \<Longrightarrow> prod_bound j t"
  unfolding prod_bound_def by (meson mult_right_mono order_trans zero_le_power2)

lemma reduce_int_ok:
  assumes "prod_bound 77 T0" "prod_bound 77 T1" "prod_bound 77 T2" "prod_bound 77 T3" "prod_bound 5 T4"
  shows "fbound limb_red (reduce_wide (Wide (word_of_int T0) (word_of_int T1) (word_of_int T2) (word_of_int T3) (word_of_int T4)))
    \<and> fval (reduce_wide (Wide (word_of_int T0) (word_of_int T1) (word_of_int T2) (word_of_int T3) (word_of_int T4))) mod prime25519
      = (T0 + 2 ^ 51 * T1 + 2 ^ 102 * T2 + 2 ^ 153 * T3 + 2 ^ 204 * T4) mod prime25519"
proof -
  note bounds = assms [unfolded prod_bound_def]
  have m: "77 * limb_max\<^sup>2 < 2 ^ 120" "5 * limb_max\<^sup>2 < 2 ^ 120" by (simp_all add: limb_max_def)
  have u: "uint (word_of_int T0 :: u128) = T0" "uint (word_of_int T1 :: u128) = T1" "uint (word_of_int T2 :: u128) = T2"
    "uint (word_of_int T3 :: u128) = T3" "uint (word_of_int T4 :: u128) = T4"
    using bounds m by (simp_all add: uint_small128)
  have "uint (word_of_int T0 :: u128) < 2 ^ 120" "uint (word_of_int T1 :: u128) < 2 ^ 120" "uint (word_of_int T2 :: u128) < 2 ^ 120"
    "uint (word_of_int T3 :: u128) < 2 ^ 120" "uint (word_of_int T4 :: u128) \<le> 5 * limb_max\<^sup>2"
    unfolding u using bounds m by linarith+
  from reduce_wide_ok [OF this] show ?thesis unfolding wval.simps u .
qed

lemma fmul_reduce: "fmul_fmul a b = reduce_wide (fmul_mul_shift_reduce (Wide 0 0 0 0 0) a b)"
  by (simp add: fmul_fmul_def reduce_wide_def Let_def)

lemma shift_reduce_products:
  assumes "fbound limb_max (Fe a0 a1 a2 a3 a4)"
  shows "fmul_mul_shift_reduce (Wide 0 0 0 0 0) (Fe a0 a1 a2 a3 a4) (Fe b0 b1 b2 b3 b4) =
    Wide (word_of_int (uint a0 * uint b0 + 19 * uint a4 * uint b1 + 19 * uint a3 * uint b2 + 19 * uint a2 * uint b3 + 19 * uint a1 * uint b4))
      (word_of_int (uint a1 * uint b0 + uint a0 * uint b1 + 19 * uint a4 * uint b2 + 19 * uint a3 * uint b3 + 19 * uint a2 * uint b4))
      (word_of_int (uint a2 * uint b0 + uint a1 * uint b1 + uint a0 * uint b2 + 19 * uint a4 * uint b3 + 19 * uint a3 * uint b4))
      (word_of_int (uint a3 * uint b0 + uint a2 * uint b1 + uint a1 * uint b2 + uint a0 * uint b3 + 19 * uint a4 * uint b4))
      (word_of_int (uint a4 * uint b0 + uint a3 * uint b1 + uint a2 * uint b2 + uint a1 * uint b3 + uint a0 * uint b4))"
proof -
  have "uint (19 * a1) = 19 * uint a1" "uint (19 * a2) = 19 * uint a2" "uint (19 * a3) = 19 * uint a3" "uint (19 * a4) = 19 * uint a4"
    using assms by (simp_all only: fbound.simps uint_19)
  then show ?thesis
    by (simp only: fmul_mul_shift_reduce.simps Let_def fproduct_sum_scalar_multiplication.simps fmul_shift_reduce.simps widen_times wi_hom_add add_0)
qed

lemma product_bounds:
  assumes "fbound limb_max (Fe a0 a1 a2 a3 a4)" "fbound limb_max (Fe b0 b1 b2 b3 b4)"
  shows "prod_bound 77 (uint a0 * uint b0 + 19 * uint a4 * uint b1 + 19 * uint a3 * uint b2 + 19 * uint a2 * uint b3 + 19 * uint a1 * uint b4)"
    "prod_bound 77 (uint a1 * uint b0 + uint a0 * uint b1 + 19 * uint a4 * uint b2 + 19 * uint a3 * uint b3 + 19 * uint a2 * uint b4)"
    "prod_bound 77 (uint a2 * uint b0 + uint a1 * uint b1 + uint a0 * uint b2 + 19 * uint a4 * uint b3 + 19 * uint a3 * uint b4)"
    "prod_bound 77 (uint a3 * uint b0 + uint a2 * uint b1 + uint a1 * uint b2 + uint a0 * uint b3 + 19 * uint a4 * uint b4)"
    "prod_bound 5 (uint a4 * uint b0 + uint a3 * uint b1 + uint a2 * uint b2 + uint a1 * uint b3 + uint a0 * uint b4)"
  using assms unfolding fbound.simps
  by - (rule prod_bound_weaken, (rule prod_bound_sum | (simp; fail))+)+

lemma fmul_ok:
  assumes "fbound limb_max a" "fbound limb_max b"
  shows "fbound limb_red (fmul_fmul a b)" "congruent (fval (fmul_fmul a b)) (fval a * fval b)"
proof -
  obtain a0 a1 a2 a3 a4 b0 b1 b2 b3 b4 where ab: "a = Fe a0 a1 a2 a3 a4" "b = Fe b0 b1 b2 b3 b4" by (cases a, cases b) blast
  note bd = assms [unfolded ab fbound.simps]
  let ?W = "2 ^ 51 :: int"
  have pw: "(2 :: int) ^ 102 = ?W ^ 2" "(2 :: int) ^ 153 = ?W ^ 3" "(2 :: int) ^ 204 = ?W ^ 4" by simp_all
  have pr: "?W ^ 5 - 19 = prime25519" by (simp add: prime25519_def)
  have "fbound limb_red (fmul_fmul a b) \<and> fval (fmul_fmul a b) mod prime25519 = fval a * fval b mod prime25519"
    unfolding fmul_reduce ab shift_reduce_products [OF assms(1) [unfolded ab]] fval.simps pw product_identity pr mod_mult_self2
    unfolding pw [symmetric]
    by (rule reduce_int_ok [OF product_bounds [OF assms [unfolded ab]]])
  then show "fbound limb_red (fmul_fmul a b)" "congruent (fval (fmul_fmul a b)) (fval a * fval b)" by (simp_all add: congruent_def)
qed

lemma square_products:
  assumes "fbound limb_max a"
  shows "fsquare_products a = fmul_mul_shift_reduce (Wide 0 0 0 0 0) a a"
proof -
  obtain r0 r1 r2 r3 r4 where a: "a = Fe r0 r1 r2 r3 r4" by (cases a) blast
  note bd = assms [unfolded a fbound.simps limb_max_def]
  have d: "uint (r0 * 2) = 2 * uint r0" "uint (r1 * 2) = 2 * uint r1" "uint (r2 * 2 * 19) = 38 * uint r2"
    "uint (r4 * 19) = 19 * uint r4" "uint (r4 * 19 * 2) = 38 * uint r4" "uint (r3 * 19) = 19 * uint r3"
    using bd by (simp_all add: uint_times64)
  show ?thesis
    unfolding a shift_reduce_products [OF assms [unfolded a]] fsquare_products.simps Let_def widen_times d wi_hom_add
    by (simp add: algebra_simps)
qed

lemma square_eq_mul: "fbound limb_max a \<Longrightarrow> fsquare_fsquare a = fmul_fmul a a"
  by (simp add: fsquare_fsquare_def fmul_fmul_def square_products)

lemma fbound_mono: "fbound m a \<Longrightarrow> m \<le> n \<Longrightarrow> fbound n a"
  by (cases a) auto

lemma limb_order: "limb_red \<le> limb_max" "limb_red + limb_red \<le> limb_max" "limb_max = 2 ^ 54 + limb_red"
  by (simp_all add: limb_red_def limb_max_def)

section \<open>Sums, differences and small multiples\<close>

lemma fsum_ok:
  assumes "fbound m a" "fbound n b" "m + n < 2 ^ 64"
  shows "fbound (m + n) (fsum a b)" "fval (fsum a b) = fval a + fval b"
proof -
  obtain a0 a1 a2 a3 a4 b0 b1 b2 b3 b4 where ab: "a = Fe a0 a1 a2 a3 a4" "b = Fe b0 b1 b2 b3 b4" by (cases a, cases b) blast
  note bd = assms [unfolded ab fbound.simps]
  have "uint (a0 + b0) = uint a0 + uint b0" "uint (a1 + b1) = uint a1 + uint b1" "uint (a2 + b2) = uint a2 + uint b2"
    "uint (a3 + b3) = uint a3 + uint b3" "uint (a4 + b4) = uint a4 + uint b4"
    by (rule uint_add64; use bd in linarith)+
  note u = this
  show "fbound (m + n) (fsum a b)" using bd unfolding ab fsum.simps fbound.simps u by linarith
  show "fval (fsum a b) = fval a + fval b" unfolding ab fsum.simps fval.simps u by (simp add: algebra_simps)
qed

lemma limb_difference:
  fixes a b k :: u64
  assumes "uint a \<le> limb_red" "uint b \<le> limb_red" "limb_red \<le> uint k" "uint k \<le> 2 ^ 54"
  shows "uint ((b + k) - a) = uint b + uint k - uint a" "uint ((b + k) - a) \<le> limb_max"
proof -
  have "uint (b + k) = uint b + uint k" by (rule uint_add64, use assms in \<open>simp add: limb_red_def\<close>)
  moreover have "uint a \<le> uint b + uint k" using assms uint_bounds64(1) [of b] by linarith
  ultimately show "uint ((b + k) - a) = uint b + uint k - uint a" by (simp add: uint_sub_if')
  then show "uint ((b + k) - a) \<le> limb_max" using assms uint_bounds64(1) [of a] limb_order(3) by linarith
qed

lemma fdifference_ok:
  assumes "fbound limb_red a" "fbound limb_red b"
  shows "fbound limb_max (fdifference a b)" "congruent (fval (fdifference a b)) (fval b - fval a)"
proof -
  obtain a0 a1 a2 a3 a4 b0 b1 b2 b3 b4 where ab: "a = Fe a0 a1 a2 a3 a4" "b = Fe b0 b1 b2 b3 b4" by (cases a, cases b) blast
  note bd = assms [unfolded ab fbound.simps]
  have k: "limb_red \<le> uint (0x3fffffffffff68 :: u64)" "uint (0x3fffffffffff68 :: u64) \<le> 2 ^ 54"
    "limb_red \<le> uint (0x3ffffffffffff8 :: u64)" "uint (0x3ffffffffffff8 :: u64) \<le> 2 ^ 54" by (simp_all add: limb_red_def)
  note d = limb_difference [of a0 b0, OF _ _ k(1,2)] limb_difference [of a1 b1, OF _ _ k(3,4)] limb_difference [of a2 b2, OF _ _ k(3,4)]
    limb_difference [of a3 b3, OF _ _ k(3,4)] limb_difference [of a4 b4, OF _ _ k(3,4)]
  show "fbound limb_max (fdifference a b)" using bd d unfolding ab fdifference.simps fbound.simps by blast
  have "uint (0x3fffffffffff68 :: u64) = 0x3fffffffffff68" "uint (0x3ffffffffffff8 :: u64) = 0x3ffffffffffff8" by simp_all
  note e = d(1,3,5,7,9) [unfolded this]
  have "fval (fdifference a b) = fval b - fval a + prime25519 * 8"
    unfolding ab fdifference.simps fval.simps
    by (simp only: e bd) (simp add: prime25519_def algebra_simps)
  then show "congruent (fval (fdifference a b)) (fval b - fval a)" unfolding congruent_def by (simp only: mod_mult_self2)
qed

lemma fscalar_ok:
  assumes "fbound limb_max b" "uint s < 2 ^ 17"
  shows "fbound (2 ^ 52) (fscalar b s)" "congruent (fval (fscalar b s)) (fval b * uint s)"
proof -
  obtain b0 b1 b2 b3 b4 where b: "b = Fe b0 b1 b2 b3 b4" by (cases b) blast
  note bd = assms(1) [unfolded b fbound.simps]
  have u: "uint (ucast x * ucast s :: u128) = uint x * uint s" "uint (ucast x * ucast s :: u128) < 2 ^ 72"
    if "uint x \<le> limb_max" for x :: u64
  proof -
    have "uint x * uint s \<le> limb_max * 2 ^ 17" using that assms(2) by (intro mult_mono) (simp_all add: limb_max_def)
    then show "uint (ucast x * ucast s :: u128) = uint x * uint s"
      unfolding widen_times by (intro uint_small128) (simp_all add: limb_max_def)
    then show "uint (ucast x * ucast s :: u128) < 2 ^ 72" using \<open>uint x * uint s \<le> limb_max * 2 ^ 17\<close> by (simp add: limb_max_def)
  qed
  let ?w = "Wide (ucast b0 * ucast s) (ucast b1 * ucast s) (ucast b2 * ucast s) (ucast b3 * ucast s) (ucast b4 * ucast s)"
  have l: "uint (ucast b0 * ucast s :: u128) < 2 ^ 120" "uint (ucast b1 * ucast s :: u128) < 2 ^ 120" "uint (ucast b2 * ucast s :: u128) < 2 ^ 120"
    "uint (ucast b3 * ucast s :: u128) < 2 ^ 120" "uint (ucast b4 * ucast s :: u128) < 2 ^ 120" using u(2) bd by force+
  obtain r0 r1 r2 r3 r4 where r: "fproduct_carry_wide ?w = Wide r0 r1 r2 r3 r4"
    "uint r0 < 2 ^ 51" "uint r1 < 2 ^ 51" "uint r2 < 2 ^ 51" "uint r3 < 2 ^ 51" "uint r4 \<le> uint (ucast b4 * ucast s :: u128) + 2 ^ 70"
    "wval (Wide r0 r1 r2 r3 r4) = wval ?w" using carry_wide [OF l] by blast
  have "uint r4 \<le> 2 ^ 73" using r(6) u(2) [of b4] bd by simp
  moreover have "19 * (2 ^ 73 div 2 ^ 51) + 2 ^ 51 \<le> (2 ^ 64 :: int)" by simp
  ultimately obtain i0 i1 i2 i3 i4 where i: "fproduct_copy_from_wide (wide_carry_top (Wide r0 r1 r2 r3 r4)) = Fe i0 i1 i2 i3 i4"
    "uint i0 \<le> 2 ^ 51 + 19 * (2 ^ 73 div 2 ^ 51)" "uint i1 < 2 ^ 51" "uint i2 < 2 ^ 51" "uint i3 < 2 ^ 51" "uint i4 < 2 ^ 51"
    "fval (Fe i0 i1 i2 i3 i4) mod prime25519 = wval (Wide r0 r1 r2 r3 r4) mod prime25519"
    using wide_carry_top_ok [OF r(2-5)] by blast
  have f: "fscalar b s = Fe i0 i1 i2 i3 i4" using i(1) by (simp only: b fscalar.simps Let_def r(1))
  show "fbound (2 ^ 52) (fscalar b s)" using i(2-6) unfolding f fbound.simps by simp
  have "wval ?w = fval b * uint s" using u(1) bd unfolding b wval.simps fval.simps by (simp add: algebra_simps)
  then show "congruent (fval (fscalar b s)) (fval b * uint s)" unfolding f congruent_def using i(7) r(7) by metis
qed

end
