(* ===== verification/Curve25519Ladder.thy ===== *)
theory Curve25519Ladder
  imports Curve25519Facts
begin

text \<open>
  The 64-bit arithmetic satisfies the interface of an implementation of the field, its inversion raises to the power
  \<open>p - 2\<close>, and its ladder walks through the points of the reference.
\<close>

section \<open>The arithmetic as an implementation of the field\<close>

interpretation f64: field_impl fval "fbound limb_red" "fbound limb_max" fmul_fmul fsum "\<lambda>a b. fdifference b a" fsquare_fsquare
proof
  fix a b
  show "fbound limb_red a \<Longrightarrow> fbound limb_max a" by (rule fbound_mono [OF _ limb_order(1)])
  show "fbound limb_max a \<Longrightarrow> fbound limb_max b \<Longrightarrow> fbound limb_red (fmul_fmul a b)" by (rule fmul_ok)
  show "fbound limb_max a \<Longrightarrow> fbound limb_max b \<Longrightarrow> congruent (fval (fmul_fmul a b)) (fval a * fval b)" by (rule fmul_ok)
  show "fbound limb_max a \<Longrightarrow> fsquare_fsquare a = fmul_fmul a a" by (rule square_eq_mul)
  have "limb_red + limb_red < 2 ^ 64" by (simp add: limb_red_def)
  note s = fsum_ok [OF _ _ this]
  show "fbound limb_red a \<Longrightarrow> fbound limb_red b \<Longrightarrow> fbound limb_max (fsum a b)" by (rule fbound_mono [OF s(1) limb_order(2)])
  show "fbound limb_red a \<Longrightarrow> fbound limb_red b \<Longrightarrow> congruent (fval (fsum a b)) (fval a + fval b)" by (simp add: s(2))
  show "fbound limb_red a \<Longrightarrow> fbound limb_red b \<Longrightarrow> fbound limb_max (fdifference b a)" by (rule fdifference_ok)
  show "fbound limb_red a \<Longrightarrow> fbound limb_red b \<Longrightarrow> congruent (fval (fdifference b a)) (fval a - fval b)" by (rule fdifference_ok)
qed

section \<open>Inversion\<close>

lemma times_pow:
  assumes "f64.tight_rep f (z ^ i)" "0 < n"
  shows "f64.tight_rep (fsquare_fsquare_times f n) (z ^ (2 ^ n * i))"
proof -
  have "fsquare_fsquare_times f n = (fsquare_fsquare ^^ n) f"
    using assms(2) by (cases n) (simp_all add: fsquare_fsquare_times_def funpow_swap1)
  then show ?thesis using f64.pow_sq_times [OF assms(1)] by simp
qed

lemma let_pow:
  "f64.tight_rep e (z ^ i) \<Longrightarrow> (\<And>v. f64.tight_rep v (z ^ i) \<Longrightarrow> f64.tight_rep (f v) (z ^ j)) \<Longrightarrow> f64.tight_rep (Let e f) (z ^ j)"
  by (simp add: Let_def)

lemma crecip_ok:
  assumes "f64.tight_rep f z"
  shows "f64.tight_rep (crecip_crecip f) (z ^ nat (prime25519 - 2))"
proof -
  have one: "f64.tight_rep f (z ^ 1)" using assms by simp
  have "\<exists>e. f64.tight_rep (crecip_crecip f) (z ^ e) \<and> e = 2 ^ 255 - 21"
    unfolding crecip_crecip_def
    by (intro exI conjI, (rule let_pow, (rule times_pow f64.pow_mul; (assumption | rule one | simp; fail)))+)
      (rule f64.pow_mul, assumption, assumption, simp)
  then show ?thesis by (simp add: prime25519_def)
qed

section \<open>The ladder\<close>

lemma scalar_sum_ok:
  assumes "f64.loose_rep e E" "f64.tight_rep a A"
  shows "f64.loose_rep (fsum (fscalar e 121665) a) (121665 * E + A)"
proof -
  have b: "fbound limb_max e" "congruent (fval e) E" "fbound limb_red a" "congruent (fval a) A"
    using assms by (simp_all add: f64.loose_rep_def f64.tight_rep_def)
  have s: "fbound (2 ^ 52) (fscalar e 121665)" "congruent (fval (fscalar e 121665)) (fval e * 121665)"
    using fscalar_ok [OF b(1), of 121665] by simp_all
  have "2 ^ 52 + limb_red < 2 ^ 64" "2 ^ 52 + limb_red \<le> limb_max" by (simp_all add: limb_red_def limb_max_def)
  then have "fbound limb_max (fsum (fscalar e 121665) a)" "fval (fsum (fscalar e 121665) a) = fval (fscalar e 121665) + fval a"
    using fsum_ok [OF s(1) b(3)] fbound_mono by blast+
  moreover have "congruent (fval (fscalar e 121665)) (121665 * E)"
    using congruent_trans [OF s(2) congruent_arith(1) [OF b(2) congruent_refl]] by (simp add: mult.commute)
  ultimately show ?thesis using congruent_arith(2) [OF _ b(4)] by (simp add: f64.loose_rep_def)
qed

definition prep :: "point \<Rightarrow> xz \<Rightarrow> bool" where
  "prep p q \<longleftrightarrow> f64.tight_rep (fst p) (fst q) \<and> f64.tight_rep (snd p) (snd q)"

lemma rep_eq: "f64.tight_rep f x \<Longrightarrow> x = y \<Longrightarrow> f64.tight_rep f y"
  by simp

lemma double_add_ok:
  assumes "prep p P" "prep pq Q" "f64.tight_rep qx u" "addanddouble_fmonty p pq qx = (pp, ppq, p', pq')" "mont_double_add u (P, Q) = (P', Q')"
  shows "prep pp P' \<and> prep ppq Q'"
proof -
  obtain x z x' z' X Z X' Z' where eqs: "p = (x, z)" "pq = (x', z')" "P = (X, Z)" "Q = (X', Z')" by (meson surj_pair)
  have t: "f64.tight_rep x X" "f64.tight_rep z Z" "f64.tight_rep x' X'" "f64.tight_rep z' Z'"
    using assms(1,2) by (simp_all add: prep_def eqs)
  note r = f64.rep_intros t assms(3)
  define a b c d where "a = fsum x z" and "b = fdifference z x" and "c = fsum x' z'" and "d = fdifference z' x'"
  have l: "f64.loose_rep a (X + Z)" "f64.loose_rep b (X - Z)" "f64.loose_rep c (X' + Z')" "f64.loose_rep d (X' - Z')"
    unfolding a_def b_def c_def d_def by (intro r)+
  define cb da aa bb where "cb = fmul_fmul c b" and "da = fmul_fmul a d" and "aa = fsquare_fsquare a" and "bb = fsquare_fsquare b"
  have m: "f64.tight_rep cb ((X' + Z') * (X - Z))" "f64.tight_rep da ((X + Z) * (X' - Z'))" "f64.tight_rep aa ((X + Z)\<^sup>2)" "f64.tight_rep bb ((X - Z)\<^sup>2)"
    unfolding cb_def da_def aa_def bb_def by (intro r l)+
  define e where "e = fdifference bb aa"
  have e: "f64.loose_rep e ((X + Z)\<^sup>2 - (X - Z)\<^sup>2)" unfolding e_def by (intro r m)
  have "pp = (fmul_fmul aa bb, fmul_fmul (fsum (fscalar e 121665) aa) e)"
    "ppq = (fsquare_fsquare (fsum cb da), fmul_fmul (fsquare_fsquare (fdifference da cb)) qx)"
    using assms(4) by (simp_all add: eqs a_def b_def c_def d_def cb_def da_def aa_def bb_def e_def fsquare_fsquare_times_def Let_def)
  moreover have "P' = ((X + Z)\<^sup>2 * (X - Z)\<^sup>2 mod prime25519, ((X + Z)\<^sup>2 - (X - Z)\<^sup>2) * ((X + Z)\<^sup>2 + 121665 * ((X + Z)\<^sup>2 - (X - Z)\<^sup>2)) mod prime25519)"
    "Q' = (((X' - Z') * (X + Z) + (X' + Z') * (X - Z))\<^sup>2 mod prime25519, u * ((X' - Z') * (X + Z) - (X' + Z') * (X - Z))\<^sup>2 mod prime25519)"
    using assms(5) by (simp_all only: mont_double_add_def eqs Let_def prod.case prod.inject)
  moreover have "f64.tight_rep (fmul_fmul aa bb) ((X + Z)\<^sup>2 * (X - Z)\<^sup>2)" by (intro r m)
  moreover have "f64.tight_rep (fmul_fmul (fsum (fscalar e 121665) aa) e) (((X + Z)\<^sup>2 - (X - Z)\<^sup>2) * ((X + Z)\<^sup>2 + 121665 * ((X + Z)\<^sup>2 - (X - Z)\<^sup>2)))"
    by (rule rep_eq [OF f64.rep_mul [OF scalar_sum_ok [OF e m(3)] e]]) (simp add: algebra_simps)
  moreover have "f64.tight_rep (fsquare_fsquare (fsum cb da)) (((X' - Z') * (X + Z) + (X' + Z') * (X - Z))\<^sup>2)"
    by (rule rep_eq [OF f64.rep_sq [OF f64.rep_add [OF m(1,2)]]]) (simp add: algebra_simps)
  moreover have "f64.tight_rep (fmul_fmul (fsquare_fsquare (fdifference da cb)) qx) (u * ((X' - Z') * (X + Z) - (X' + Z') * (X - Z))\<^sup>2)"
    by (rule rep_eq [OF f64.rep_mul [OF f64.tight_is_loose [OF f64.rep_sq [OF f64.rep_sub [OF m(1,2)]]] f64.tight_is_loose [OF assms(3)]]]) algebra
  ultimately show ?thesis by (simp only: prep_def fst_conv snd_conv f64.rep_mod simp_thms)
qed

lemma swap_step: "point_swap_conditional_step a b (0 - of_bool c) = cond_swap c (a, b)"
proof -
  have "a XOR (a XOR b) = b" "b XOR (a XOR b) = a" by (metis xor.assoc xor.commute xor_self_eq xor.right_neutral)+
  then show ?thesis by (cases c) (simp_all add: point_swap_conditional_step_def cond_swap_def)
qed

lemma swap5: "point_swap_conditional5 a b (0 - of_bool c) = cond_swap c (a, b)"
  by (cases a, cases b) (simp only: point_swap_conditional5.simps swap_step, simp add: cond_swap_def)

lemma swap_ok: "point_swap_conditional p q (of_bool c) = cond_swap c (p, q)"
  by (cases p, cases q) (simp only: point_swap_conditional.simps swap5 Let_def, simp add: cond_swap_def)

lemma top_bit: "(ucast (drop_bit 7 (byt :: u8)) :: u64) = of_bool (bit byt 7)"
proof (rule bit_word_eqI)
  fix n assume "n < LENGTH(64)"
  show "bit (ucast (drop_bit 7 byt) :: u64) n \<longleftrightarrow> bit (of_bool (bit byt 7) :: u64) n"
    using bit_imp_le_length [of byt "7 + n"] by (cases "n = 0") (auto simp: bit_simps)
qed

definition lrep :: "point \<times> point \<Rightarrow> xz \<times> xz \<Rightarrow> bool" where
  "lrep l s \<longleftrightarrow> prep (fst l) (fst s) \<and> prep (snd l) (snd s)"

lemma lrep_swap: "lrep l s \<Longrightarrow> lrep (cond_swap c l) (cond_swap c s)"
  by (simp add: lrep_def cond_swap_def)

lemma small_step:
  assumes "lrep (nq, nqpq) s" "f64.tight_rep (fst q) u"
  shows "\<exists>a b c d. ladder_smallloop_cmult_small_loop_step (nq, nqpq, nq2, nqpq2) q byt = (a, b, c, d) \<and> lrep (c, d) (mont_step u s (bit byt 7))"
proof -
  obtain p pq where 1: "cond_swap (bit byt 7) (nq, nqpq) = (p, pq)" by (meson surj_pair)
  obtain P Q where 2: "cond_swap (bit byt 7) s = (P, Q)" by (meson surj_pair)
  have l: "prep p P" "prep pq Q" using lrep_swap [OF assms(1), of "bit byt 7"] by (simp_all add: 1 2 lrep_def)
  obtain pp ppq p' pq' where 3: "addanddouble_fmonty p pq (fst q) = (pp, ppq, p', pq')" by (cases "addanddouble_fmonty p pq (fst q)") blast
  obtain P' Q' where 4: "mont_double_add u (P, Q) = (P', Q')" by (meson surj_pair)
  have "lrep (pp, ppq) (P', Q')" using double_add_ok [OF l assms(2) 3 4] by (simp add: lrep_def)
  then have "lrep (cond_swap (bit byt 7) (pp, ppq)) (mont_step u s (bit byt 7))" by (simp add: mont_step_def 2 4 lrep_swap)
  then show ?thesis
    by (cases "cond_swap (bit byt 7) (pp, ppq)") (simp add: top_bit swap_ok 1 3)
qed

lemma double_step:
  assumes "lrep (nq, nqpq) s" "f64.tight_rep (fst q) u"
  shows "\<exists>a b c d. ladder_smallloop_cmult_small_loop_double_step (nq, nqpq, nq2, nqpq2) q byt = (a, b, c, d)
    \<and> lrep (a, b) (foldl (mont_step u) s [bit byt 7, bit byt 6])"
proof -
  obtain a b c d where 1: "ladder_smallloop_cmult_small_loop_step (nq, nqpq, nq2, nqpq2) q byt = (a, b, c, d)" "lrep (c, d) (mont_step u s (bit byt 7))"
    using small_step [OF assms] by blast
  obtain e f g h where 2: "ladder_smallloop_cmult_small_loop_step (c, d, a, b) q (push_bit 1 byt) = (e, f, g, h)"
    "lrep (g, h) (mont_step u (mont_step u s (bit byt 7)) (bit (push_bit 1 byt) 7))"
    using small_step [OF 1(2) assms(2)] by blast
  have b: "bit (push_bit 1 byt) 7 = bit byt 6" unfolding bit_push_bit_iff by simp
  have "ladder_smallloop_cmult_small_loop_double_step (nq, nqpq, nq2, nqpq2) q byt = (g, h, e, f)"
    unfolding ladder_smallloop_cmult_small_loop_double_step_def 1(1) Let_def prod.case 2(1) ..
  then show ?thesis using 2(2) unfolding b by auto
qed

lemma byte_bits_Suc:
  assumes "i \<le> 3"
  shows "map (\<lambda>j. bit (byt :: u8) (7 - j)) [0..<2 * Suc i] = [bit byt 7, bit byt 6] @ map (\<lambda>j. bit (push_bit 2 byt) (7 - j)) [0..<2 * i]"
proof -
  have "i \<in> {0, 1, 2, 3}" using assms by auto
  then show ?thesis unfolding bit_push_bit_iff by (elim insertE emptyE) (simp_all add: upt_rec)
qed

lemma small_loop:
  assumes "lrep (nq, nqpq) s" "f64.tight_rep (fst q) u" "i \<le> 4"
  shows "\<exists>a b c d. ladder_smallloop_cmult_small_loop (nq, nqpq, nq2, nqpq2) q byt i = (a, b, c, d)
    \<and> lrep (a, b) (foldl (mont_step u) s (map (\<lambda>j. bit byt (7 - j)) [0..<2 * i]))"
  using assms(1,3)
proof (induction i arbitrary: nq nqpq nq2 nqpq2 byt s)
  case (Suc i)
  obtain a b c d where 1: "ladder_smallloop_cmult_small_loop_double_step (nq, nqpq, nq2, nqpq2) q byt = (a, b, c, d)"
    "lrep (a, b) (foldl (mont_step u) s [bit byt 7, bit byt 6])" using double_step [OF Suc.prems(1) assms(2)] by blast
  show ?case using Suc.IH [OF 1(2), of c d "push_bit 2 byt"] Suc.prems(2) by (subst byte_bits_Suc) (simp_all add: 1(1))
qed simp

lemma big_loop:
  assumes "lrep (nq, nqpq) s" "f64.tight_rep (fst q) u" "i \<le> length n1" "i \<le> 32"
  shows "\<exists>a b c d. ladder_bigloop_cmult_big_loop n1 (nq, nqpq, nq2, nqpq2) q i = (a, b, c, d)
    \<and> lrep (a, b) (foldl (mont_step u) s (scalar_bits (8 * i) (read_le 32 n1)))"
  using assms(1,3,4)
proof (induction i arbitrary: nq nqpq nq2 nqpq2 s)
  case (Suc i)
  obtain a b c d where 1: "ladder_smallloop_cmult_small_loop (nq, nqpq, nq2, nqpq2) q (n1 ! i) 4 = (a, b, c, d)"
    "lrep (a, b) (foldl (mont_step u) s (map (\<lambda>j. bit (n1 ! i) (7 - j)) [0..<2 * 4]))"
    using small_loop [OF Suc.prems(1) assms(2), of 4] by blast
  show ?case using Suc.IH [OF 1(2), of c d] Suc.prems(2,3) by (subst scalar_bits_Suc) (simp_all add: 1(1))
qed (simp add: scalar_bits_def)

lemma ladder_ok:
  assumes "f64.tight_rep (fst q) u" "f64.tight_rep (snd q) 1" "length n1 = 32"
  shows "prep (ladder_cmult n1 q) (fst (mont_ladder u (scalar_bits 256 (read_le 32 n1))))"
proof -
  have "f64.tight_rep fone 1" "f64.tight_rep fzero 0" unfolding f64.tight_rep_def by (simp_all add: fone_def fzero_def limb_red_def)
  then have l: "lrep ((fone, fzero), q) ((1, 0), (u, 1))" using assms by (simp add: lrep_def prep_def)
  obtain a b c d where "ladder_bigloop_cmult_big_loop n1 ((fone, fzero), q, (fzero, fzero), (fzero, fzero)) q 32 = (a, b, c, d)"
    "lrep (a, b) (foldl (mont_step u) ((1, 0), (u, 1)) (scalar_bits (8 * 32) (read_le 32 n1)))"
    using big_loop [OF l assms(1) eq_refl [OF assms(3) [symmetric]] order.refl] by blast
  then show ?thesis by (simp add: ladder_cmult_def mont_ladder_def lrep_def)
qed

end
