(* ===== verification/Curve25519Bytes.thy ===== *)
theory Curve25519Bytes
  imports Curve25519Ladder
begin

text \<open>
  Keys as bytes in the 64-bit implementation: clamping a secret, expanding a coordinate to limbs, and contracting
  limbs to the bytes of the representative below the prime.
\<close>

section \<open>Clamping\<close>

lemma clamp_ok:
  assumes "length secret = 32"
  shows "read_le 32 (curve25519_clamp_secret secret) = clamped_scalar secret"
proof -
  obtain b r where r: "secret = b # r" "length r = 31" using assms by (cases secret) auto
  obtain m c where m: "r = m @ [c]" "length m = 30" using r(2) by (cases r rule: rev_cases) auto
  have v: "read_le 32 (x # m @ [y]) = unat x + 256 * (read_le 30 m + 2 ^ 240 * unat y)" for x y
  proof -
    have "read_le 31 (m @ [y]) = read_le 30 m + 2 ^ 240 * unat y" using read_le_append [of m 1 "[y]"] by (simp add: m(2))
    moreover have "read_le (Suc 31) (x # m @ [y]) = unat x + 256 * read_le 31 (m @ [y])" by (simp only: read_le.simps list.case)
    ultimately show ?thesis by simp
  qed
  have "curve25519_clamp_secret secret = (b AND 248) # m @ [(c AND 127) OR 64]"
    using m(2) by (simp add: curve25519_clamp_secret_def r m(1) list_update_append nth_append)
  moreover have "unat (b AND 248) = 8 * (unat b div 8)" "unat ((c AND 127) OR 64) = 64 + unat c mod 64"
    using clamp_low [of "unat b"] clamp_high [of "unat c"] unsigned_less [of b]
    by (simp_all add: unsigned_and_eq unsigned_or_eq)
  ultimately have l: "read_le 32 (curve25519_clamp_secret secret) = 8 * (unat b div 8) + 256 * (read_le 30 m + 2 ^ 240 * (64 + unat c mod 64))"
    by (simp only: v)
  define t where "t = unat b + 256 * read_le 30 m"
  have b: "unat b < 256" "read_le 30 m < 2 ^ 240" using unsigned_less [of b] read_le_below [of 30 m] by simp_all
  then have t: "t < 2 ^ 248" by (simp add: t_def)
  have "read_le 32 secret = t + 2 ^ 248 * unat c" by (simp add: r(1) m(1) v t_def algebra_simps)
  also have "\<dots> mod 2 ^ 254 = t + 2 ^ 248 * (unat c mod 64)"
    using t mod_mult2_eq [of "t + 2 ^ 248 * unat c" "2 ^ 248" 64] by simp
  finally have "read_le 32 secret mod 2 ^ 254 div 8 = unat b div 8 + 32 * read_le 30 m + 2 ^ 245 * (unat c mod 64)"
    by (simp add: t_def)
  then show ?thesis unfolding l clamped_scalar_def by (simp add: algebra_simps)
qed

section \<open>Expanding\<close>

lemma expand_limb:
  assumes "length bs = 32" "i + 8 \<le> 32" "k \<le> 13"
  shows "uint (drop_bit k (get64 (drop i bs)) AND limb_mask) = int (take_bit 51 (drop_bit (8 * i + k) (read_le 32 bs)))"
proof -
  have "read_le 8 (drop i bs) < 2 ^ 64" using read_le_below [of 8 "drop i bs"] by simp
  then have "uint (get64 (drop i bs)) = int (read_le 8 (drop i bs))" by (simp add: get64_def unsigned_of_nat take_bit_nat_eq_self_iff)
  moreover have "take_bit 51 (drop_bit k (take_bit 64 (drop_bit (8 * i) (read_le 32 bs)))) = take_bit 51 (drop_bit (8 * i + k) (read_le 32 bs))"
    using assms(3) by (simp add: drop_bit_take_bit min_absorb1 add.commute)
  moreover have "int n div 2 ^ k mod 2 ^ 51 = int (take_bit 51 (drop_bit k n))" for n
    by (simp add: take_bit_eq_mod drop_bit_eq_div of_nat_mod of_nat_div)
  ultimately show ?thesis using assms(2) unfolding uint_mask64 uint_shift by (simp only: read_le_slice [OF assms(1)]) simp
qed

lemma mod_exp_split: "(v :: nat) mod 2 ^ (m + n) = v mod 2 ^ m + 2 ^ m * (v div 2 ^ m mod 2 ^ n)"
  by (simp add: power_add mod_mult2_eq)

lemma limbs_sum:
  "(v :: nat) mod 2 ^ 255 = v mod 2 ^ 51 + 2 ^ 51 * (v div 2 ^ 51 mod 2 ^ 51) + 2 ^ 102 * (v div 2 ^ 102 mod 2 ^ 51)
     + 2 ^ 153 * (v div 2 ^ 153 mod 2 ^ 51) + 2 ^ 204 * (v div 2 ^ 204 mod 2 ^ 51)"
proof -
  have "(255 :: nat) = 204 + 51" "(204 :: nat) = 153 + 51" "(153 :: nat) = 102 + 51" "(102 :: nat) = 51 + 51" by simp_all
  then show ?thesis by (metis mod_exp_split)
qed

lemma fexpand_ok:
  assumes "length bs = 32"
  shows "f64.tight_rep (format_fexpand bs) (point_coordinate bs)"
proof -
  let ?l = "\<lambda>j. take_bit 51 (drop_bit j (read_le 32 bs))"
  have l: "uint (get64 bs AND limb_mask) = int (?l 0)" "uint (drop_bit 3 (get64 (drop 6 bs)) AND limb_mask) = int (?l 51)"
    "uint (drop_bit 6 (get64 (drop 12 bs)) AND limb_mask) = int (?l 102)" "uint (drop_bit 1 (get64 (drop 19 bs)) AND limb_mask) = int (?l 153)"
    "uint (drop_bit 12 (get64 (drop 24 bs)) AND limb_mask) = int (?l 204)"
    using expand_limb [OF assms, of 0 0] expand_limb [OF assms, of 6 3] expand_limb [OF assms, of 12 6]
      expand_limb [OF assms, of 19 1] expand_limb [OF assms, of 24 12] by simp_all
  have b: "int (?l j) \<le> limb_red" for j
    using take_bit_nat_less_exp [of 51 "drop_bit j (read_le 32 bs)"] by (simp add: limb_red_def)
  have "fval (format_fexpand bs) = point_coordinate bs"
    unfolding format_fexpand_def Let_def fval.simps l point_coordinate_def limbs_sum by (simp add: take_bit_eq_mod drop_bit_eq_div)
  moreover have "fbound limb_red (format_fexpand bs)" unfolding format_fexpand_def Let_def fbound.simps l by (intro conjI b)
  ultimately show ?thesis by (simp add: f64.tight_rep_def)
qed

section \<open>Carrying a whole element\<close>

lemma limb_carry:
  assumes "uint (t :: u64) < 2 ^ 63" "uint (s :: u64) < 2 ^ 63"
  shows "uint (t + drop_bit 51 s) = uint t + uint s div 2 ^ 51"
proof -
  have "uint s div 2 ^ 51 < 2 ^ 12" using assms(2) by (intro div_below) simp_all
  then show ?thesis using assms by (subst uint_add64) (simp_all add: uint_shift)
qed

lemma carry_pass:
  assumes "uint t0 < 2 ^ 52 - 1" "uint t1 < 2 ^ 52 - 1" "uint t2 < 2 ^ 52 - 1" "uint t3 < 2 ^ 52 - 1" "uint t4 < 2 ^ 52 - 1"
  shows "\<exists>r0 r1 r2 r3 r4. format_fcontract_first_carry_pass (Fe t0 t1 t2 t3 t4) = Fe r0 r1 r2 r3 r4
    \<and> uint r0 < 2 ^ 51 \<and> uint r1 < 2 ^ 51 \<and> uint r2 < 2 ^ 51 \<and> uint r3 < 2 ^ 51 \<and> uint r4 \<le> uint t4 + 1
    \<and> fval (Fe r0 r1 r2 r3 r4) = fval (Fe t0 t1 t2 t3 t4)"
proof -
  have d: "uint s div 2 ^ 51 \<le> 1" if "uint s < 2 ^ 52" for s :: u64 using div_below [of "2 ^ 51" "uint s" 2] that by simp
  define s1 where "s1 = t1 + drop_bit 51 t0"
  have 1: "uint s1 = uint t1 + uint t0 div 2 ^ 51" unfolding s1_def using assms by (intro limb_carry) simp_all
  then have b1: "uint s1 < 2 ^ 52" using d [of t0] assms by simp
  define s2 where "s2 = t2 + drop_bit 51 s1"
  have 2: "uint s2 = uint t2 + uint s1 div 2 ^ 51" unfolding s2_def using assms b1 by (intro limb_carry) simp_all
  then have b2: "uint s2 < 2 ^ 52" using d [of s1] b1 assms by simp
  define s3 where "s3 = t3 + drop_bit 51 s2"
  have 3: "uint s3 = uint t3 + uint s2 div 2 ^ 51" unfolding s3_def using assms b2 by (intro limb_carry) simp_all
  then have b3: "uint s3 < 2 ^ 52" using d [of s2] b2 assms by simp
  define s4 where "s4 = t4 + drop_bit 51 s3"
  have 4: "uint s4 = uint t4 + uint s3 div 2 ^ 51" unfolding s4_def using assms b3 by (intro limb_carry) simp_all
  have eq: "format_fcontract_first_carry_pass (Fe t0 t1 t2 t3 t4) = Fe (t0 AND limb_mask) (s1 AND limb_mask) (s2 AND limb_mask) (s3 AND limb_mask) s4"
    by (simp only: format_fcontract_first_carry_pass.simps Let_def s1_def s2_def s3_def s4_def)
  have low: "uint (s AND limb_mask) < 2 ^ 51" for s by (simp add: uint_mask64)
  have "fval (Fe (t0 AND limb_mask) (s1 AND limb_mask) (s2 AND limb_mask) (s3 AND limb_mask) s4) = fval (Fe t0 t1 t2 t3 t4)"
    unfolding fval.simps uint_mask64 carry_split by (rule carry_telescope [OF refl 1 refl 2 refl 3 refl 4])
  then show ?thesis using eq low 4 d [OF b3] by (metis add_left_mono)
qed

lemma carry_top_ok:
  assumes "uint b0 < 2 ^ 52" "uint b4 < 2 ^ 53"
  shows "\<exists>c0 c4. modulo_carry_top (Fe b0 b1 b2 b3 b4) = Fe c0 b1 b2 b3 c4 \<and> uint c0 = uint b0 + 19 * (uint b4 div 2 ^ 51)
    \<and> uint c4 = uint b4 mod 2 ^ 51 \<and> congruent (fval (Fe c0 b1 b2 b3 c4)) (fval (Fe b0 b1 b2 b3 b4))"
proof -
  let ?c = "uint b4 div 2 ^ 51"
  have c: "?c < 2 ^ 2" using assms(2) by (intro div_below) simp_all
  have "uint (19 * drop_bit 51 b4) = 19 * ?c" using c by (subst uint_times64) (simp_all add: uint_shift)
  then have 0: "uint (b0 + 19 * drop_bit 51 b4) = uint b0 + 19 * ?c" using c assms(1) by (subst uint_add64) simp_all
  have 4: "uint (b4 AND limb_mask) = uint b4 mod 2 ^ 51" by (rule uint_mask64)
  have "fval (Fe b0 b1 b2 b3 b4) = uint b0 + 2 ^ 51 * uint b1 + 2 ^ 102 * uint b2 + 2 ^ 153 * uint b3 + 2 ^ 204 * (uint b4 - 2 ^ 51 * ?c) + 2 ^ 255 * ?c"
    by (simp add: algebra_simps)
  then have "congruent (fval (Fe (b0 + 19 * drop_bit 51 b4) b1 b2 b3 (b4 AND limb_mask))) (fval (Fe b0 b1 b2 b3 b4))"
    unfolding congruent_def by (simp only: mod_prime_shift fval.simps 0 4 carry_split) (simp add: ac_simps)
  then show ?thesis using 0 4 by auto
qed

lemma first_full:
  assumes "fbound limb_red f"
  shows "\<exists>r0 r1 r2 r3 r4. format_fcontract_first_carry_full f = Fe r0 r1 r2 r3 r4
    \<and> uint r0 < 2 ^ 51 + 19 \<and> uint r1 < 2 ^ 51 \<and> uint r2 < 2 ^ 51 \<and> uint r3 < 2 ^ 51 \<and> uint r4 < 2 ^ 51
    \<and> congruent (fval (Fe r0 r1 r2 r3 r4)) (fval f)"
proof -
  obtain t0 t1 t2 t3 t4 where f: "f = Fe t0 t1 t2 t3 t4" by (cases f) blast
  have b: "uint t0 < 2 ^ 52 - 1" "uint t1 < 2 ^ 52 - 1" "uint t2 < 2 ^ 52 - 1" "uint t3 < 2 ^ 52 - 1" "uint t4 < 2 ^ 52 - 1"
    using assms by (simp_all add: f limb_red_def)
  obtain r0 r1 r2 r3 r4 where r: "format_fcontract_first_carry_pass f = Fe r0 r1 r2 r3 r4" "uint r0 < 2 ^ 51" "uint r1 < 2 ^ 51"
    "uint r2 < 2 ^ 51" "uint r3 < 2 ^ 51" "uint r4 \<le> uint t4 + 1" "fval (Fe r0 r1 r2 r3 r4) = fval f" using carry_pass [OF b] unfolding f by blast
  have l: "uint r0 < 2 ^ 52" "uint r4 < 2 ^ 53" using r(2,6) b(5) by simp_all
  obtain c0 c4 where c: "modulo_carry_top (Fe r0 r1 r2 r3 r4) = Fe c0 r1 r2 r3 c4" "uint c0 = uint r0 + 19 * (uint r4 div 2 ^ 51)"
    "uint c4 = uint r4 mod 2 ^ 51" "congruent (fval (Fe c0 r1 r2 r3 c4)) (fval (Fe r0 r1 r2 r3 r4))" using carry_top_ok [OF l] by blast
  have "uint r4 div 2 ^ 51 < 2" using r(6) b(5) by (intro div_below) simp_all
  then have "uint c0 < 2 ^ 51 + 19" "uint c4 < 2 ^ 51" using c(2,3) r(2) by simp_all
  then show ?thesis using r(1,3-5,7) c(1,4) unfolding format_fcontract_first_carry_full_def by metis
qed

lemma top_limb_full:
  fixes r0 r1 r2 r3 r4 :: int
  assumes "0 \<le> r0" "0 \<le> r1" "0 \<le> r2" "0 \<le> r3" "2 ^ 51 \<le> r4"
    "r0 + 2 ^ 51 * r1 + 2 ^ 102 * r2 + 2 ^ 153 * r3 + 2 ^ 204 * r4 < 2 ^ 255 + 19"
  shows "r0 < 19"
  using assms by simp

lemma second_full:
  assumes "uint t0 < 2 ^ 51 + 19" "uint t1 < 2 ^ 51" "uint t2 < 2 ^ 51" "uint t3 < 2 ^ 51" "uint t4 < 2 ^ 51"
  shows "\<exists>r0 r1 r2 r3 r4. format_fcontract_second_carry_full (Fe t0 t1 t2 t3 t4) = Fe r0 r1 r2 r3 r4
    \<and> uint r0 < 2 ^ 51 \<and> uint r1 < 2 ^ 51 \<and> uint r2 < 2 ^ 51 \<and> uint r3 < 2 ^ 51 \<and> uint r4 < 2 ^ 51
    \<and> congruent (fval (Fe r0 r1 r2 r3 r4)) (fval (Fe t0 t1 t2 t3 t4))"
proof -
  have b: "uint t0 < 2 ^ 52 - 1" "uint t1 < 2 ^ 52 - 1" "uint t2 < 2 ^ 52 - 1" "uint t3 < 2 ^ 52 - 1" "uint t4 < 2 ^ 52 - 1" using assms by simp_all
  have same: "format_fcontract_second_carry_pass (Fe t0 t1 t2 t3 t4) = format_fcontract_first_carry_pass (Fe t0 t1 t2 t3 t4)"
    by (simp only: format_fcontract_second_carry_pass.simps format_fcontract_first_carry_pass.simps)
  obtain r0 r1 r2 r3 r4 where r: "format_fcontract_first_carry_pass (Fe t0 t1 t2 t3 t4) = Fe r0 r1 r2 r3 r4" "uint r0 < 2 ^ 51" "uint r1 < 2 ^ 51"
    "uint r2 < 2 ^ 51" "uint r3 < 2 ^ 51" "uint r4 \<le> uint t4 + 1" "fval (Fe r0 r1 r2 r3 r4) = fval (Fe t0 t1 t2 t3 t4)"
    using carry_pass [OF b] by blast
  have l: "uint r0 < 2 ^ 52" "uint r4 < 2 ^ 53" using r(2,6) b(5) by simp_all
  obtain c0 c4 where c: "modulo_carry_top (Fe r0 r1 r2 r3 r4) = Fe c0 r1 r2 r3 c4" "uint c0 = uint r0 + 19 * (uint r4 div 2 ^ 51)"
    "uint c4 = uint r4 mod 2 ^ 51" "congruent (fval (Fe c0 r1 r2 r3 c4)) (fval (Fe r0 r1 r2 r3 r4))" using carry_top_ok [OF l] by blast
  have "fval (Fe t0 t1 t2 t3 t4) < 2 ^ 255 + 19" using assms by simp
  then have v: "fval (Fe r0 r1 r2 r3 r4) < 2 ^ 255 + 19" using r(7) by simp
  have d: "uint r4 div 2 ^ 51 < 2" using r(6) assms(5) by (intro div_below) simp_all
  have c0: "uint c0 < 2 ^ 51"
  proof (cases "uint r4 < 2 ^ 51")
    case False
    then have "2 ^ 51 \<le> uint r4" by simp
    then have "uint r0 < 19" using top_limb_full [OF _ _ _ _ _ v [unfolded fval.simps]] uint_bounds64(1) by blast
    then show ?thesis using c(2) d by simp
  qed (use c(2) r(2) in simp)
  then have z: "c0 AND limb_mask = c0" "drop_bit 51 c0 = 0" unfolding word_uint_eq_iff uint_mask64 uint_shift by simp_all
  have "format_fcontract_second_carry_full (Fe t0 t1 t2 t3 t4) = Fe c0 r1 r2 r3 c4"
    by (simp only: format_fcontract_second_carry_full_def same r(1) c(1) carry_0_to_1.simps z add_0_right)
  moreover have "uint c4 < 2 ^ 51" using c(3) by simp
  ultimately show ?thesis using c0 r(3-5) c(4) [unfolded r(7)] by blast
qed

section \<open>The representative below the prime\<close>

lemma top64: "drop_bit 63 (x :: u64) = of_bool (2 ^ 63 \<le> uint x)"
proof -
  have "uint x div 2 ^ 63 < 2" using uint_lt2p [of x] by (intro div_below) simp_all
  moreover have "2 ^ 63 \<le> uint x \<longleftrightarrow> 0 < uint x div 2 ^ 63" by (simp add: pos_imp_zdiv_pos_iff)
  moreover have "0 \<le> uint x div 2 ^ 63" by (simp add: pos_imp_zdiv_nonneg_iff)
  ultimately show ?thesis unfolding word_uint_eq_iff uint_shift by (cases "2 ^ 63 \<le> uint x") auto
qed

lemma eq_mask_ok: "u64_eq_mask a b = (if a = b then - 1 else 0)"
proof -
  have "2 ^ 63 \<le> uint x \<or> 2 ^ 63 \<le> uint (- x)" if "x \<noteq> 0" for x :: u64
  proof -
    have "uint x \<noteq> 0" using that by (simp add: uint_0_iff)
    then have "uint (- x) = 2 ^ 64 - uint x" using uint_lt2p [of x] by (simp add: uint_word_ariths zmod_zminus1_eq_if)
    then show ?thesis using uint_lt2p [of x] by simp linarith
  qed
  then have "drop_bit 63 (x OR - x) = of_bool (x \<noteq> 0)" for x :: u64 by (auto simp add: drop_bit_or top64)
  moreover have "NOT x + 1 = - x" for x :: u64 by (simp add: not_eq_complement)
  moreover have "a XOR b \<noteq> 0 \<longleftrightarrow> a \<noteq> b"
  proof -
    have "a XOR (a XOR b) = b" by (simp flip: xor.assoc)
    then show ?thesis by (cases "a XOR b = 0") auto
  qed
  ultimately show ?thesis by (simp add: u64_eq_mask_def Let_def)
qed

lemma gte_mask_ok:
  assumes "uint x < 2 ^ 63" "uint y < 2 ^ 63"
  shows "u64_gte_mask x y = (if uint y \<le> uint x then - 1 else 0)"
proof -
  have t: "drop_bit 63 x = 0" "drop_bit 63 y = 0" using assms by (simp_all add: top64)
  have "uint x - uint y < 2 ^ 63" "0 \<le> 2 ^ 63 + (uint x - uint y)" using assms uint_bounds64(1) [of x] uint_bounds64(1) [of y] by linarith+
  then have "2 ^ 63 \<le> uint (x - y) \<longleftrightarrow> \<not> uint y \<le> uint x" by (simp add: uint_sub_if')
  then have "drop_bit 63 (x - y) = of_bool (\<not> uint y \<le> uint x)" by (simp add: top64)
  then show ?thesis unfolding u64_gte_mask_def Let_def drop_bit_xor drop_bit_or t by simp
qed

lemma trim_ok:
  assumes "uint a0 < 2 ^ 51" "uint a1 < 2 ^ 51" "uint a2 < 2 ^ 51" "uint a3 < 2 ^ 51" "uint a4 < 2 ^ 51"
  shows "\<exists>r0 r1 r2 r3 r4. format_fcontract_trim (Fe a0 a1 a2 a3 a4) = Fe r0 r1 r2 r3 r4
    \<and> uint r0 < 2 ^ 51 \<and> uint r1 < 2 ^ 51 \<and> uint r2 < 2 ^ 51 \<and> uint r3 < 2 ^ 51 \<and> uint r4 < 2 ^ 51
    \<and> fval (Fe r0 r1 r2 r3 r4) = fval (Fe a0 a1 a2 a3 a4) mod prime25519"
proof -
  let ?big = "uint (0x7ffffffffffed :: u64) \<le> uint a0 \<and> a1 = limb_mask \<and> a2 = limb_mask \<and> a3 = limb_mask \<and> a4 = limb_mask"
  have g: "u64_gte_mask a0 0x7ffffffffffed = (if uint (0x7ffffffffffed :: u64) \<le> uint a0 then - 1 else 0)"
    using assms(1) by (intro gte_mask_ok) simp_all
  have eq: "format_fcontract_trim (Fe a0 a1 a2 a3 a4) = (if ?big then Fe (a0 - 0x7ffffffffffed) 0 0 0 0 else Fe a0 a1 a2 a3 a4)"
    unfolding format_fcontract_trim.simps Let_def g eq_mask_ok by auto
  show ?thesis
  proof (cases ?big)
    case True
    have s: "uint (a0 - 0x7ffffffffffed) = uint a0 - 0x7ffffffffffed" using True assms(1) by (simp add: uint_sub_if')
    have "fval (Fe a0 a1 a2 a3 a4) = uint a0 - 0x7ffffffffffed + prime25519" using True by (simp add: limb_mask_def prime25519_def)
    moreover have "uint a0 - 0x7ffffffffffed < prime25519" using assms(1) by (simp add: prime25519_def)
    moreover have "0 \<le> uint a0 - 0x7ffffffffffed" using True by simp
    ultimately have "fval (Fe a0 a1 a2 a3 a4) mod prime25519 = uint a0 - 0x7ffffffffffed" by (simp only: mod_add_self2 mod_pos_pos_trivial)
    then have "fval (Fe (a0 - 0x7ffffffffffed) 0 0 0 0) = fval (Fe a0 a1 a2 a3 a4) mod prime25519" by (simp only: fval.simps s) simp
    moreover have "uint (a0 - 0x7ffffffffffed) < 2 ^ 51" "uint (0 :: u64) < 2 ^ 51" using s assms(1) by simp_all
    ultimately show ?thesis using eq True by metis
  next
    case False
    have m: "uint x \<le> 2 ^ 51 - 2" if "x \<noteq> limb_mask" "uint x < 2 ^ 51" for x :: u64
      using that by (simp add: limb_mask_def word_uint_eq_iff)
    have "fval (Fe a0 a1 a2 a3 a4) < prime25519"
      using False assms m [of a1] m [of a2] m [of a3] m [of a4] unfolding prime25519_def fval.simps by auto
    moreover have "0 \<le> fval (Fe a0 a1 a2 a3 a4)" by simp
    ultimately have "fval (Fe a0 a1 a2 a3 a4) mod prime25519 = fval (Fe a0 a1 a2 a3 a4)" by (simp only: mod_pos_pos_trivial)
    then show ?thesis using eq False assms by metis
  qed
qed

lemma div_limb:
  fixes a b :: nat
  assumes "a < 2 ^ m"
  shows "(a + 2 ^ m * b) div 2 ^ (m + n) = b div 2 ^ n"
  using assms by (simp add: power_add div_mult2_eq)

lemma div_block: "(a + c * 2 ^ n) div 2 ^ n = c + a div (2 ^ n :: nat)"
  by simp

lemma limb_words:
  fixes t0 t1 t2 t3 t4 :: nat
  assumes "t0 < 2 ^ 51" "t1 < 2 ^ 51" "t2 < 2 ^ 51" "t3 < 2 ^ 51"
  defines "T \<equiv> t0 + 2 ^ 51 * t1 + 2 ^ 102 * t2 + 2 ^ 153 * t3 + 2 ^ 204 * t4"
  shows "T div 2 ^ 64 = t1 div 2 ^ 13 + 2 ^ 38 * t2 + 2 ^ 64 * (2 ^ 25 * t3 + 2 ^ 76 * t4)"
    "T div 2 ^ 128 = t2 div 2 ^ 26 + 2 ^ 25 * t3 + 2 ^ 64 * (2 ^ 12 * t4)"
    "T div 2 ^ 192 = t3 div 2 ^ 39 + 2 ^ 12 * t4"
proof -
  have "T = (t0 + 2 ^ 51 * t1) + (2 ^ 38 * t2 + 2 ^ 89 * t3 + 2 ^ 140 * t4) * 2 ^ 64" by (simp add: T_def)
  then have "T div 2 ^ 64 = (2 ^ 38 * t2 + 2 ^ 89 * t3 + 2 ^ 140 * t4) + (t0 + 2 ^ 51 * t1) div 2 ^ 64" by (simp only: div_block)
  moreover have "(t0 + 2 ^ 51 * t1) div 2 ^ 64 = t1 div 2 ^ 13" using div_limb [OF assms(1), of t1 13] by simp
  ultimately show 1: "T div 2 ^ 64 = t1 div 2 ^ 13 + 2 ^ 38 * t2 + 2 ^ 64 * (2 ^ 25 * t3 + 2 ^ 76 * t4)" by simp
  have "t1 div 2 ^ 13 < 2 ^ 38" using assms(2) by (simp add: less_mult_imp_div_less)
  from div_limb [OF this, of t2 26] have "(t1 div 2 ^ 13 + 2 ^ 38 * t2) div 2 ^ 64 = t2 div 2 ^ 26" by simp
  moreover have "T div 2 ^ 128 = T div 2 ^ 64 div 2 ^ 64" by (simp flip: div_mult2_eq)
  moreover have "T div 2 ^ 64 = (t1 div 2 ^ 13 + 2 ^ 38 * t2) + (2 ^ 25 * t3 + 2 ^ 76 * t4) * 2 ^ 64" unfolding 1 by (simp only: mult.commute)
  ultimately show 2: "T div 2 ^ 128 = t2 div 2 ^ 26 + 2 ^ 25 * t3 + 2 ^ 64 * (2 ^ 12 * t4)" by (simp only: div_block) simp
  have "t2 div 2 ^ 26 < 2 ^ 25" using assms(3) by (simp add: less_mult_imp_div_less)
  from div_limb [OF this, of t3 39] have "(t2 div 2 ^ 26 + 2 ^ 25 * t3) div 2 ^ 64 = t3 div 2 ^ 39" by simp
  moreover have "T div 2 ^ 192 = T div 2 ^ 128 div 2 ^ 64" by (simp flip: div_mult2_eq)
  moreover have "T div 2 ^ 128 = (t2 div 2 ^ 26 + 2 ^ 25 * t3) + (2 ^ 12 * t4) * 2 ^ 64" unfolding 2 by (simp only: mult.commute)
  ultimately show "T div 2 ^ 192 = t3 div 2 ^ 39 + 2 ^ 12 * t4" by (simp only: div_block add.commute [of "t3 div 2 ^ 39"])
qed

lemma unat_or_shift:
  fixes x y :: u64
  assumes "unat y < 2 ^ n"
  shows "unat (push_bit n x OR y) = (unat y + 2 ^ n * unat x) mod 2 ^ 64"
proof -
  have "\<not> (bit (push_bit n x) m \<and> bit y m)" for m
  proof (cases "n \<le> m")
    case True
    have "unat y < 2 ^ m" by (rule less_le_trans [OF assms], rule power_increasing [OF True]) simp
    then have "\<not> bit (unat y) m" by (simp add: bit_iff_odd)
    then show ?thesis by (simp add: bit_unsigned_iff bit_imp_le_length)
  qed (simp add: bit_push_bit_iff)
  then have "push_bit n x AND y = 0" by (intro bit_eqI) (simp add: bit_and_iff)
  then have "push_bit n x OR y = word_of_nat (unat y + 2 ^ n * unat x)" by (simp add: push_bit_eq_mult flip: disjunctive_add_eq_or)
  then show ?thesis by (simp only: unat_of_nat) simp
qed

lemma store_ok:
  assumes "uint t0 < 2 ^ 51" "uint t1 < 2 ^ 51" "uint t2 < 2 ^ 51" "uint t3 < 2 ^ 51"
  shows "format_fcontract_store (Fe t0 t1 t2 t3 t4) = le_bytes 32 (nat (fval (Fe t0 t1 t2 t3 t4)))"
proof -
  define T where "T = unat t0 + 2 ^ 51 * unat t1 + 2 ^ 102 * unat t2 + 2 ^ 153 * unat t3 + 2 ^ 204 * unat t4"
  have "fval (Fe t0 t1 t2 t3 t4) = int T" by (simp only: fval.simps T_def uint_nat of_nat_add of_nat_mult of_nat_power of_nat_numeral)
  then have T: "nat (fval (Fe t0 t1 t2 t3 t4)) = T" by (simp only: nat_int)
  have "unat x < 2 ^ 51" if "uint x < 2 ^ 51" for x :: u64
  proof -
    have "int (unat x) < int (2 ^ 51)" using that by simp
    then show ?thesis by (simp only: of_nat_less_iff)
  qed
  then have b: "unat t0 < 2 ^ 51" "unat t1 < 2 ^ 51" "unat t2 < 2 ^ 51" "unat t3 < 2 ^ 51" using assms by blast+
  note w = limb_words [OF b, of "unat t4", folded T_def]
  have d: "unat (drop_bit n (x :: u64)) = unat x div 2 ^ n" for n x
  proof -
    have "take_bit 64 (unat x) = unat x" using unsigned_less [of x] by (simp add: take_bit_nat_eq_self_iff)
    then show ?thesis unfolding unsigned_drop_bit_eq by (simp add: drop_bit_eq_div)
  qed
  have s: "unat t1 div 2 ^ 13 < 2 ^ 38" "unat t2 div 2 ^ 26 < 2 ^ 25" "unat t3 div 2 ^ 39 < 2 ^ 12"
    using b by (simp_all add: less_mult_imp_div_less)
  have "T = unat t0 + 2 ^ 51 * unat t1 + 2 ^ 64 * (2 ^ 38 * unat t2 + 2 ^ 89 * unat t3 + 2 ^ 140 * unat t4)" by (simp add: T_def)
  then have "unat (push_bit 51 t1 OR t0) = T mod 2 ^ 64" using unat_or_shift [OF b(1), of t1] by (simp only: mod_mult_self2)
  moreover have "unat (push_bit 38 t2 OR drop_bit 13 t1) = T div 2 ^ 64 mod 2 ^ 64"
    unfolding w(1) using unat_or_shift [of "drop_bit 13 t1" 38 t2] s(1) by (simp only: d mod_mult_self2)
  moreover have "unat (push_bit 25 t3 OR drop_bit 26 t2) = T div 2 ^ 128 mod 2 ^ 64"
    unfolding w(2) using unat_or_shift [of "drop_bit 26 t2" 25 t3] s(2) by (simp only: d mod_mult_self2)
  moreover have "unat (push_bit 12 t4 OR drop_bit 39 t3) = T div 2 ^ 192 mod 2 ^ 64"
    unfolding w(3) using unat_or_shift [of "drop_bit 39 t3" 12 t4] s(3) by (simp only: d mod_mult_self2)
  moreover have "le_bytes 32 T = le_bytes 8 (T mod 2 ^ 64) @ le_bytes 8 (T div 2 ^ 64 mod 2 ^ 64) @ le_bytes 8 (T div 2 ^ 128 mod 2 ^ 64) @ le_bytes 8 (T div 2 ^ 192 mod 2 ^ 64)"
    using le_bytes_append [of 8 24 T] le_bytes_append [of 8 16 "T div 2 ^ 64"] le_bytes_append [of 8 8 "T div 2 ^ 128"] le_bytes_mod [of 8]
    by (simp flip: div_mult2_eq)
  ultimately show ?thesis unfolding T by (simp only: format_fcontract_store.simps Let_def le64_def)
qed

end
