(* ===== verification/Curve25519Properties.thy ===== *)
theory Curve25519Properties
  imports Curve25519Bytes
begin

text \<open>
  The 64-bit implementation as a whole: contraction gives the encoding of the number that the limbs stand for, and
  the function computes X25519.
\<close>

lemma fcontract_ok:
  assumes "f64.tight_rep f x"
  shows "format_fcontract f = encode_coordinate x"
proof -
  have f: "fbound limb_red f" "congruent (fval f) x" using assms by (simp_all add: f64.tight_rep_def)
  obtain r0 r1 r2 r3 r4 where r: "format_fcontract_first_carry_full f = Fe r0 r1 r2 r3 r4"
    "uint r0 < 2 ^ 51 + 19" "uint r1 < 2 ^ 51" "uint r2 < 2 ^ 51" "uint r3 < 2 ^ 51" "uint r4 < 2 ^ 51"
    "congruent (fval (Fe r0 r1 r2 r3 r4)) (fval f)" using first_full [OF f(1)] by blast
  obtain s0 s1 s2 s3 s4 where s: "format_fcontract_second_carry_full (Fe r0 r1 r2 r3 r4) = Fe s0 s1 s2 s3 s4"
    "uint s0 < 2 ^ 51" "uint s1 < 2 ^ 51" "uint s2 < 2 ^ 51" "uint s3 < 2 ^ 51" "uint s4 < 2 ^ 51"
    "congruent (fval (Fe s0 s1 s2 s3 s4)) (fval (Fe r0 r1 r2 r3 r4))" using second_full [OF r(2-6)] by blast
  obtain t0 t1 t2 t3 t4 where t: "format_fcontract_trim (Fe s0 s1 s2 s3 s4) = Fe t0 t1 t2 t3 t4"
    "uint t0 < 2 ^ 51" "uint t1 < 2 ^ 51" "uint t2 < 2 ^ 51" "uint t3 < 2 ^ 51"
    "fval (Fe t0 t1 t2 t3 t4) = fval (Fe s0 s1 s2 s3 s4) mod prime25519" using trim_ok [OF s(2-6)] by blast
  have "fval (Fe s0 s1 s2 s3 s4) mod prime25519 = x mod prime25519" using s(7) r(7) f(2) unfolding congruent_def by (simp only:)
  then show ?thesis
    by (simp only: format_fcontract_def encode_coordinate_def r(1) s(1) t(1,6) store_ok [OF t(2-5)])
qed

section \<open>The function\<close>

lemma curve25519_ok:
  assumes "length secret = 32" "length basepoint = 32"
  shows "curve25519 secret basepoint = encode_coordinate (x25519 256 (clamped_scalar secret) (point_coordinate basepoint))"
proof -
  let ?u = "point_coordinate basepoint" and ?e = "curve25519_clamp_secret secret"
  obtain x z where l: "ladder_cmult ?e (format_fexpand basepoint, fone) = (x, z)" by (meson surj_pair)
  obtain X Z q where m: "mont_ladder ?u (scalar_bits 256 (clamped_scalar secret)) = ((X, Z), q)"
    by (cases "mont_ladder ?u (scalar_bits 256 (clamped_scalar secret))") force
  have one: "f64.tight_rep fone 1" unfolding f64.tight_rep_def by (simp add: fone_def limb_red_def)
  have "length ?e = 32" using assms(1) by (simp add: curve25519_clamp_secret_def)
  from ladder_ok [OF _ _ this, of "(format_fexpand basepoint, fone)" ?u] fexpand_ok [OF assms(2)] one
  have "f64.tight_rep x X" "f64.tight_rep z Z" by (simp_all add: l m clamp_ok [OF assms(1)] prep_def)
  then have "f64.tight_rep (fmul_fmul x (crecip_crecip z)) (X * Z ^ nat (prime25519 - 2))"
    by (intro f64.rep_mul f64.tight_is_loose crecip_ok)
  from fcontract_ok [OF this] show ?thesis
    by (simp add: curve25519_def curve25519_generic_def l x25519_def m encode_coordinate_def)
qed

lemma read_le_zeros: "read_le n (replicate m 0) = 0"
  by (induction n arbitrary: m) (auto simp: list.case_eq_if)

lemma basepoint_coordinate: "point_coordinate (9 # replicate 31 0) = 9"
proof -
  have "read_le (Suc 31) (9 # replicate 31 0) = 9" by (simp only: read_le.simps list.case read_le_zeros) simp
  then show ?thesis by (simp add: point_coordinate_def)
qed

lemma generate_public_ok:
  "length secret = 32 \<Longrightarrow> curve25519_generate_public secret = encode_coordinate (x25519 256 (clamped_scalar secret) 9)"
  unfolding curve25519_generate_public_def by (simp add: curve25519_ok basepoint_coordinate)

text \<open>
  C2: The 64-bit implementation computes X25519: for a secret and a point of 32 bytes the result is the encoding of
  the coordinate that the Montgomery ladder of RFC 7748 reaches, over all 256 bits of the clamped scalar, from the
  point's coordinate with its highest bit ignored, divided by the ladder's denominator modulo the prime and reduced
  below it. No addition, product or carry of limbs overflows on the way.
\<close>

theorem curve25519_computes_x25519:
  assumes "length secret = 32" "length basepoint = 32"
  shows "curve25519 secret basepoint = encode_coordinate (x25519 256 (clamped_scalar secret) (point_coordinate basepoint))"
  using assms by (rule curve25519_ok)

theorem curve25519_computes_x25519_witness:
  "length (replicate 32 0 :: u8 list) = 32 \<and> length (9 # replicate 31 0 :: u8 list) = 32
   \<and> clamped_scalar (replicate 32 0) = 2 ^ 254 \<and> point_coordinate (9 # replicate 31 0) = 9
   \<and> curve25519_generate_public (replicate 32 0) = encode_coordinate (x25519 256 (2 ^ 254) 9)"
proof -
  have c: "clamped_scalar (replicate 32 0) = 2 ^ 254" by (simp add: clamped_scalar_def read_le_zeros)
  show ?thesis
    using curve25519_computes_x25519 [of "replicate 32 0" "9 # replicate 31 0"]
    by (simp only: c basepoint_coordinate curve25519_generate_public_def) simp
qed

end
