(* ===== verification/Keys.thy ===== *)
theory Keys
  imports Ipc ConfigValueFacts Curve25519Properties
begin

text \<open>
  The commands \<open>genkey\<close>, \<open>genpsk\<close> (\<open>src/src/genkey.c\<close>) and \<open>pubkey\<close> (\<open>src/src/pubkey.c\<close>). A command gives its exit status and
  what it writes to standard output; standard input is the list of its characters. Sources of random bytes are
  arguments (\<open>rand_env\<close>); one that a platform does not have is one that fails.
\<close>

section \<open>The code: random bytes\<close>

text \<open>
  \<open>getentropy\<close> and the system call \<open>getrandom\<close>, each with what it leaves in the buffer, \<open>open\<close> and \<open>read\<close> of
  \<open>/dev/urandom\<close>. A call of \<open>read\<close> depends on where the buffer is filled already, which is different for each call.
\<close>

record rand_env =
  getentropy :: "nat \<Rightarrow> u8 list option"
  getrandom :: "nat \<Rightarrow> u8 list option"
  open_urandom :: "int option"
  read_urandom :: "nat \<Rightarrow> nat \<Rightarrow> int + u8 list"

definition EIO :: int where "EIO = 5"
definition EOVERFLOW :: int where "EOVERFLOW = 75"

text \<open>The loop of reads: the bytes so far, and the value that \<open>errno\<close> is set to behind it.\<close>

function random_loop :: "rand_env \<Rightarrow> nat \<Rightarrow> u8 list \<Rightarrow> u8 list \<times> int" where
  "random_loop env len out =
     (if length out < len then
        (case read_urandom env (length out) (len - length out) of
           Inl e \<Rightarrow> (out, if e \<noteq> 0 then e else EIO)
         | Inr [] \<Rightarrow> (out, EIO)
         | Inr bs \<Rightarrow> random_loop env len (out @ bs))
      else (out, 0))"
  by pat_completeness auto
termination by (relation "measure (\<lambda>(env, len, out). len - length out)") auto

declare random_loop.simps [simp del]

definition urandom_bytes :: "rand_env \<Rightarrow> nat \<Rightarrow> int + u8 list" where
  "urandom_bytes env len =
     (case open_urandom env of
        Some e \<Rightarrow> Inl e
      | None \<Rightarrow> let (out, err) = random_loop env len [] in if length out = len then Inr out else Inl err)"

definition get_random_bytes :: "rand_env \<Rightarrow> nat \<Rightarrow> int + u8 list" where
  "get_random_bytes env len =
     (if len > 256 then Inl EOVERFLOW
      else case getentropy env len of
        Some out \<Rightarrow> Inr out
      | None \<Rightarrow>
          (case getrandom env len of
             Some out \<Rightarrow> if length out = len then Inr out else urandom_bytes env len
           | None \<Rightarrow> urandom_bytes env len))"

section \<open>The code: commands\<close>

definition genkey_main :: "rand_env \<Rightarrow> string list \<Rightarrow> int \<times> string" where
  "genkey_main env argv =
     (if length argv \<noteq> 1 then (1, [])
      else case get_random_bytes env WG_KEY_LEN of
        Inl _ \<Rightarrow> (1, [])
      | Inr key \<Rightarrow>
          let key = (if argv ! 0 = ''genkey'' then curve25519_clamp_secret key else key)
          in (0, key_to_base64 key @ [newline]))"

text \<open>The loop over the characters behind the key: whether the end of the input is reached.\<close>

fun only_padding :: "string \<Rightarrow> bool" where
  "only_padding [] = True"
| "only_padding (trailing_char # rest) =
     (if trailing_char = NUL \<or> char_is_space (of_char trailing_char) then only_padding rest else False)"

definition pubkey_main :: "string list \<Rightarrow> string \<Rightarrow> int \<times> string" where
  "pubkey_main argv stdin =
     (if length argv \<noteq> 1 then (1, [])
      else if length stdin < WG_KEY_LEN_BASE64 - 1 then (1, [])
      else
        let base64 = take (WG_KEY_LEN_BASE64 - 1) stdin
        in if \<not> only_padding (drop (WG_KEY_LEN_BASE64 - 1) stdin) then (1, [])
           else case key_from_base64 (c_str base64) of
             None \<Rightarrow> (1, [])
           | Some key \<Rightarrow> (0, key_to_base64 (curve25519_generate_public key) @ [newline]))"

section \<open>Deriving a public key\<close>

lemma only_padding_iff: "only_padding s \<longleftrightarrow> list_all (\<lambda>c. c = NUL \<or> isspace_c c) s"
  by (induction s) (auto simp: char_is_space_getc)

lemma length_c_str: "length (c_str s) = length s \<longleftrightarrow> no_nul s"
proof
  assume "length (c_str s) = length s"
  then have "c_str s = s" unfolding c_str_def by (metis append_eq_append_conv append_Nil2 takeWhile_dropWhile_id)
  then show "no_nul s" using no_nul_c_str [of s] by simp
qed (simp add: c_str_id)

lemma key_of_c_str: "length s = 44 \<Longrightarrow> key_from_base64 (c_str s) = Some k \<longleftrightarrow> wf_key k \<and> s = key_to_base64 k"
proof
  assume s: "length s = 44" "key_from_base64 (c_str s) = Some k"
  then have e: "wf_key k" "c_str s = key_to_base64 k" using b64.dec_iff by blast+
  then have "no_nul s" using s(1) length_c_str [of s] by simp
  then show "wf_key k \<and> s = key_to_base64 k" using e by (simp add: c_str_id)
next
  assume "wf_key k \<and> s = key_to_base64 k"
  moreover have "no_nul (key_to_base64 k)" using token_chars_base64 unfolding no_nul_def token_char_def by blast
  ultimately show "key_from_base64 (c_str s) = Some k" by (simp add: c_str_id b64.dec_iff)
qed

lemma pubkey_main_iff:
  "pubkey_main [a] stdin = (0, out) \<longleftrightarrow>
     (\<exists>k pad. wf_key k \<and> stdin = key_to_base64 k @ pad \<and> list_all (\<lambda>c. c = NUL \<or> isspace_c c) pad
        \<and> out = key_to_base64 (encode_coordinate (x25519 256 (clamped_scalar k) 9)) @ [newline])" (is "?l \<longleftrightarrow> ?r")
proof (cases "44 \<le> length stdin")
  case True
  define s pad where "s = take 44 stdin" and "pad = drop 44 stdin"
  have s: "stdin = s @ pad" "length s = 44" using True by (simp_all add: s_def pad_def)
  have "?l \<longleftrightarrow> only_padding pad \<and> (\<exists>k. key_from_base64 (c_str s) = Some k \<and> out = key_to_base64 (curve25519_generate_public k) @ [newline])"
    using s(2) by (auto simp: pubkey_main_def key_len_defs s(1) split: option.splits)
  also have "\<dots> \<longleftrightarrow> ?r"
    unfolding key_of_c_str [OF s(2)] only_padding_iff using s
    by (auto simp: generate_public_ok wf_key_def WG_KEY_LEN_def append_eq_append_conv)
  finally show ?thesis .
next
  case False
  then show ?thesis by (auto simp: pubkey_main_def key_len_defs)
qed

section \<open>Making a key\<close>

text \<open>
  What the manual pages promise of the sources: a successful \<open>getentropy\<close> fills the buffer; and, for the
  second part, \<open>/dev/urandom\<close> can be opened and each of its reads gives some bytes, not more than asked for.
\<close>

definition fills_buffer :: "rand_env \<Rightarrow> bool" where
  "fills_buffer env \<longleftrightarrow> (\<forall>n bs. getentropy env n = Some bs \<longrightarrow> length bs = n)"

definition urandom_progress :: "rand_env \<Rightarrow> bool" where
  "urandom_progress env \<longleftrightarrow> open_urandom env = None
     \<and> (\<forall>i n. 0 < n \<longrightarrow> (\<exists>b bs. read_urandom env i n = Inr (b # bs) \<and> length bs < n))"

lemma random_loop_fills:
  assumes "urandom_progress env" "length out \<le> len"
  shows "length (fst (random_loop env len out)) = len"
  using assms(2)
proof (induction "len - length out" arbitrary: out rule: less_induct)
  case less
  show ?case
  proof (cases "length out < len")
    case True
    then obtain b bs where r: "read_urandom env (length out) (len - length out) = Inr (b # bs)" "length bs < len - length out"
      using assms(1) by (meson urandom_progress_def zero_less_diff)
    then have "length (fst (random_loop env len (out @ b # bs))) = len" using True by (intro less.hyps) simp_all
    then show ?thesis using r(1) True by (subst random_loop.simps) simp
  next
    case False
    then show ?thesis using less.prems by (subst random_loop.simps) simp
  qed
qed

lemma random_bytes_length: "fills_buffer env \<Longrightarrow> get_random_bytes env len = Inr k \<Longrightarrow> length k = len"
  by (auto simp: get_random_bytes_def urandom_bytes_def fills_buffer_def split: if_splits option.splits prod.splits)

lemma random_bytes_progress:
  assumes "urandom_progress env" "len \<le> 256"
  shows "\<exists>k. get_random_bytes env len = Inr k"
proof -
  have "\<exists>k. urandom_bytes env len = Inr k"
    using random_loop_fills [OF assms(1), of "[]" len] assms(1) by (auto simp: urandom_bytes_def urandom_progress_def split: prod.splits)
  then show ?thesis using assms(2) by (auto simp: get_random_bytes_def split: option.splits)
qed

lemma clamp_twice: "length k = 32 \<Longrightarrow> curve25519_clamp_secret (curve25519_clamp_secret k) = curve25519_clamp_secret k"
  by (simp add: curve25519_clamp_secret_def list_update_swap and.assoc bit.conj_disj_distrib2)

lemma length_clamp [simp]: "length (curve25519_clamp_secret k) = length k"
  by (simp add: curve25519_clamp_secret_def)

lemma clamped_scalar_clamp: "length k = 32 \<Longrightarrow> clamped_scalar (curve25519_clamp_secret k) = read_le 32 (curve25519_clamp_secret k)"
  by (simp add: clamp_ok [symmetric] clamp_twice)

section \<open>Properties\<close>

text \<open>
  C11: \<open>wg pubkey\<close> succeeds exactly on the base64 encoding of a key followed by nothing but white space and NUL
  characters, and then prints the base64 encoding of the X25519 public key: the coordinate that the
  ladder reaches from the base point 9 with the clamped key as scalar.
\<close>

theorem pubkey_main_prints:
  "pubkey_main [a] stdin = (0, out) \<longleftrightarrow>
     (\<exists>k pad. wf_key k \<and> stdin = key_to_base64 k @ pad \<and> list_all (\<lambda>c. c = NUL \<or> isspace_c c) pad
        \<and> out = key_to_base64 (encode_coordinate (x25519 256 (clamped_scalar k) 9)) @ [newline])"
  by (rule pubkey_main_iff)

text \<open>
  C10: \<open>wg genkey\<close> always gets to a key when \<open>/dev/urandom\<close> can be opened and each read of it gives at least one byte,
  however few, whatever the other sources of random bytes do. The key it prints is clamped already, so
  that \<open>wg pubkey\<close>, given that output, uses exactly the printed bytes as scalar.
\<close>

theorem genkey_makes_key:
  assumes "fills_buffer env" "urandom_progress env"
  shows "\<exists>k. wf_key k \<and> genkey_main env [''genkey''] = (0, key_to_base64 k @ [newline]) \<and> curve25519_clamp_secret k = k
    \<and> pubkey_main [''pubkey''] (key_to_base64 k @ [newline]) = (0, key_to_base64 (encode_coordinate (x25519 256 (read_le 32 k) 9)) @ [newline])"
proof -
  obtain r where r: "get_random_bytes env WG_KEY_LEN = Inr r" using random_bytes_progress [OF assms(2), of WG_KEY_LEN] by (auto simp: WG_KEY_LEN_def)
  then have l: "length r = 32" using random_bytes_length [OF assms(1)] by (simp add: WG_KEY_LEN_def)
  let ?k = "curve25519_clamp_secret r"
  have w: "wf_key ?k" using l by (simp add: wf_key_def WG_KEY_LEN_def)
  have "list_all (\<lambda>c. c = NUL \<or> isspace_c c) [newline]" by (simp add: isspace_c_def newline_def)
  then have "pubkey_main [''pubkey''] (key_to_base64 ?k @ [newline]) = (0, key_to_base64 (encode_coordinate (x25519 256 (read_le 32 ?k) 9)) @ [newline])"
    using w clamped_scalar_clamp [OF l] unfolding pubkey_main_iff by metis
  then show ?thesis using r w clamp_twice [OF l] by (intro exI [of _ ?k]) (simp add: genkey_main_def)
qed

definition sample_rand :: rand_env where
  "sample_rand = \<lparr>getentropy = (\<lambda>_. None), getrandom = (\<lambda>_. None), open_urandom = None, read_urandom = (\<lambda>i _. Inr [word_of_nat i])\<rparr>"

theorem genkey_makes_key_witness:
  "\<exists>k. genkey_main sample_rand [''genkey''] = (0, key_to_base64 k @ [newline]) \<and> curve25519_clamp_secret k = k"
proof -
  have "fills_buffer sample_rand" "urandom_progress sample_rand"
    by (simp_all add: fills_buffer_def urandom_progress_def sample_rand_def)
  from genkey_makes_key [OF this] show ?thesis by blast
qed

end
