(* ===== verification/Wg.thy ===== *)
theory Wg
  imports Setconf Show Keys
begin

text \<open>
  The program as a whole (\<open>src/src/wg.c\<close>): the table of commands and \<open>main\<close>, which chooses one of them. The result
  is the exit status with the text on standard output, and the socket directory behind the run; \<open>None\<close> is a run
  that does not end, because the resolver is retried for ever.
\<close>

section \<open>The code\<close>

record wg_env =
  shown :: show_env
  rand :: rand_env
  stdin :: string

datatype command = Show_main | Showconf_main | Set_main | Setconf_main | Genkey_main | Pubkey_main

definition subcommands :: "(string \<times> command \<times> string) list" where
  "subcommands =
     [(''show'', Show_main, ''Shows the current configuration and device information''),
      (''showconf'', Showconf_main, ''Shows the current configuration of a given WireGuard interface, for use with `setconf'' @ [CHR 0x27]),
      (''set'', Set_main, ''Change the current configuration, add peers, remove peers, or change peers''),
      (''setconf'', Setconf_main, ''Applies a configuration file to a WireGuard interface''),
      (''addconf'', Setconf_main, ''Appends a configuration file to a WireGuard interface''),
      (''syncconf'', Setconf_main, ''Synchronizes a configuration file to a WireGuard interface''),
      (''genkey'', Genkey_main, ''Generates a new private key and writes it to stdout''),
      (''genpsk'', Genkey_main, ''Generates a new preshared key and writes it to stdout''),
      (''pubkey'', Pubkey_main, ''Reads a private key from stdin and writes a public key to stdout'')]"

definition show_usage :: "string \<Rightarrow> string" where
  "show_usage prog =
     ''Usage: '' @ prog @ '' <cmd> [<args>]'' @ [newline, newline]
     @ ''Available subcommands:'' @ [newline]
     @ concat (map (\<lambda>(name, _, description). ''  '' @ name @ '': '' @ description @ [newline]) subcommands)
     @ ''You may pass `--help'' @ [CHR 0x27] @ '' to any of these subcommands to view usage.'' @ [newline]"

definition WIREGUARD_TOOLS_VERSION :: string where "WIREGUARD_TOOLS_VERSION = ''1.0.20260223''"

text \<open>A command with its arguments, its own name first.\<close>

definition run_command :: "wg_env \<Rightarrow> command \<Rightarrow> string list \<Rightarrow> sockfs \<Rightarrow> (show_outcome \<times> sockfs) option" where
  "run_command env cmd argv fs =
     (let ienv = ipc (shown env);
          quiet = map_option (\<lambda>(ret, fs'). (Exit ret [], fs'))
      in case cmd of
           Show_main \<Rightarrow> Some (show_main (shown env) argv fs)
         | Showconf_main \<Rightarrow> (let ((ret, out), fs') = showconf_main ienv argv fs in Some (Exit ret out, fs'))
         | Set_main \<Rightarrow> quiet (set_main ienv argv fs)
         | Setconf_main \<Rightarrow> quiet (setconf_main ienv argv fs)
         | Genkey_main \<Rightarrow> (let (ret, out) = genkey_main (rand env) argv in Some (Exit ret out, fs))
         | Pubkey_main \<Rightarrow> (let (ret, out) = pubkey_main argv (stdin env) in Some (Exit ret out, fs)))"

text \<open>\<open>main\<close>, with the arguments behind the name of the program.\<close>

definition wg_main :: "wg_env \<Rightarrow> string \<Rightarrow> string list \<Rightarrow> sockfs \<Rightarrow> (show_outcome \<times> sockfs) option" where
  "wg_main env prog args fs =
     (if length args = 1 \<and> args ! 0 \<in> {''-v'', ''--version'', ''version''} then
        Some (Exit 0 (''wireguard-tools v'' @ WIREGUARD_TOOLS_VERSION @ '' - https://git.zx2c4.com/wireguard-tools/'' @ [newline]), fs)
      else if length args = 1 \<and> args ! 0 \<in> {''-h'', ''--help'', ''help''} then Some (Exit 0 (show_usage prog), fs)
      else if args = [] then Some (show_main (shown env) [''show''] fs)
      else case map_of subcommands (args ! 0) of
        Some (cmd, _) \<Rightarrow> run_command env cmd args fs
      | None \<Rightarrow> Some (Exit 1 [], fs))"

section \<open>The socket directory\<close>

lemma show_all_cleans: "cleans fs (snd (show_all env param names fs ret out))"
proof (induction env param names fs ret out rule: show_all.induct)
  case (2 env param iface rest fs ret out)
  obtain r fs' where g: "ipc_get_device (ipc env) iface fs = (r, fs')" by fastforce
  then have c: "cleans fs fs'" using get_set_clean(1) [of fs "ipc env" iface] by simp
  show ?case
  proof (cases r)
    case (Inl code)
    then show ?thesis using 2(1) g c by (auto intro: cleans_trans)
  next
    case (Inr d)
    then show ?thesis using 2(2,3) g c by (cases param; cases "ugly_print env d (the param) True") (auto intro: cleans_trans)
  qed
qed simp

lemma list_interfaces_cleans: "cleans fs (snd (list_interfaces env fs))"
  using list_cleans [of fs "ipc env"] by (auto simp: list_interfaces_def split: prod.split sum.split option.split)

lemma show_main_cleans: "cleans fs (snd (show_main env argv fs))"
proof -
  obtain ns fs1 where l: "list_interfaces env fs = (ns, fs1)" by fastforce
  obtain r fs2 where g: "ipc_get_device (ipc env) (argv ! 1) fs = (r, fs2)" by fastforce
  have "cleans fs fs1" "cleans fs fs2" using list_interfaces_cleans [of fs env] get_set_clean(1) [of fs "ipc env" "argv ! 1"] unfolding l g by simp_all
  then show ?thesis unfolding show_main_def Let_def l g
    using cleans_trans [OF _ show_all_cleans] by (auto split: option.split sum.split)
qed

lemma sync_conf_cleans: "cleans fs (snd (sync_conf env d fs))"
  using get_set_clean(1) [of fs env "dev_name d"] by (auto simp: sync_conf_def split: prod.split sum.split)

lemma setconf_main_cleans:
  assumes "setconf_main env argv fs = Some (ret, fs')"
  shows "cleans fs fs'"
proof -
  have "cleans fs (snd (ipc_set_device env d' (snd (sync_conf env d fs))))" for d d'
    by (rule cleans_trans [OF sync_conf_cleans get_set_clean(2)])
  then show ?thesis using assms get_set_clean(2) [of fs env] sync_conf_cleans [of fs env]
    by (auto simp: setconf_main_def Let_def split_beta split: if_splits option.splits sum.splits)
qed

lemma set_main_cleans: "set_main env argv fs = Some (ret, fs') \<Longrightarrow> cleans fs fs'"
  using get_set_clean(2) [of fs env]
  by (auto simp: set_main_def Let_def split_beta split: if_splits option.splits sum.splits)

lemma showconf_main_cleans: "cleans fs (snd (showconf_main env argv fs))"
  using get_set_clean(1) [of fs env "argv ! 1"] by (auto simp: showconf_main_def split_beta Let_def split: sum.split)

lemma run_command_cleans:
  assumes "run_command env cmd argv fs = Some (r, fs')"
  shows "cleans fs fs'"
proof (cases cmd)
  case Show_main
  then show ?thesis using assms show_main_cleans [of fs "shown env" argv] by (simp add: run_command_def)
next
  case Showconf_main
  then show ?thesis using assms showconf_main_cleans [of fs "ipc (shown env)" argv] by (auto simp: run_command_def split_beta Let_def)
next
  case Set_main
  then show ?thesis using assms by (auto simp: run_command_def Let_def intro: set_main_cleans)
next
  case Setconf_main
  then show ?thesis using assms by (auto simp: run_command_def Let_def intro: setconf_main_cleans)
qed (use assms in \<open>auto simp: run_command_def split_beta Let_def\<close>)

section \<open>Properties\<close>

text \<open>
  C15: No run of \<open>wg\<close>, with whatever command and arguments, changes the socket directory other than by removing
  sockets that refuse connections because the process behind them is gone: the socket of every running daemon,
  and every other entry, is left as it was.
\<close>

theorem wg_keeps_live_sockets:
  assumes "wg_main env prog args fs = Some (r, fs')"
  shows "fs' p = fs p \<or> fs p = Refused \<and> fs' p = Absent ENOENT"
proof -
  have "cleans fs fs'"
    using assms show_main_cleans [of fs "shown env" "[''show'']"] run_command_cleans
    by (auto simp: wg_main_def split: if_splits option.splits)
  then show ?thesis by (simp add: cleans_def)
qed

definition sample_wg :: wg_env where
  "sample_wg = \<lparr>shown = sample_show, rand = sample_rand, stdin = []\<rparr>"

theorem wg_keeps_live_sockets_witness:
  "\<exists>r fs'. wg_main sample_wg ''wg'' [''show'', ''interfaces''] sample_socks = Some (r, fs')
     \<and> (\<forall>p. fs' p = sample_socks p \<or> sample_socks p = Refused \<and> fs' p = Absent ENOENT)"
proof -
  obtain r fs' where run: "wg_main sample_wg ''wg'' [''show'', ''interfaces''] sample_socks = Some (r, fs')"
    by (simp add: wg_main_def subcommands_def run_command_def) (meson surj_pair)
  show ?thesis using run wg_keeps_live_sockets [OF run] by blast
qed

end
