(* ===== verification/Netlink.thy ===== *)
theory Netlink
  imports Ipc Bytes
begin

text \<open>
  The netlink library of \<open>src/src/netlink.h\<close>: building messages of nested attributes, parsing them with
  callbacks, and the conversation with the kernel on a generic netlink socket.

  Bytes are in the order of a little-endian machine. A message under construction is a record with its
  header and the list of the bytes behind it; \<open>nlmsg_len\<close> is a multiple of four at all times, so the
  tail of the payload is the end of that list, and a pointer to an attribute is an offset into it. A
  message or attribute that is read is the list of the bytes from its first one on; bytes behind the
  end of what was received read as zero. \<open>errno\<close> is the first component of the state of a callback.

  The kernel is a function on a state \<open>'k\<close>: a request that is sent yields the datagrams that can then be
  received, each with its bytes or an error. Receiving when there is none blocks for ever, which is
  \<open>None\<close>, as is a loop that does not end.
\<close>

unbundle bit_operations_syntax

section \<open>Integers\<close>

text \<open>The value of a 32-bit \<open>int\<close> after an assignment.\<close>

definition as_int :: "int \<Rightarrow> int" where
  "as_int x = sint (word_of_int x :: u32)"

section \<open>Constants\<close>

definition MNL_CB_ERROR :: int where "MNL_CB_ERROR = - 1"
definition MNL_CB_STOP :: int where "MNL_CB_STOP = 0"
definition MNL_CB_OK :: int where "MNL_CB_OK = 1"

lemmas mnl_cb_defs = MNL_CB_ERROR_def MNL_CB_STOP_def MNL_CB_OK_def

definition MNL_ALIGN :: "nat \<Rightarrow> nat" where "MNL_ALIGN len = (len + 3) div 4 * 4"
definition MNL_ALIGN32 :: "u32 \<Rightarrow> u32" where "MNL_ALIGN32 len = (len + 3) AND NOT 3"
definition MNL_NLMSG_HDRLEN :: nat where "MNL_NLMSG_HDRLEN = 16"
definition MNL_ATTR_HDRLEN :: nat where "MNL_ATTR_HDRLEN = 4"

definition NLA_F_NESTED :: u16 where "NLA_F_NESTED = 0x8000"
definition NLA_TYPE_MASK :: u16 where "NLA_TYPE_MASK = 0x3fff"

definition NLM_F_REQUEST :: u16 where "NLM_F_REQUEST = 1"
definition NLM_F_MULTI :: u16 where "NLM_F_MULTI = 2"
definition NLM_F_ACK :: u16 where "NLM_F_ACK = 4"
definition NLM_F_DUMP_INTR :: u16 where "NLM_F_DUMP_INTR = 16"
definition NLM_F_DUMP :: u16 where "NLM_F_DUMP = 0x300"

definition NLMSG_DONE :: u16 where "NLMSG_DONE = 3"
definition NLMSG_MIN_TYPE :: u16 where "NLMSG_MIN_TYPE = 16"

definition GENL_ID_CTRL :: u16 where "GENL_ID_CTRL = 16"
definition CTRL_CMD_GETFAMILY :: u8 where "CTRL_CMD_GETFAMILY = 3"
definition CTRL_ATTR_FAMILY_ID :: u16 where "CTRL_ATTR_FAMILY_ID = 1"
definition CTRL_ATTR_FAMILY_NAME :: u16 where "CTRL_ATTR_FAMILY_NAME = 2"
definition CTRL_ATTR_MAX :: u16 where "CTRL_ATTR_MAX = 10"

definition AF_NETLINK :: u16 where "AF_NETLINK = 16"
definition ESRCH :: int where "ESRCH = 3"
definition EINTR :: int where "EINTR = 4"
definition ENOSPC :: int where "ENOSPC = 28"
definition ENOSYS :: int where "ENOSYS = 38"
definition EBADMSG :: int where "EBADMSG = 74"
definition EPROTONOSUPPORT :: int where "EPROTONOSUPPORT = 93"

section \<open>Building messages\<close>

record nlmsghdr =
  nlmsg_type :: u16
  nlmsg_flags :: u16
  nlmsg_seq :: u32
  nlmsg_pid :: u32
  nlmsg_body :: "u8 list"

definition nlmsg_len :: "nlmsghdr \<Rightarrow> nat" where
  "nlmsg_len nlh = MNL_NLMSG_HDRLEN + length (nlmsg_body nlh)"

definition mnl_nlmsg_put_header :: nlmsghdr where
  "mnl_nlmsg_put_header = \<lparr>nlmsg_type = 0, nlmsg_flags = 0, nlmsg_seq = 0, nlmsg_pid = 0, nlmsg_body = []\<rparr>"

definition mnl_nlmsg_put_extra_header :: "nlmsghdr \<Rightarrow> nat \<Rightarrow> nlmsghdr" where
  "mnl_nlmsg_put_extra_header nlh sz = nlh\<lparr>nlmsg_body := nlmsg_body nlh @ replicate (MNL_ALIGN sz) 0\<rparr>"

text \<open>The length of the attribute is kept in sixteen bits, and the message grows by that length.\<close>

definition mnl_attr_put :: "nlmsghdr \<Rightarrow> u16 \<Rightarrow> u8 list \<Rightarrow> nlmsghdr" where
  "mnl_attr_put nlh ty data =
     (let len = length data;
          payload_len = word_of_nat (MNL_ATTR_HDRLEN + len) :: u16;
          pad = MNL_ALIGN len - len
      in nlh\<lparr>nlmsg_body := nlmsg_body nlh
             @ take (MNL_ALIGN (unat payload_len)) (le16 payload_len @ le16 ty @ data @ replicate pad 0)\<rparr>)"

definition mnl_attr_put_u16 :: "nlmsghdr \<Rightarrow> u16 \<Rightarrow> u16 \<Rightarrow> nlmsghdr" where
  "mnl_attr_put_u16 nlh ty data = mnl_attr_put nlh ty (le16 data)"

definition mnl_attr_put_u32 :: "nlmsghdr \<Rightarrow> u16 \<Rightarrow> u32 \<Rightarrow> nlmsghdr" where
  "mnl_attr_put_u32 nlh ty data = mnl_attr_put nlh ty (le32 data)"

definition mnl_attr_put_strz :: "nlmsghdr \<Rightarrow> u16 \<Rightarrow> string \<Rightarrow> nlmsghdr" where
  "mnl_attr_put_strz nlh ty data = mnl_attr_put nlh ty (str_bytes data @ [0])"

text \<open>The length of a nest is written by \<open>mnl_attr_nest_end\<close>; until then it is zero here.\<close>

definition mnl_attr_nest_start :: "nlmsghdr \<Rightarrow> u16 \<Rightarrow> nlmsghdr \<times> nat" where
  "mnl_attr_nest_start nlh ty =
     (nlh\<lparr>nlmsg_body := nlmsg_body nlh @ le16 0 @ le16 (NLA_F_NESTED OR ty)\<rparr>, length (nlmsg_body nlh))"

definition mnl_attr_put_check :: "nlmsghdr \<Rightarrow> nat \<Rightarrow> u16 \<Rightarrow> u8 list \<Rightarrow> nlmsghdr option" where
  "mnl_attr_put_check nlh buflen ty data =
     (if nlmsg_len nlh + MNL_ATTR_HDRLEN + MNL_ALIGN (length data) > buflen then None
      else Some (mnl_attr_put nlh ty data))"

definition mnl_attr_nest_start_check :: "nlmsghdr \<Rightarrow> nat \<Rightarrow> u16 \<Rightarrow> (nlmsghdr \<times> nat) option" where
  "mnl_attr_nest_start_check nlh buflen ty =
     (if nlmsg_len nlh + MNL_ATTR_HDRLEN > buflen then None else Some (mnl_attr_nest_start nlh ty))"

definition mnl_attr_nest_end :: "nlmsghdr \<Rightarrow> nat \<Rightarrow> nlmsghdr" where
  "mnl_attr_nest_end nlh start =
     (let len = word_of_nat (length (nlmsg_body nlh) - start) :: u16
      in nlh\<lparr>nlmsg_body := take start (nlmsg_body nlh) @ le16 len @ drop (start + 2) (nlmsg_body nlh)\<rparr>)"

definition mnl_attr_nest_cancel :: "nlmsghdr \<Rightarrow> nat \<Rightarrow> nlmsghdr" where
  "mnl_attr_nest_cancel nlh start = nlh\<lparr>nlmsg_body := take start (nlmsg_body nlh)\<rparr>"

text \<open>The bytes of a message as they are sent.\<close>

definition nlmsg_bytes :: "nlmsghdr \<Rightarrow> u8 list" where
  "nlmsg_bytes nlh =
     le32 (word_of_nat (nlmsg_len nlh)) @ le16 (nlmsg_type nlh) @ le16 (nlmsg_flags nlh)
     @ le32 (nlmsg_seq nlh) @ le32 (nlmsg_pid nlh) @ nlmsg_body nlh"

section \<open>Reading attributes\<close>

datatype mnl_attr_data_type =
    MNL_TYPE_UNSPEC | MNL_TYPE_U8 | MNL_TYPE_U16 | MNL_TYPE_U32 | MNL_TYPE_U64 | MNL_TYPE_STRING | MNL_TYPE_FLAG | MNL_TYPE_MSECS
  | MNL_TYPE_NESTED | MNL_TYPE_NESTED_COMPAT | MNL_TYPE_NUL_STRING | MNL_TYPE_BINARY | MNL_TYPE_MAX

definition nla_len :: "u8 list \<Rightarrow> u16" where "nla_len attr = get16 attr"
definition nla_type :: "u8 list \<Rightarrow> u16" where "nla_type attr = get16 (drop 2 attr)"

definition mnl_attr_get_type :: "u8 list \<Rightarrow> u16" where
  "mnl_attr_get_type attr = nla_type attr AND NLA_TYPE_MASK"

definition mnl_attr_get_payload_len :: "u8 list \<Rightarrow> u16" where
  "mnl_attr_get_payload_len attr = nla_len attr - 4"

definition mnl_attr_get_payload :: "u8 list \<Rightarrow> u8 list" where
  "mnl_attr_get_payload attr = drop MNL_ATTR_HDRLEN attr"

definition mnl_attr_ok :: "u8 list \<Rightarrow> int \<Rightarrow> bool" where
  "mnl_attr_ok attr len \<longleftrightarrow> len \<ge> 4 \<and> uint (nla_len attr) \<ge> 4 \<and> uint (nla_len attr) \<le> len"

text \<open>\<open>None\<close> when the check passes, and the value of \<open>errno\<close> otherwise.\<close>

definition mnl_attr_type_valid :: "u8 list \<Rightarrow> u16 \<Rightarrow> int option" where
  "mnl_attr_type_valid attr limit = (if mnl_attr_get_type attr > limit then Some EOPNOTSUPP else None)"

definition mnl_attr_validate_len :: "u8 list \<Rightarrow> mnl_attr_data_type \<Rightarrow> nat \<Rightarrow> int option" where
  "mnl_attr_validate_len attr ty exp_len =
     (let attr_len = unat (mnl_attr_get_payload_len attr); attr_data = mnl_attr_get_payload attr
      in if attr_len < exp_len then Some ERANGE
         else
           case (case ty of
                   MNL_TYPE_FLAG \<Rightarrow> if attr_len > 0 then Some ERANGE else None
                 | MNL_TYPE_NUL_STRING \<Rightarrow>
                     if attr_len = 0 then Some ERANGE else if attr_data ! (attr_len - 1) \<noteq> 0 then Some EINVAL else None
                 | MNL_TYPE_STRING \<Rightarrow> if attr_len = 0 then Some ERANGE else None
                 | MNL_TYPE_NESTED \<Rightarrow> if attr_len = 0 then None else if attr_len < MNL_ATTR_HDRLEN then Some ERANGE else None
                 | _ \<Rightarrow> None) of
             Some e \<Rightarrow> Some e
           | None \<Rightarrow> if exp_len \<noteq> 0 \<and> attr_len > exp_len then Some ERANGE else None)"

fun mnl_attr_data_type_len :: "mnl_attr_data_type \<Rightarrow> nat" where
  "mnl_attr_data_type_len MNL_TYPE_U8 = 1"
| "mnl_attr_data_type_len MNL_TYPE_U16 = 2"
| "mnl_attr_data_type_len MNL_TYPE_U32 = 4"
| "mnl_attr_data_type_len MNL_TYPE_U64 = 8"
| "mnl_attr_data_type_len MNL_TYPE_MSECS = 8"
| "mnl_attr_data_type_len _ = 0"

definition mnl_attr_validate :: "u8 list \<Rightarrow> mnl_attr_data_type \<Rightarrow> int option" where
  "mnl_attr_validate attr ty =
     (if ty = MNL_TYPE_MAX then Some EINVAL else mnl_attr_validate_len attr ty (mnl_attr_data_type_len ty))"

lemma mnl_attr_validate_simps:
  "mnl_attr_validate attr MNL_TYPE_U8 = (if unat (mnl_attr_get_payload_len attr) = 1 then None else Some ERANGE)"
  "mnl_attr_validate attr MNL_TYPE_U16 = (if unat (mnl_attr_get_payload_len attr) = 2 then None else Some ERANGE)"
  "mnl_attr_validate attr MNL_TYPE_U32 = (if unat (mnl_attr_get_payload_len attr) = 4 then None else Some ERANGE)"
  "mnl_attr_validate attr MNL_TYPE_STRING = (if unat (mnl_attr_get_payload_len attr) = 0 then Some ERANGE else None)"
  by (auto simp: mnl_attr_validate_def mnl_attr_validate_len_def Let_def)

definition mnl_attr_get_u8 :: "u8 list \<Rightarrow> u8" where
  "mnl_attr_get_u8 attr = word_of_nat (read_le 1 (mnl_attr_get_payload attr))"

definition mnl_attr_get_u16 :: "u8 list \<Rightarrow> u16" where
  "mnl_attr_get_u16 attr = get16 (mnl_attr_get_payload attr)"

definition mnl_attr_get_u32 :: "u8 list \<Rightarrow> u32" where
  "mnl_attr_get_u32 attr = get32 (mnl_attr_get_payload attr)"

definition mnl_attr_get_u64 :: "u8 list \<Rightarrow> u64" where
  "mnl_attr_get_u64 attr = get64 (mnl_attr_get_payload attr)"

definition mnl_attr_get_str :: "u8 list \<Rightarrow> string" where
  "mnl_attr_get_str attr = c_str (bytes_str (mnl_attr_get_payload attr))"

text \<open>
  The loops over attributes: \<open>len\<close> is the number of bytes up to the end of the enclosing message or
  attribute.
\<close>

type_synonym 's attr_cb = "u8 list \<Rightarrow> 's \<Rightarrow> int \<times> 's"

lemma mnl_attr_ok_unat:
  "mnl_attr_ok attr len \<longleftrightarrow> 4 \<le> len \<and> 4 \<le> unat (nla_len attr) \<and> int (unat (nla_len attr)) \<le> len"
  using uint_nat [of "nla_len attr"] unfolding mnl_attr_ok_def by linarith

lemma mnl_align_ge: "n \<le> MNL_ALIGN n"
  unfolding MNL_ALIGN_def by arith

function mnl_attr_loop :: "'s attr_cb \<Rightarrow> u8 list \<Rightarrow> int \<Rightarrow> int \<Rightarrow> 's \<Rightarrow> int \<times> 's" where
  "mnl_attr_loop cb attr len ret s =
     (if \<not> mnl_attr_ok attr len then (ret, s)
      else
        let (ret', s') = cb attr s; step = MNL_ALIGN (unat (nla_len attr))
        in if ret' \<le> MNL_CB_STOP then (ret', s')
           else mnl_attr_loop cb (drop step attr) (len - int step) ret' s')"
  by pat_completeness auto
termination
proof (relation "measure (\<lambda>(cb, attr, len, ret, s). nat len)", goal_cases)
  case (2 cb attr len ret s x ret' s' step)
  then have "4 \<le> unat (nla_len attr)" "4 \<le> len" by (simp_all add: mnl_attr_ok_unat)
  moreover have "step \<ge> unat (nla_len attr)" using 2 mnl_align_ge by simp
  ultimately show ?case by simp
qed simp

declare mnl_attr_loop.simps [simp del]

definition mnl_attr_parse_nested :: "u8 list \<Rightarrow> 's attr_cb \<Rightarrow> 's \<Rightarrow> int \<times> 's" where
  "mnl_attr_parse_nested nested cb s =
     mnl_attr_loop cb (mnl_attr_get_payload nested) (uint (mnl_attr_get_payload_len nested)) MNL_CB_OK s"

section \<open>Reading messages\<close>

definition msg_len :: "u8 list \<Rightarrow> u32" where "msg_len nlh = get32 nlh"
definition msg_type :: "u8 list \<Rightarrow> u16" where "msg_type nlh = get16 (drop 4 nlh)"
definition msg_flags :: "u8 list \<Rightarrow> u16" where "msg_flags nlh = get16 (drop 6 nlh)"
definition msg_seq :: "u8 list \<Rightarrow> u32" where "msg_seq nlh = get32 (drop 8 nlh)"
definition msg_pid :: "u8 list \<Rightarrow> u32" where "msg_pid nlh = get32 (drop 12 nlh)"

definition mnl_nlmsg_get_payload :: "u8 list \<Rightarrow> u8 list" where
  "mnl_nlmsg_get_payload nlh = drop MNL_NLMSG_HDRLEN nlh"

definition mnl_attr_parse :: "u8 list \<Rightarrow> nat \<Rightarrow> 's attr_cb \<Rightarrow> 's \<Rightarrow> int \<times> 's" where
  "mnl_attr_parse nlh offset cb s =
     (let start = MNL_NLMSG_HDRLEN + MNL_ALIGN offset
      in mnl_attr_loop cb (drop start nlh) (as_int (uint (MNL_ALIGN32 (msg_len nlh)) - int start)) MNL_CB_OK s)"

definition mnl_nlmsg_ok :: "u8 list \<Rightarrow> int \<Rightarrow> bool" where
  "mnl_nlmsg_ok nlh len \<longleftrightarrow> len \<ge> 16 \<and> uint (msg_len nlh) \<ge> 16 \<and> sint (msg_len nlh) \<le> len"

definition mnl_nlmsg_portid_ok :: "u8 list \<Rightarrow> u32 \<Rightarrow> bool" where
  "mnl_nlmsg_portid_ok nlh portid \<longleftrightarrow> (if msg_pid nlh \<noteq> 0 \<and> portid \<noteq> 0 then msg_pid nlh = portid else True)"

definition mnl_nlmsg_seq_ok :: "u8 list \<Rightarrow> u32 \<Rightarrow> bool" where
  "mnl_nlmsg_seq_ok nlh seq \<longleftrightarrow> (if msg_seq nlh \<noteq> 0 \<and> seq \<noteq> 0 then msg_seq nlh = seq else True)"

text \<open>A callback on a message: its result, with \<open>errno\<close> and the data.\<close>

type_synonym 'a nl_state = "int \<times> 'a"
type_synonym 'a mnl_cb = "u8 list \<Rightarrow> 'a nl_state \<Rightarrow> int \<times> 'a nl_state"

definition mnl_cb_noop :: "'a mnl_cb" where
  "mnl_cb_noop nlh st = (MNL_CB_OK, st)"

definition mnl_cb_error :: "'a mnl_cb" where
  "mnl_cb_error nlh st =
     (let err = sint (get32 (mnl_nlmsg_get_payload nlh))
      in if unat (msg_len nlh) < MNL_NLMSG_HDRLEN + 20 then (MNL_CB_ERROR, (EBADMSG, snd st))
         else (if err = 0 then MNL_CB_STOP else MNL_CB_ERROR, ((if err < 0 then as_int (- err) else err), snd st)))"

definition mnl_cb_stop :: "'a mnl_cb" where
  "mnl_cb_stop nlh st = (MNL_CB_STOP, st)"

definition default_cb_array :: "'a mnl_cb option list" where
  "default_cb_array = [None, Some mnl_cb_noop, Some mnl_cb_error, Some mnl_cb_stop, Some mnl_cb_noop] @ replicate 11 None"

definition mnlg_cb_noop :: "'a mnl_cb" where
  "mnlg_cb_noop nlh st = (MNL_CB_OK, st)"

definition mnlg_cb_error :: "'a mnl_cb" where
  "mnlg_cb_error nlh st =
     (let err = sint (get32 (mnl_nlmsg_get_payload nlh))
      in if unat (msg_len nlh) < MNL_NLMSG_HDRLEN + 20 then (MNL_CB_ERROR, (EBADMSG, snd st))
         else (if err = 0 then MNL_CB_STOP else MNL_CB_ERROR, ((if err < 0 then as_int (- err) else err), snd st)))"

definition mnlg_cb_stop :: "'a mnl_cb" where
  "mnlg_cb_stop nlh st =
     (if msg_flags nlh AND NLM_F_MULTI \<noteq> 0 \<and> unat (msg_len nlh) = MNL_NLMSG_HDRLEN + 4 then
        let error = sint (get32 (mnl_nlmsg_get_payload nlh))
        in (if error = 0 then MNL_CB_STOP else MNL_CB_ERROR, ((if error < 0 then as_int (- error) else error), snd st))
      else (MNL_CB_STOP, st))"

definition mnlg_cb_array :: "'a mnl_cb option list" where
  "mnlg_cb_array = [None, Some mnlg_cb_noop, Some mnlg_cb_error, Some mnlg_cb_stop, Some mnlg_cb_noop]"

text \<open>Which callback handles a message.\<close>

definition choose_cb :: "'a mnl_cb option \<Rightarrow> 'a mnl_cb option list \<Rightarrow> u8 list \<Rightarrow> 'a mnl_cb option" where
  "choose_cb cb_data cb_ctl_array nlh =
     (let ty = unat (msg_type nlh)
      in if msg_type nlh \<ge> NLMSG_MIN_TYPE then cb_data
         else if ty < length cb_ctl_array then cb_ctl_array ! ty
         else default_cb_array ! ty)"

partial_function (option) mnl_cb_loop ::
    "u32 \<Rightarrow> u32 \<Rightarrow> 'a mnl_cb option \<Rightarrow> 'a mnl_cb option list \<Rightarrow> u8 list \<Rightarrow> int \<Rightarrow> int \<Rightarrow> 'a nl_state \<Rightarrow> (int \<times> 'a nl_state) option" where
  "mnl_cb_loop seq portid cb_data ctl nlh len ret st =
     (if \<not> mnl_nlmsg_ok nlh len then Some (ret, st)
      else if \<not> mnl_nlmsg_portid_ok nlh portid then Some (- 1, (ESRCH, snd st))
      else if \<not> mnl_nlmsg_seq_ok nlh seq then Some (- 1, (EPROTO, snd st))
      else if msg_flags nlh AND NLM_F_DUMP_INTR \<noteq> 0 then Some (- 1, (EINTR, snd st))
      else
        let step = MNL_ALIGN32 (msg_len nlh)
        in case choose_cb cb_data ctl nlh of
             None \<Rightarrow> mnl_cb_loop seq portid cb_data ctl (drop (unat step) nlh) (as_int (len - uint step)) ret st
           | Some cb \<Rightarrow>
               (let (ret', st') = cb nlh st
                in if ret' \<le> MNL_CB_STOP then Some (ret', st')
                   else mnl_cb_loop seq portid cb_data ctl (drop (unat step) nlh) (as_int (len - uint step)) ret' st'))"

definition mnl_cb_run2 ::
    "u8 list \<Rightarrow> u32 \<Rightarrow> u32 \<Rightarrow> 'a mnl_cb option \<Rightarrow> 'a mnl_cb option list \<Rightarrow> 'a nl_state \<Rightarrow> (int \<times> 'a nl_state) option" where
  "mnl_cb_run2 buf seq portid cb_data ctl st = mnl_cb_loop seq portid cb_data ctl buf (int (length buf)) MNL_CB_OK st"

definition mnl_cb_run :: "u8 list \<Rightarrow> u32 \<Rightarrow> u32 \<Rightarrow> 'a mnl_cb option \<Rightarrow> 'a nl_state \<Rightarrow> (int \<times> 'a nl_state) option" where
  "mnl_cb_run buf seq portid cb_data st = mnl_cb_run2 buf seq portid cb_data [] st"

section \<open>Sockets\<close>

type_synonym datagram = "int + u8 list"

record 'k nl_env =
  nl_pagesize :: nat
  nl_time :: u32
  nl_socket :: "int option"
  nl_bind :: "int option"
  nl_getsockname :: "int + nat \<times> u16 \<times> u32"
  nl_sendto :: "u8 list \<Rightarrow> 'k \<Rightarrow> (int + datagram list) \<times> 'k"

definition mnl_ideal_socket_buffer_size :: "'k nl_env \<Rightarrow> nat" where
  "mnl_ideal_socket_buffer_size env = (if nl_pagesize env > 8192 then 8192 else nl_pagesize env)"

text \<open>Opening and binding: \<open>errno\<close>, or the port that the kernel assigned.\<close>

definition mnl_socket_bind :: "'k nl_env \<Rightarrow> int + u32" where
  "mnl_socket_bind env =
     (case nl_bind env of
        Some e \<Rightarrow> Inl e
      | None \<Rightarrow>
          (case nl_getsockname env of
             Inl e \<Rightarrow> Inl e
           | Inr (addr_len, nl_family, nl_pid) \<Rightarrow>
               if addr_len \<noteq> 12 then Inl EINVAL else if nl_family \<noteq> AF_NETLINK then Inl EINVAL else Inr nl_pid))"

definition mnl_socket_open :: "'k nl_env \<Rightarrow> int + u32" where
  "mnl_socket_open env = (case nl_socket env of Some e \<Rightarrow> Inl e | None \<Rightarrow> mnl_socket_bind env)"

text \<open>The first datagram that waits, and those behind it; \<open>None\<close> when the call blocks for ever.\<close>

definition mnl_socket_recvfrom :: "nat \<Rightarrow> datagram list \<Rightarrow> (datagram \<times> datagram list) option" where
  "mnl_socket_recvfrom bufsiz queue =
     (case queue of
        [] \<Rightarrow> None
      | Inl e # rest \<Rightarrow> Some (Inl e, rest)
      | Inr d # rest \<Rightarrow> Some (if length d > bufsiz then Inl ENOSPC else Inr d, rest))"

record mnlg_socket =
  nlg_id :: u16
  nlg_version :: u8
  nlg_portid :: u32
  nlg_queue :: "datagram list"

definition mnlg_msg_prepare :: "'k nl_env \<Rightarrow> u8 \<Rightarrow> u16 \<Rightarrow> u16 \<Rightarrow> u8 \<Rightarrow> nlmsghdr" where
  "mnlg_msg_prepare env cmd flags fam version =
     (let nlh = mnl_nlmsg_put_header\<lparr>nlmsg_type := fam, nlmsg_flags := flags, nlmsg_seq := nl_time env\<rparr>;
          nlh = mnl_nlmsg_put_extra_header nlh 4
      in nlh\<lparr>nlmsg_body := (nlmsg_body nlh)[0 := cmd, 1 := version]\<rparr>)"

text \<open>Sending puts the answers of the kernel behind what waits already.\<close>

definition mnlg_socket_send :: "'k nl_env \<Rightarrow> mnlg_socket \<Rightarrow> nlmsghdr \<Rightarrow> 'k \<Rightarrow> (int + mnlg_socket) \<times> 'k" where
  "mnlg_socket_send env nlg nlh k =
     (case nl_sendto env (nlmsg_bytes nlh) k of
        (Inl e, k') \<Rightarrow> (Inl e, k')
      | (Inr ds, k') \<Rightarrow> (Inr (nlg\<lparr>nlg_queue := nlg_queue nlg @ ds\<rparr>), k'))"

text \<open>The loop that receives: what it returns, with the state of the callback and the rest of the queue.\<close>

fun mnlg_recv_loop ::
    "nat \<Rightarrow> u32 \<Rightarrow> u32 \<Rightarrow> 'a mnl_cb option \<Rightarrow> datagram list \<Rightarrow> 'a nl_state \<Rightarrow> (int \<times> 'a nl_state \<times> datagram list) option" where
  "mnlg_recv_loop bufsiz seq portid cb [] st = None"
| "mnlg_recv_loop bufsiz seq portid cb (d # queue) st =
     (case mnl_socket_recvfrom bufsiz (d # queue) of
        None \<Rightarrow> None
      | Some (Inl e, _) \<Rightarrow> Some (- 1, (e, snd st), queue)
      | Some (Inr bytes, _) \<Rightarrow>
          if bytes = [] then Some (0, st, queue)
          else
            case mnl_cb_run2 bytes seq portid cb mnlg_cb_array st of
              None \<Rightarrow> None
            | Some (err, st') \<Rightarrow> if err > 0 then mnlg_recv_loop bufsiz seq portid cb queue st' else Some (err, st', queue))"

definition mnlg_socket_recv_run ::
    "'k nl_env \<Rightarrow> mnlg_socket \<Rightarrow> 'a mnl_cb option \<Rightarrow> 'a nl_state \<Rightarrow> (int \<times> 'a nl_state \<times> mnlg_socket) option" where
  "mnlg_socket_recv_run env nlg cb st =
     map_option (\<lambda>(err, st', queue). (err, st', nlg\<lparr>nlg_queue := queue\<rparr>))
       (mnlg_recv_loop (mnl_ideal_socket_buffer_size env) (nl_time env) (nlg_portid nlg) cb (nlg_queue nlg) st)"

section \<open>Opening a generic netlink socket\<close>

type_synonym attr_table = "nat \<Rightarrow> u8 list option"

definition get_family_id_attr_cb :: "attr_table nl_state attr_cb" where
  "get_family_id_attr_cb attr st =
     (let ty = mnl_attr_get_type attr
      in case mnl_attr_type_valid attr CTRL_ATTR_MAX of
           Some e \<Rightarrow> (MNL_CB_ERROR, (e, snd st))
         | None \<Rightarrow>
             case (if ty = CTRL_ATTR_FAMILY_ID then mnl_attr_validate attr MNL_TYPE_U16 else None) of
               Some e \<Rightarrow> (MNL_CB_ERROR, (e, snd st))
             | None \<Rightarrow> (MNL_CB_OK, (fst st, (snd st)(unat ty := Some attr))))"

definition get_family_id_cb :: "u16 mnl_cb" where
  "get_family_id_cb nlh st =
     (let (_, e, tb) = mnl_attr_parse nlh 4 get_family_id_attr_cb (fst st, (\<lambda>_. None))
      in case tb (unat CTRL_ATTR_FAMILY_ID) of
           None \<Rightarrow> (MNL_CB_ERROR, (e, snd st))
         | Some attr \<Rightarrow> (MNL_CB_OK, (e, mnl_attr_get_u16 attr)))"

text \<open>The socket, or \<open>errno\<close> after the failure.\<close>

definition mnlg_socket_open :: "'k nl_env \<Rightarrow> string \<Rightarrow> u8 \<Rightarrow> 'k \<Rightarrow> ((int + mnlg_socket) \<times> 'k) option" where
  "mnlg_socket_open env family_name version k =
     (case mnl_socket_open env of
        Inl e \<Rightarrow> Some (Inl e, k)
      | Inr portid \<Rightarrow>
          let nlg = \<lparr>nlg_id = 0, nlg_version = 0, nlg_portid = portid, nlg_queue = []\<rparr>;
              nlh = mnlg_msg_prepare env CTRL_CMD_GETFAMILY (NLM_F_REQUEST OR NLM_F_ACK) GENL_ID_CTRL 1;
              nlh = mnl_attr_put_strz nlh CTRL_ATTR_FAMILY_NAME family_name
          in case mnlg_socket_send env nlg nlh k of
               (Inl e, k') \<Rightarrow> Some (Inl e, k')
             | (Inr nlg', k') \<Rightarrow>
                 (case mnlg_socket_recv_run env nlg' (Some get_family_id_cb) (0, 0) of
                    None \<Rightarrow> None
                  | Some (err, (e, fam), nlg'') \<Rightarrow>
                      if err < 0 then
                        let e' = (if e = ENOENT then EPROTONOSUPPORT else e)
                        in Some (Inl (if e' \<noteq> 0 then e' else ENOSYS), k')
                      else Some (Inr (nlg''\<lparr>nlg_id := fam, nlg_version := version\<rparr>), k')))"

section \<open>Attributes\<close>

lemma mnl_align_0 [simp]: "MNL_ALIGN n mod 4 = 0"
  by (simp add: MNL_ALIGN_def)

lemma mnl_align_id: "n mod 4 = 0 \<Longrightarrow> MNL_ALIGN n = n"
  unfolding MNL_ALIGN_def by arith

lemma mnl_align_add4 [simp]: "MNL_ALIGN (4 + n) = 4 + MNL_ALIGN n"
  unfolding MNL_ALIGN_def by arith

lemma mnl_align_bound: "MNL_ALIGN n < n + 4"
  unfolding MNL_ALIGN_def by arith

text \<open>The bytes of an attribute with its padding, and of a nest of attributes.\<close>

definition attr_bytes :: "u16 \<times> u8 list \<Rightarrow> u8 list" where
  "attr_bytes a =
     le16 (word_of_nat (4 + length (snd a))) @ le16 (fst a) @ snd a @ replicate (MNL_ALIGN (length (snd a)) - length (snd a)) 0"

definition nest_bytes :: "u16 \<Rightarrow> u8 list \<Rightarrow> u8 list" where
  "nest_bytes ty bs = le16 (word_of_nat (4 + length bs)) @ le16 (NLA_F_NESTED OR ty) @ bs"

definition short :: "u8 list \<Rightarrow> bool" where
  "short bs \<longleftrightarrow> length bs < 65000"

lemma length_attr_bytes [simp]: "length (attr_bytes a) = 4 + MNL_ALIGN (length (snd a))"
  using mnl_align_ge [of "length (snd a)"] by (simp add: attr_bytes_def)

lemma length_nest_bytes [simp]: "length (nest_bytes ty bs) = 4 + length bs"
  by (simp add: nest_bytes_def)

lemma unat_short: "n < 65536 \<Longrightarrow> unat (word_of_nat n :: u16) = n"
  by (simp add: unat_of_nat)

lemma attr_head:
  assumes "short (snd a)"
  shows "unat (nla_len (attr_bytes a @ r)) = 4 + length (snd a)" "nla_type (attr_bytes a @ r) = fst a"
  using assms unat_short [of "4 + length (snd a)"] by (simp_all add: nla_len_def nla_type_def attr_bytes_def short_def)

lemma nest_head:
  assumes "short bs"
  shows "unat (nla_len (nest_bytes ty bs @ r)) = 4 + length bs" "nla_type (nest_bytes ty bs @ r) = NLA_F_NESTED OR ty"
  using assms unat_short [of "4 + length bs"] by (simp_all add: nla_len_def nla_type_def nest_bytes_def short_def)

lemma payload_len_unat: "4 \<le> unat (nla_len a) \<Longrightarrow> unat (mnl_attr_get_payload_len a) = unat (nla_len a) - 4"
  by (simp add: mnl_attr_get_payload_len_def unat_sub word_le_nat_alt)

definition plain_type :: "u16 \<Rightarrow> bool" where
  "plain_type ty \<longleftrightarrow> ty AND NLA_TYPE_MASK = ty"

lemma attr_view:
  assumes "short (snd a)" and "plain_type (fst a)"
  shows "mnl_attr_get_type (attr_bytes a @ r) = fst a"
    "unat (mnl_attr_get_payload_len (attr_bytes a @ r)) = length (snd a)"
    "mnl_attr_get_payload (attr_bytes a @ r) = snd a @ replicate (MNL_ALIGN (length (snd a)) - length (snd a)) 0 @ r"
  using attr_head [OF assms(1)] payload_len_unat [of "attr_bytes a @ r"] assms(2)
  by (simp_all add: mnl_attr_get_type_def mnl_attr_get_payload_def attr_bytes_def MNL_ATTR_HDRLEN_def plain_type_def)

lemma nest_view:
  assumes "short bs" and "plain_type ty"
  shows "mnl_attr_get_type (nest_bytes ty bs @ r) = ty"
    "unat (mnl_attr_get_payload_len (nest_bytes ty bs @ r)) = length bs"
    "mnl_attr_get_payload (nest_bytes ty bs @ r) = bs @ r"
proof -
  have "(NLA_F_NESTED OR ty) AND NLA_TYPE_MASK = NLA_F_NESTED AND NLA_TYPE_MASK OR ty AND NLA_TYPE_MASK"
    by (rule bit.conj_disj_distrib2)
  also have "\<dots> = ty" using assms(2) by (simp add: plain_type_def NLA_F_NESTED_def NLA_TYPE_MASK_def)
  finally show "mnl_attr_get_type (nest_bytes ty bs @ r) = ty"
    using nest_head [OF assms(1)] by (simp add: mnl_attr_get_type_def)
  show "unat (mnl_attr_get_payload_len (nest_bytes ty bs @ r)) = length bs"
    using nest_head(1) [OF assms(1)] payload_len_unat [of "nest_bytes ty bs @ r"] by simp
  show "mnl_attr_get_payload (nest_bytes ty bs @ r) = bs @ r"
    by (simp add: mnl_attr_get_payload_def nest_bytes_def MNL_ATTR_HDRLEN_def)
qed

section \<open>The loop over attributes\<close>

text \<open>A block of bytes that is one attribute with its padding.\<close>

definition attr_block :: "u8 list \<Rightarrow> bool" where
  "attr_block b \<longleftrightarrow> (\<forall>r. 4 \<le> unat (nla_len (b @ r)) \<and> MNL_ALIGN (unat (nla_len (b @ r))) = length b)"

lemma attr_block_attr [simp]: "short (snd a) \<Longrightarrow> attr_block (attr_bytes a)"
  using attr_head(1) by (simp add: attr_block_def)

lemma attr_block_nest [simp]: "short bs \<Longrightarrow> length bs mod 4 = 0 \<Longrightarrow> attr_block (nest_bytes ty bs)"
  using nest_head(1) by (simp add: attr_block_def mnl_align_id)

fun run_attrs :: "'s attr_cb \<Rightarrow> u8 list list \<Rightarrow> u8 list \<Rightarrow> int \<Rightarrow> 's \<Rightarrow> int \<times> 's" where
  "run_attrs cb [] r ret s = (ret, s)"
| "run_attrs cb (b # bs) r ret s =
     (let (ret', s') = cb (b @ concat bs @ r) s in if ret' \<le> MNL_CB_STOP then (ret', s') else run_attrs cb bs r ret' s')"

lemma mnl_attr_loop_blocks:
  assumes "list_all attr_block bs"
  shows "mnl_attr_loop cb (concat bs @ r) (int (length (concat bs))) ret s = run_attrs cb bs r ret s"
  using assms
proof (induction bs arbitrary: ret s)
  case Nil
  then show ?case by (simp add: mnl_attr_loop.simps [of cb r] mnl_attr_ok_def)
next
  case (Cons b bs)
  then have b: "4 \<le> unat (nla_len (b @ concat bs @ r))" "MNL_ALIGN (unat (nla_len (b @ concat bs @ r))) = length b"
    by (auto simp: attr_block_def)
  have "unat (nla_len (b @ concat bs @ r)) \<le> length b" using mnl_align_ge [of "unat (nla_len (b @ concat bs @ r))"] b(2) by simp
  then have ok: "mnl_attr_ok (b @ concat bs @ r) (int (length b) + int (length (concat bs)))"
    using b(1) unfolding mnl_attr_ok_unat by linarith
  show ?case
    using Cons ok b(2) by (subst mnl_attr_loop.simps) (simp add: Let_def split: prod.split)
qed

lemma mnl_attr_parse_nested_blocks:
  assumes "list_all attr_block bs" and "short (concat bs)" and "plain_type ty"
  shows "mnl_attr_parse_nested (nest_bytes ty (concat bs) @ r) cb s = run_attrs cb bs r MNL_CB_OK s"
proof -
  have "uint (mnl_attr_get_payload_len (nest_bytes ty (concat bs) @ r)) = int (length (concat bs))"
    using nest_view(2) [OF assms(2,3), of r] by (metis uint_nat)
  then show ?thesis
    using nest_view(3) [OF assms(2,3), of r] mnl_attr_loop_blocks [OF assms(1), of cb r MNL_CB_OK s]
    by (simp add: mnl_attr_parse_nested_def)
qed

section \<open>Building\<close>

definition add_bytes :: "u8 list \<Rightarrow> nlmsghdr \<Rightarrow> nlmsghdr" where
  "add_bytes bs nlh = nlh\<lparr>nlmsg_body := nlmsg_body nlh @ bs\<rparr>"

lemma add_bytes_simps [simp]:
  "nlmsg_body (add_bytes bs nlh) = nlmsg_body nlh @ bs" "add_bytes [] nlh = nlh"
  "add_bytes cs (add_bytes bs nlh) = add_bytes (bs @ cs) nlh" "nlmsg_len (add_bytes bs nlh) = nlmsg_len nlh + length bs"
  by (simp_all add: add_bytes_def nlmsg_len_def)

lemma mnl_attr_put_bytes: "short data \<Longrightarrow> mnl_attr_put nlh ty data = add_bytes (attr_bytes (ty, data)) nlh"
  using mnl_align_ge [of "length data"] unat_short [of "4 + length data"]
  by (simp add: mnl_attr_put_def add_bytes_def attr_bytes_def MNL_ATTR_HDRLEN_def short_def Let_def)

lemma mnl_attr_nest_end_bytes:
  assumes "mnl_attr_nest_start nlh ty = (nlh1, start)"
  shows "mnl_attr_nest_end (add_bytes bs nlh1) start = add_bytes (nest_bytes ty bs) nlh"
  using assms by (auto simp: mnl_attr_nest_start_def mnl_attr_nest_end_def add_bytes_def nest_bytes_def Let_def)

lemma mnl_attr_nest_cancel_bytes:
  assumes "mnl_attr_nest_start nlh ty = (nlh1, start)"
  shows "mnl_attr_nest_cancel (add_bytes bs nlh1) start = nlh"
  using assms by (auto simp: mnl_attr_nest_start_def mnl_attr_nest_cancel_def add_bytes_def)

lemma mnl_attr_nest_start_len: "mnl_attr_nest_start nlh ty = (nlh1, start) \<Longrightarrow> nlmsg_len nlh1 = nlmsg_len nlh + 4"
  by (auto simp: mnl_attr_nest_start_def nlmsg_len_def)

end
