(* ===== verification/Linux.thy ===== *)
theory Linux
  imports Netlink Qsort
begin

text \<open>
  The kernel backend of Linux (\<open>src/src/ipc-linux.h\<close>): listing the interfaces over rtnetlink, setting a
  device with as many messages as it takes, and reading a device whose peers may come in several
  pieces.

  The pointers \<open>peer\<close> and \<open>allowedip\<close> of \<open>kernel_set_device\<close> are the lists of what is still to be sent,
  NULL being the empty list. The padding \<open>sin_zero\<close> of a socket address is zero.
\<close>

unbundle bit_operations_syntax

section \<open>Constants of the interface\<close>

definition WG_GENL_NAME :: string where "WG_GENL_NAME = ''wireguard''"
definition WG_GENL_VERSION :: u8 where "WG_GENL_VERSION = 1"
definition WG_CMD_GET_DEVICE :: u8 where "WG_CMD_GET_DEVICE = 0"
definition WG_CMD_SET_DEVICE :: u8 where "WG_CMD_SET_DEVICE = 1"

definition WGDEVICE_F_REPLACE_PEERS :: u32 where "WGDEVICE_F_REPLACE_PEERS = 1"
definition WGDEVICE_A_IFINDEX :: u16 where "WGDEVICE_A_IFINDEX = 1"
definition WGDEVICE_A_IFNAME :: u16 where "WGDEVICE_A_IFNAME = 2"
definition WGDEVICE_A_PRIVATE_KEY :: u16 where "WGDEVICE_A_PRIVATE_KEY = 3"
definition WGDEVICE_A_PUBLIC_KEY :: u16 where "WGDEVICE_A_PUBLIC_KEY = 4"
definition WGDEVICE_A_FLAGS :: u16 where "WGDEVICE_A_FLAGS = 5"
definition WGDEVICE_A_LISTEN_PORT :: u16 where "WGDEVICE_A_LISTEN_PORT = 6"
definition WGDEVICE_A_FWMARK :: u16 where "WGDEVICE_A_FWMARK = 7"
definition WGDEVICE_A_PEERS :: u16 where "WGDEVICE_A_PEERS = 8"

lemmas wgdevice_a_defs = WGDEVICE_A_IFINDEX_def WGDEVICE_A_IFNAME_def WGDEVICE_A_PRIVATE_KEY_def WGDEVICE_A_PUBLIC_KEY_def
  WGDEVICE_A_FLAGS_def WGDEVICE_A_LISTEN_PORT_def WGDEVICE_A_FWMARK_def WGDEVICE_A_PEERS_def

definition WGPEER_F_REMOVE_ME :: u32 where "WGPEER_F_REMOVE_ME = 1"
definition WGPEER_F_REPLACE_ALLOWEDIPS :: u32 where "WGPEER_F_REPLACE_ALLOWEDIPS = 2"
definition WGPEER_A_PUBLIC_KEY :: u16 where "WGPEER_A_PUBLIC_KEY = 1"
definition WGPEER_A_PRESHARED_KEY :: u16 where "WGPEER_A_PRESHARED_KEY = 2"
definition WGPEER_A_FLAGS :: u16 where "WGPEER_A_FLAGS = 3"
definition WGPEER_A_ENDPOINT :: u16 where "WGPEER_A_ENDPOINT = 4"
definition WGPEER_A_PERSISTENT_KEEPALIVE_INTERVAL :: u16 where "WGPEER_A_PERSISTENT_KEEPALIVE_INTERVAL = 5"
definition WGPEER_A_LAST_HANDSHAKE_TIME :: u16 where "WGPEER_A_LAST_HANDSHAKE_TIME = 6"
definition WGPEER_A_RX_BYTES :: u16 where "WGPEER_A_RX_BYTES = 7"
definition WGPEER_A_TX_BYTES :: u16 where "WGPEER_A_TX_BYTES = 8"
definition WGPEER_A_ALLOWEDIPS :: u16 where "WGPEER_A_ALLOWEDIPS = 9"

lemmas wgpeer_a_defs = WGPEER_A_PUBLIC_KEY_def WGPEER_A_PRESHARED_KEY_def WGPEER_A_FLAGS_def WGPEER_A_ENDPOINT_def
  WGPEER_A_PERSISTENT_KEEPALIVE_INTERVAL_def WGPEER_A_LAST_HANDSHAKE_TIME_def WGPEER_A_RX_BYTES_def WGPEER_A_TX_BYTES_def
  WGPEER_A_ALLOWEDIPS_def

definition WGALLOWEDIP_A_FAMILY :: u16 where "WGALLOWEDIP_A_FAMILY = 1"
definition WGALLOWEDIP_A_IPADDR :: u16 where "WGALLOWEDIP_A_IPADDR = 2"
definition WGALLOWEDIP_A_CIDR_MASK :: u16 where "WGALLOWEDIP_A_CIDR_MASK = 3"
definition WGALLOWEDIP_A_FLAGS :: u16 where "WGALLOWEDIP_A_FLAGS = 4"

lemmas wgallowedip_a_defs = WGALLOWEDIP_A_FAMILY_def WGALLOWEDIP_A_IPADDR_def WGALLOWEDIP_A_CIDR_MASK_def WGALLOWEDIP_A_FLAGS_def

definition IFLA_IFNAME :: u16 where "IFLA_IFNAME = 3"
definition IFLA_LINKINFO :: u16 where "IFLA_LINKINFO = 18"
definition IFLA_INFO_KIND :: u16 where "IFLA_INFO_KIND = 1"
definition RTM_GETLINK :: u16 where "RTM_GETLINK = 18"
definition sizeof_ifinfomsg :: nat where "sizeof_ifinfomsg = 16"
definition sizeof_genlmsghdr :: nat where "sizeof_genlmsghdr = 4"
definition ENAMETOOLONG :: int where "ENAMETOOLONG = 36"

section \<open>Listing interfaces\<close>

record interface =
  if_name :: "string option"
  is_wireguard :: bool

definition parse_linkinfo :: "interface nl_state attr_cb" where
  "parse_linkinfo attr st =
     (MNL_CB_OK,
      (if mnl_attr_get_type attr = IFLA_INFO_KIND \<and> WG_GENL_NAME = mnl_attr_get_str attr
       then (fst st, (snd st)\<lparr>is_wireguard := True\<rparr>) else st))"

definition parse_infomsg :: "interface nl_state attr_cb" where
  "parse_infomsg attr st =
     (if mnl_attr_get_type attr = IFLA_LINKINFO then mnl_attr_parse_nested attr parse_linkinfo st
      else if mnl_attr_get_type attr = IFLA_IFNAME then (MNL_CB_OK, (fst st, (snd st)\<lparr>if_name := Some (mnl_attr_get_str attr)\<rparr>))
      else (MNL_CB_OK, st))"

text \<open>The names in the order in which \<open>string_list_add\<close> is called with them.\<close>

definition read_devices_cb :: "string list mnl_cb" where
  "read_devices_cb nlh st =
     (let (ret, e, i) = mnl_attr_parse nlh sizeof_ifinfomsg parse_infomsg (fst st, \<lparr>if_name = None, is_wireguard = False\<rparr>)
      in if ret \<noteq> MNL_CB_OK then (ret, (e, snd st))
         else
           let names = (case if_name i of Some name \<Rightarrow> if is_wireguard i then snd st @ [name] else snd st | None \<Rightarrow> snd st)
           in (if msg_type nlh \<noteq> NLMSG_DONE then MNL_CB_OK + 1 else MNL_CB_OK, (e, names)))"

fun list_loop :: "nat \<Rightarrow> u32 \<Rightarrow> u32 \<Rightarrow> datagram list \<Rightarrow> string list \<Rightarrow> (int + string list) option" where
  "list_loop bufsiz seq portid [] names = None"
| "list_loop bufsiz seq portid (d # queue) names =
     (case mnl_socket_recvfrom bufsiz (d # queue) of
        None \<Rightarrow> None
      | Some (Inl e, _) \<Rightarrow> Some (Inl (- e))
      | Some (Inr bytes, _) \<Rightarrow>
          (case mnl_cb_run bytes seq portid (Some read_devices_cb) (0, names) of
             None \<Rightarrow> None
           | Some (len, (e, names')) \<Rightarrow>
               if len < 0 \<and> e \<noteq> EINTR then Some (Inl (- e))
               else if len = MNL_CB_OK + 1 then list_loop bufsiz seq portid queue names'
               else Some (Inr names')))"

definition kernel_get_wireguard_interfaces :: "'k nl_env \<Rightarrow> 'k \<Rightarrow> ((int + string list) \<times> 'k) option" where
  "kernel_get_wireguard_interfaces env k =
     (case mnl_socket_open env of
        Inl e \<Rightarrow> Some (Inl (- e), k)
      | Inr portid \<Rightarrow>
          let seq = nl_time env;
              nlh = mnl_nlmsg_put_header\<lparr>nlmsg_type := RTM_GETLINK, nlmsg_flags := NLM_F_REQUEST OR NLM_F_ACK OR NLM_F_DUMP, nlmsg_seq := seq\<rparr>;
              nlh = mnl_nlmsg_put_extra_header nlh sizeof_ifinfomsg
          in case nl_sendto env (nlmsg_bytes nlh) k of
               (Inl e, k') \<Rightarrow> Some (Inl (- e), k')
             | (Inr ds, k') \<Rightarrow>
                 map_option (\<lambda>r. (r, k')) (list_loop (mnl_ideal_socket_buffer_size env) seq portid ds []))"

section \<open>Setting a device\<close>

definition sockaddr_bytes :: "sockaddr \<Rightarrow> u8 list" where
  "sockaddr_bytes a =
     (case a of
        Sa_none \<Rightarrow> []
      | Sa_in addr port \<Rightarrow> le16 AF_INET @ be16 port @ be32 addr @ replicate 8 0
      | Sa_in6 addr port flow scope \<Rightarrow> le16 AF_INET6 @ be16 port @ be32 flow @ concat (map be32 addr) @ le32 scope)"

type_synonym attr = "u16 \<times> u8 list"

definition attr_if :: "bool \<Rightarrow> u16 \<Rightarrow> u8 list \<Rightarrow> attr list" where
  "attr_if c ty data = (if c then [(ty, data)] else [])"

text \<open>Attributes one after the other: the message at the first that does not fit, or with all of them.\<close>

fun put_checks :: "nat \<Rightarrow> attr list \<Rightarrow> nlmsghdr \<Rightarrow> nlmsghdr + nlmsghdr" where
  "put_checks buflen [] nlh = Inr nlh"
| "put_checks buflen ((ty, data) # as) nlh =
     (case mnl_attr_put_check nlh buflen ty data of None \<Rightarrow> Inl nlh | Some nlh' \<Rightarrow> put_checks buflen as nlh')"

definition device_attrs :: "wgdevice \<Rightarrow> attr list" where
  "device_attrs d =
     (let flags = (if dev_has d WGDEVICE_REPLACE_PEERS then WGDEVICE_F_REPLACE_PEERS else 0)
      in attr_if (dev_has d WGDEVICE_HAS_PRIVATE_KEY) WGDEVICE_A_PRIVATE_KEY (private_key d)
         @ attr_if (dev_has d WGDEVICE_HAS_LISTEN_PORT) WGDEVICE_A_LISTEN_PORT (le16 (listen_port d))
         @ attr_if (dev_has d WGDEVICE_HAS_FWMARK) WGDEVICE_A_FWMARK (le32 (fwmark d))
         @ attr_if (flags \<noteq> 0) WGDEVICE_A_FLAGS (le32 flags))"

text \<open>The attributes of a peer; \<open>first\<close> unless it continues an earlier message.\<close>

definition peer_attrs :: "bool \<Rightarrow> wgpeer \<Rightarrow> attr list" where
  "peer_attrs first p =
     (let flags = (if peer_has p WGPEER_REMOVE_ME then WGPEER_F_REMOVE_ME else 0)
                  OR (if first \<and> peer_has p WGPEER_REPLACE_ALLOWEDIPS then WGPEER_F_REPLACE_ALLOWEDIPS else 0)
      in [(WGPEER_A_PUBLIC_KEY, peer_public_key p)]
         @ (if first then
              attr_if (peer_has p WGPEER_HAS_PRESHARED_KEY) WGPEER_A_PRESHARED_KEY (preshared_key p)
              @ attr_if (has_endpoint (endpoint p)) WGPEER_A_ENDPOINT (sockaddr_bytes (endpoint p))
              @ attr_if (peer_has p WGPEER_HAS_PERSISTENT_KEEPALIVE_INTERVAL) WGPEER_A_PERSISTENT_KEEPALIVE_INTERVAL
                  (le16 (persistent_keepalive_interval p))
            else [])
         @ attr_if (flags \<noteq> 0) WGPEER_A_FLAGS (le32 flags))"

definition allowedip_attrs :: "wgallowedip \<Rightarrow> attr list" where
  "allowedip_attrs a =
     [(WGALLOWEDIP_A_FAMILY, le16 (family a))]
     @ (if family a = AF_INET then [(WGALLOWEDIP_A_IPADDR, be32 (ip4 a))]
        else if family a = AF_INET6 then [(WGALLOWEDIP_A_IPADDR, concat (map be32 (ip_words a)))] else [])
     @ [(WGALLOWEDIP_A_CIDR_MASK, [cidr a])]
     @ attr_if (aip_flags a \<noteq> 0) WGALLOWEDIP_A_FLAGS (le32 (aip_flags a))"

text \<open>The allowed IPs that fit, and those that are left.\<close>

fun put_allowedips :: "nat \<Rightarrow> wgallowedip list \<Rightarrow> nlmsghdr \<Rightarrow> nlmsghdr \<times> wgallowedip list" where
  "put_allowedips buflen [] nlh = (nlh, [])"
| "put_allowedips buflen (a # as) nlh =
     (case mnl_attr_nest_start_check nlh buflen 0 of
        None \<Rightarrow> (nlh, a # as)
      | Some (nlh1, allowedip_nest) \<Rightarrow>
          (case put_checks buflen (allowedip_attrs a) nlh1 of
             Inl nlh2 \<Rightarrow> (mnl_attr_nest_cancel nlh2 allowedip_nest, a # as)
           | Inr nlh2 \<Rightarrow> put_allowedips buflen as (mnl_attr_nest_end nlh2 allowedip_nest)))"

text \<open>
  The loop over the peers: the message, with the peers and the allowed IPs of the first of them that
  are left.
\<close>

fun put_peers :: "nat \<Rightarrow> wgpeer list \<Rightarrow> wgallowedip list \<Rightarrow> nlmsghdr \<Rightarrow> nlmsghdr \<times> wgpeer list \<times> wgallowedip list" where
  "put_peers buflen [] allowedip nlh = (nlh, [], allowedip)"
| "put_peers buflen (p # ps) allowedip nlh =
     (case mnl_attr_nest_start_check nlh buflen 0 of
        None \<Rightarrow> (nlh, p # ps, allowedip)
      | Some (nlh1, peer_nest) \<Rightarrow>
          (case put_checks buflen (peer_attrs (allowedip = []) p) nlh1 of
             Inl nlh2 \<Rightarrow> (mnl_attr_nest_cancel nlh2 peer_nest, p # ps, allowedip)
           | Inr nlh2 \<Rightarrow>
               if allowedips p = [] then put_peers buflen ps allowedip (mnl_attr_nest_end nlh2 peer_nest)
               else
                 let todo = (if allowedip = [] then allowedips p else allowedip)
                 in case mnl_attr_nest_start_check nlh2 buflen WGPEER_A_ALLOWEDIPS of
                      None \<Rightarrow> (mnl_attr_nest_end nlh2 peer_nest, p # ps, todo)
                    | Some (nlh3, allowedips_nest) \<Rightarrow>
                        let (nlh4, left) = put_allowedips buflen todo nlh3;
                            nlh5 = mnl_attr_nest_end (mnl_attr_nest_end nlh4 allowedips_nest) peer_nest
                        in if left \<noteq> [] then (nlh5, p # ps, left) else put_peers buflen ps [] nlh5))"

text \<open>One message; \<open>peer\<close> is \<open>None\<close> for the first.\<close>

definition set_message ::
    "'k nl_env \<Rightarrow> mnlg_socket \<Rightarrow> wgdevice \<Rightarrow> wgpeer list option \<Rightarrow> wgallowedip list \<Rightarrow> nlmsghdr \<times> wgpeer list \<times> wgallowedip list" where
  "set_message env nlg d peer allowedip =
     (let nlh = mnlg_msg_prepare env WG_CMD_SET_DEVICE (NLM_F_REQUEST OR NLM_F_ACK) (nlg_id nlg) (nlg_version nlg);
          nlh = mnl_attr_put_strz nlh WGDEVICE_A_IFNAME (dev_name d);
          nlh = (if peer = None then fold (\<lambda>(ty, data) nlh. mnl_attr_put nlh ty data) (device_attrs d) nlh else nlh)
      in if peers d = [] then (nlh, [], allowedip)
         else
           let (nlh, peers_nest) = mnl_attr_nest_start nlh WGDEVICE_A_PEERS;
               (nlh, left) = put_peers (mnl_ideal_socket_buffer_size env) (case peer of None \<Rightarrow> peers d | Some ps \<Rightarrow> ps) allowedip nlh
           in (mnl_attr_nest_end nlh peers_nest, left))"

partial_function (option) set_loop ::
    "'k nl_env \<Rightarrow> mnlg_socket \<Rightarrow> wgdevice \<Rightarrow> wgpeer list option \<Rightarrow> wgallowedip list \<Rightarrow> 'k \<Rightarrow> (int \<times> 'k) option" where
  "set_loop env nlg d peer allowedip k =
     (let (nlh, ps, as) = set_message env nlg d peer allowedip
      in case mnlg_socket_send env nlg nlh k of
           (Inl e, k') \<Rightarrow> Some (- e, k')
         | (Inr nlg', k') \<Rightarrow>
             (case mnlg_socket_recv_run env nlg' (None :: unit mnl_cb option) (0, ()) of
                None \<Rightarrow> None
              | Some (err, (e, _), nlg'') \<Rightarrow>
                  if err < 0 then Some (if e \<noteq> 0 then - e else - EINVAL, k')
                  else if ps \<noteq> [] then set_loop env nlg'' d (Some ps) as k'
                  else Some (0, k')))"

definition kernel_set_device :: "'k nl_env \<Rightarrow> wgdevice \<Rightarrow> 'k \<Rightarrow> (int \<times> 'k) option" where
  "kernel_set_device env d k =
     (case mnlg_socket_open env WG_GENL_NAME WG_GENL_VERSION k of
        None \<Rightarrow> None
      | Some (Inl e, k') \<Rightarrow> Some (- e, k')
      | Some (Inr nlg, k') \<Rightarrow> set_loop env nlg d None [] k')"

section \<open>Reading a device\<close>

text \<open>A field that is set when the attribute has the right type; otherwise only \<open>errno\<close> changes.\<close>

definition validated :: "u8 list \<Rightarrow> mnl_attr_data_type \<Rightarrow> ('a \<Rightarrow> 'a) \<Rightarrow> 'a nl_state \<Rightarrow> 'a nl_state" where
  "validated attr ty f st = (case mnl_attr_validate attr ty of None \<Rightarrow> (fst st, f (snd st)) | Some e \<Rightarrow> (e, snd st))"

definition get_words :: "u8 list \<Rightarrow> u32 list" where
  "get_words bs = map (\<lambda>i. get_be32 (drop (4 * i) bs)) [0..<4]"

definition parse_allowedip_attr :: "wgallowedip nl_state attr_cb" where
  "parse_allowedip_attr attr st =
     (let ty = mnl_attr_get_type attr; payload = mnl_attr_get_payload attr; len = unat (mnl_attr_get_payload_len attr)
      in (MNL_CB_OK,
          if ty = WGALLOWEDIP_A_FAMILY then validated attr MNL_TYPE_U16 (\<lambda>a. a\<lparr>family := mnl_attr_get_u16 attr\<rparr>) st
          else if ty = WGALLOWEDIP_A_IPADDR then
            (fst st, if len = 4 then set_ip4 (get_be32 payload) (snd st)
                     else if len = 16 then (snd st)\<lparr>ip_words := get_words payload\<rparr> else snd st)
          else if ty = WGALLOWEDIP_A_CIDR_MASK then validated attr MNL_TYPE_U8 (\<lambda>a. a\<lparr>cidr := mnl_attr_get_u8 attr\<rparr>) st
          else st))"

definition parse_allowedips_attr :: "wgpeer nl_state attr_cb" where
  "parse_allowedips_attr attr st =
     (let (ret, e, a) = mnl_attr_parse_nested attr parse_allowedip_attr (fst st, zero_allowedip);
          st' = (e, (snd st)\<lparr>allowedips := allowedips (snd st) @ [a]\<rparr>)
      in if ret = 0 then (ret, st')
         else if \<not> (family a = AF_INET \<and> cidr a \<le> 32 \<or> family a = AF_INET6 \<and> cidr a \<le> 128) then (MNL_CB_ERROR, st')
         else (MNL_CB_OK, st'))"

definition get_sockaddr :: "u8 list \<Rightarrow> nat \<Rightarrow> sockaddr \<Rightarrow> sockaddr" where
  "get_sockaddr bs len old =
     (if get16 bs = AF_INET \<and> len = sizeof_sockaddr_in then Sa_in (get_be32 (drop 4 bs)) (get_be16 (drop 2 bs))
      else if get16 bs = AF_INET6 \<and> len = sizeof_sockaddr_in6
      then Sa_in6 (get_words (drop 8 bs)) (get_be16 (drop 2 bs)) (get_be32 (drop 4 bs)) (get32 (drop 24 bs))
      else old)"

definition parse_peer :: "wgpeer nl_state attr_cb" where
  "parse_peer attr st =
     (let ty = mnl_attr_get_type attr; payload = mnl_attr_get_payload attr; len = unat (mnl_attr_get_payload_len attr); (e, p) = st
      in if ty = WGPEER_A_PUBLIC_KEY then
           (MNL_CB_OK, (e, if len = WG_KEY_LEN then peer_or WGPEER_HAS_PUBLIC_KEY (p\<lparr>peer_public_key := take WG_KEY_LEN payload\<rparr>) else p))
         else if ty = WGPEER_A_PRESHARED_KEY then
           (MNL_CB_OK,
            (e, if len = WG_KEY_LEN then
                  let p' = p\<lparr>preshared_key := take WG_KEY_LEN payload\<rparr>
                  in if \<not> key_is_zero (preshared_key p') then peer_or WGPEER_HAS_PRESHARED_KEY p' else p'
                else p))
         else if ty = WGPEER_A_ENDPOINT then
           (MNL_CB_OK, (e, if len < 16 then p else p\<lparr>endpoint := get_sockaddr payload len (endpoint p)\<rparr>))
         else if ty = WGPEER_A_PERSISTENT_KEEPALIVE_INTERVAL then
           (MNL_CB_OK, validated attr MNL_TYPE_U16 (\<lambda>p. p\<lparr>persistent_keepalive_interval := mnl_attr_get_u16 attr\<rparr>) st)
         else if ty = WGPEER_A_LAST_HANDSHAKE_TIME then
           (MNL_CB_OK,
            (e, if len = 16 then p\<lparr>last_handshake_sec := sint (get64 payload), last_handshake_nsec := sint (get64 (drop 8 payload))\<rparr> else p))
         else if ty = WGPEER_A_RX_BYTES then (MNL_CB_OK, validated attr MNL_TYPE_U64 (\<lambda>p. p\<lparr>rx_bytes := mnl_attr_get_u64 attr\<rparr>) st)
         else if ty = WGPEER_A_TX_BYTES then (MNL_CB_OK, validated attr MNL_TYPE_U64 (\<lambda>p. p\<lparr>tx_bytes := mnl_attr_get_u64 attr\<rparr>) st)
         else if ty = WGPEER_A_ALLOWEDIPS then mnl_attr_parse_nested attr parse_allowedips_attr st
         else (MNL_CB_OK, st))"

definition parse_peers :: "wgdevice nl_state attr_cb" where
  "parse_peers attr st =
     (let (ret, e, p) = mnl_attr_parse_nested attr parse_peer (fst st, zero_peer);
          st' = (e, (snd st)\<lparr>peers := peers (snd st) @ [p]\<rparr>)
      in if ret = 0 then (ret, st')
         else if \<not> peer_has p WGPEER_HAS_PUBLIC_KEY then (MNL_CB_ERROR, st')
         else (MNL_CB_OK, st'))"

definition parse_device :: "wgdevice nl_state attr_cb" where
  "parse_device attr st =
     (let ty = mnl_attr_get_type attr; payload = mnl_attr_get_payload attr; len = unat (mnl_attr_get_payload_len attr); (e, d) = st
      in if ty = WGDEVICE_A_IFINDEX then (MNL_CB_OK, validated attr MNL_TYPE_U32 (\<lambda>d. d\<lparr>ifindex := mnl_attr_get_u32 attr\<rparr>) st)
         else if ty = WGDEVICE_A_IFNAME then (MNL_CB_OK, validated attr MNL_TYPE_STRING (set_dev_name (mnl_attr_get_str attr)) st)
         else if ty = WGDEVICE_A_PRIVATE_KEY then
           (MNL_CB_OK, (e, if len = WG_KEY_LEN then dev_or WGDEVICE_HAS_PRIVATE_KEY (d\<lparr>private_key := take WG_KEY_LEN payload\<rparr>) else d))
         else if ty = WGDEVICE_A_PUBLIC_KEY then
           (MNL_CB_OK, (e, if len = WG_KEY_LEN then dev_or WGDEVICE_HAS_PUBLIC_KEY (d\<lparr>dev_public_key := take WG_KEY_LEN payload\<rparr>) else d))
         else if ty = WGDEVICE_A_LISTEN_PORT then (MNL_CB_OK, validated attr MNL_TYPE_U16 (\<lambda>d. d\<lparr>listen_port := mnl_attr_get_u16 attr\<rparr>) st)
         else if ty = WGDEVICE_A_FWMARK then (MNL_CB_OK, validated attr MNL_TYPE_U32 (\<lambda>d. d\<lparr>fwmark := mnl_attr_get_u32 attr\<rparr>) st)
         else if ty = WGDEVICE_A_PEERS then mnl_attr_parse_nested attr parse_peers st
         else (MNL_CB_OK, st))"

definition read_device_cb :: "wgdevice mnl_cb" where
  "read_device_cb nlh st = mnl_attr_parse nlh sizeof_genlmsghdr parse_device st"

text \<open>
  Joining the pieces of peers that came in several messages. \<open>last_null\<close> is whether \<open>last_allowedip\<close> of
  the current peer is NULL; following it then is \<open>None\<close>.
\<close>

fun coalesce_loop :: "bool \<Rightarrow> wgpeer list \<Rightarrow> wgpeer list option" where
  "coalesce_loop last_null (p # q # ps) =
     (if memcmp (peer_public_key p) (peer_public_key q) WG_KEY_LEN \<noteq> 0
      then map_option (Cons p) (coalesce_loop (allowedips q = []) (q # ps))
      else if allowedips p = [] then coalesce_loop (allowedips q = []) (p\<lparr>allowedips := allowedips q\<rparr> # ps)
      else if last_null then None
      else coalesce_loop (allowedips q = []) (p\<lparr>allowedips := allowedips p @ allowedips q\<rparr> # ps))"
| "coalesce_loop last_null ps = Some ps"

definition coalesce_peers :: "wgdevice \<Rightarrow> wgdevice option" where
  "coalesce_peers d =
     map_option (\<lambda>ps. d\<lparr>peers := ps\<rparr>) (coalesce_loop (case peers d of [] \<Rightarrow> True | p # _ \<Rightarrow> allowedips p = []) (peers d))"

text \<open>The device or the return code; \<open>Inr None\<close> is a use of the NULL pointer.\<close>

partial_function (option) get_loop :: "'k nl_env \<Rightarrow> string \<Rightarrow> 'k \<Rightarrow> ((int + wgdevice option) \<times> 'k) option" where
  "get_loop env iface k =
     (case mnlg_socket_open env WG_GENL_NAME WG_GENL_VERSION k of
        None \<Rightarrow> None
      | Some (Inl e, k1) \<Rightarrow> Some (Inl (- e), k1)
      | Some (Inr nlg, k1) \<Rightarrow>
          let nlh = mnlg_msg_prepare env WG_CMD_GET_DEVICE (NLM_F_REQUEST OR NLM_F_ACK OR NLM_F_DUMP) (nlg_id nlg) (nlg_version nlg);
              nlh = mnl_attr_put_strz nlh WGDEVICE_A_IFNAME iface
          in case mnlg_socket_send env nlg nlh k1 of
               (Inl e, k2) \<Rightarrow> if e = EINTR then get_loop env iface k2 else Some (Inl (- e), k2)
             | (Inr nlg', k2) \<Rightarrow>
                 (case mnlg_socket_recv_run env nlg' (Some read_device_cb) (0, zero_device) of
                    None \<Rightarrow> None
                  | Some (err, (e, d), _) \<Rightarrow>
                      if err < 0 then
                        (if e = EINTR then get_loop env iface k2 else Some (Inl (if e \<noteq> 0 then - e else - EINVAL), k2))
                      else Some (Inr (coalesce_peers d), k2)))"

definition kernel_get_device :: "'k nl_env \<Rightarrow> string \<Rightarrow> 'k \<Rightarrow> ((int + wgdevice option) \<times> 'k) option" where
  "kernel_get_device env iface k =
     (if length iface \<ge> IFNAMSIZ then Some (Inl (- ENAMETOOLONG), k) else get_loop env iface k)"

end
