(* ===== verification/LinuxFacts.thy ===== *)
theory LinuxFacts
  imports Linux
begin

text \<open>
  Facts about the kernel backend of Linux. The writer: every message is within the buffer, and the messages
  carry the peers in pieces, none of them lost. The reader: each attribute is read as it was written,
  and joining the pieces gives the peers. The properties are at the end.
\<close>

section \<open>What the writer puts into a message\<close>

abbreviation attrs_bytes :: "attr list \<Rightarrow> u8 list" where
  "attrs_bytes as \<equiv> concat (map attr_bytes as)"

definition short_attrs :: "attr list \<Rightarrow> bool" where
  "short_attrs as \<longleftrightarrow> list_all (\<lambda>a. length (snd a) \<le> 32) as"

lemma short_32: "length bs \<le> 32 \<Longrightarrow> short bs"
  by (simp add: short_def)

lemma short_attrs_simps [simp]:
  "short_attrs []" "short_attrs (a # as) \<longleftrightarrow> length (snd a) \<le> 32 \<and> short_attrs as"
  "short_attrs (as @ bs) \<longleftrightarrow> short_attrs as \<and> short_attrs bs" "short_attrs (attr_if c ty data) \<longleftrightarrow> (c \<longrightarrow> length data \<le> 32)"
  by (auto simp: short_attrs_def attr_if_def)

lemma put_checks_bytes:
  assumes "short_attrs as" and "nlmsg_len nlh \<le> buflen"
  shows "if nlmsg_len nlh + length (attrs_bytes as) \<le> buflen
    then put_checks buflen as nlh = Inr (add_bytes (attrs_bytes as) nlh)
    else (\<exists>bs. put_checks buflen as nlh = Inl (add_bytes bs nlh))"
  using assms
proof (induction as arbitrary: nlh)
  case (Cons a as)
  obtain ty data where a: "a = (ty, data)" by (cases a)
  show ?case
  proof (cases "nlmsg_len nlh + 4 + MNL_ALIGN (length data) > buflen")
    case True
    then show ?thesis by (auto simp: a mnl_attr_put_check_def MNL_ATTR_HDRLEN_def intro: exI [of _ "[]"])
  next
    case False
    have "short data" using Cons.prems a by (simp add: short_def)
    then have "mnl_attr_put_check nlh buflen ty data = Some (add_bytes (attr_bytes a) nlh)"
      using False by (simp add: a mnl_attr_put_check_def MNL_ATTR_HDRLEN_def mnl_attr_put_bytes)
    moreover have "nlmsg_len nlh + (4 + MNL_ALIGN (length data)) \<le> buflen" using False by simp
    ultimately show ?thesis
      using Cons.IH [of "add_bytes (attr_bytes a) nlh"] Cons.prems by (auto simp: a add.assoc split: if_splits)
  qed
qed simp

text \<open>The bytes of an allowed IP.\<close>

definition aip_bytes :: "wgallowedip \<Rightarrow> u8 list" where
  "aip_bytes a = nest_bytes 0 (attrs_bytes (allowedip_attrs a))"

definition good_aip :: "wgallowedip \<Rightarrow> bool" where
  "good_aip a \<longleftrightarrow> length (ip_words a) = 4 \<and> (family a = AF_INET \<and> cidr a \<le> 32 \<or> family a = AF_INET6 \<and> cidr a \<le> 128)"

definition known_aip :: "wgallowedip \<Rightarrow> bool" where
  "known_aip a \<longleftrightarrow> length (ip_words a) = 4 \<and> (family a = AF_INET \<or> family a = AF_INET6)"

lemma good_known: "good_aip a \<Longrightarrow> known_aip a"
  by (auto simp: good_aip_def known_aip_def)

lemma length_words: "length (concat (map be32 ws)) = 4 * length ws"
  by (induction ws) simp_all

lemma short_allowedip_attrs: "known_aip a \<Longrightarrow> short_attrs (allowedip_attrs a)"
  by (auto simp: allowedip_attrs_def known_aip_def length_words)

lemma length_aip_bytes: "known_aip a \<Longrightarrow> length (aip_bytes a) \<le> 48"
  by (auto simp: aip_bytes_def allowedip_attrs_def attr_if_def known_aip_def length_words MNL_ALIGN_def)

lemma put_allowedips_bytes:
  assumes "list_all good_aip as" and "nlmsg_len nlh \<le> buflen"
  shows "\<exists>sent left. as = sent @ left \<and> put_allowedips buflen as nlh = (add_bytes (concat (map aip_bytes sent)) nlh, left)
    \<and> nlmsg_len nlh + length (concat (map aip_bytes sent)) \<le> buflen
    \<and> (left = [] \<or> buflen < nlmsg_len nlh + length (concat (map aip_bytes sent)) + 48)"
  using assms
proof (induction as arbitrary: nlh)
  case (Cons a as)
  obtain nlh1 start where st: "mnl_attr_nest_start nlh 0 = (nlh1, start)" by fastforce
  have len1: "nlmsg_len nlh1 = nlmsg_len nlh + 4" by (rule mnl_attr_nest_start_len [OF st])
  have sa: "short_attrs (allowedip_attrs a)" "length (aip_bytes a) \<le> 48" using Cons.prems by (simp_all add: short_allowedip_attrs length_aip_bytes good_known)
  have lena: "length (aip_bytes a) = 4 + length (attrs_bytes (allowedip_attrs a))" by (simp add: aip_bytes_def)
  show ?case
  proof (cases "nlmsg_len nlh + length (aip_bytes a) \<le> buflen")
    case False
    have "put_allowedips buflen (a # as) nlh = (nlh, a # as)"
    proof (cases "nlmsg_len nlh + 4 \<le> buflen")
      case True
      then obtain bs where "put_checks buflen (allowedip_attrs a) nlh1 = Inl (add_bytes bs nlh1)"
        using put_checks_bytes [OF sa(1), of nlh1 buflen] False len1 lena by auto
      then show ?thesis
        using True mnl_attr_nest_cancel_bytes [OF st] by (simp add: mnl_attr_nest_start_check_def MNL_ATTR_HDRLEN_def st)
    qed (simp add: mnl_attr_nest_start_check_def MNL_ATTR_HDRLEN_def)
    then show ?thesis
      using False sa(2) Cons.prems by (intro exI [of _ "[]"] exI [of _ "a # as"]) auto
  next
    case True
    then have "put_allowedips buflen (a # as) nlh = put_allowedips buflen as (add_bytes (aip_bytes a) nlh)"
      using put_checks_bytes [OF sa(1), of nlh1 buflen] len1 lena mnl_attr_nest_end_bytes [OF st, of "attrs_bytes (allowedip_attrs a)"]
      by (simp add: mnl_attr_nest_start_check_def MNL_ATTR_HDRLEN_def st aip_bytes_def)
    moreover obtain sent left where "as = sent @ left"
      "put_allowedips buflen as (add_bytes (aip_bytes a) nlh) = (add_bytes (concat (map aip_bytes sent)) (add_bytes (aip_bytes a) nlh), left)"
      "nlmsg_len (add_bytes (aip_bytes a) nlh) + length (concat (map aip_bytes sent)) \<le> buflen"
      "left = [] \<or> buflen < nlmsg_len (add_bytes (aip_bytes a) nlh) + length (concat (map aip_bytes sent)) + 48"
      using Cons.IH [of "add_bytes (aip_bytes a) nlh"] Cons.prems True by auto
    ultimately show ?thesis
      by (intro exI [of _ "a # sent"] exI [of _ left]) (simp add: add.assoc)
  qed
qed simp

section \<open>Pieces of peers\<close>

text \<open>
  A piece of a peer in a message: whether it is the first, and the allowed IPs it carries, if it has
  room for the nest of them.
\<close>

record piece =
  piece_peer :: wgpeer
  piece_first :: bool
  piece_aips :: "wgallowedip list option"

definition piece_bytes :: "piece \<Rightarrow> u8 list" where
  "piece_bytes x =
     nest_bytes 0 (attrs_bytes (peer_attrs (piece_first x) (piece_peer x))
       @ (case piece_aips x of None \<Rightarrow> [] | Some as \<Rightarrow> nest_bytes WGPEER_A_ALLOWEDIPS (concat (map aip_bytes as))))"

definition piece_ips :: "piece \<Rightarrow> wgallowedip list" where
  "piece_ips x = (case piece_aips x of None \<Rightarrow> [] | Some as \<Rightarrow> as)"

text \<open>
  One piece taken from what is left to send: the peers, and the allowed IPs of the first of them when
  it was begun already.
\<close>

definition todo :: "wgpeer \<Rightarrow> wgallowedip list \<Rightarrow> wgallowedip list" where
  "todo p as = (if as = [] then allowedips p else as)"

inductive take_piece :: "wgpeer list \<times> wgallowedip list \<Rightarrow> piece \<Rightarrow> wgpeer list \<times> wgallowedip list \<Rightarrow> bool" where
  last_piece: "piece_ips x = todo p as \<Longrightarrow> piece_peer x = p \<Longrightarrow> piece_first x = (as = []) \<Longrightarrow> take_piece (p # ps, as) x (ps, [])"
| more_pieces: "piece_ips x @ left = todo p as \<Longrightarrow> left \<noteq> [] \<Longrightarrow> as = [] \<or> piece_ips x \<noteq> [] \<Longrightarrow> piece_peer x = p
    \<Longrightarrow> piece_first x = (as = []) \<Longrightarrow> take_piece (p # ps, as) x (p # ps, left)"

inductive take_pieces :: "wgpeer list \<times> wgallowedip list \<Rightarrow> piece list \<Rightarrow> wgpeer list \<times> wgallowedip list \<Rightarrow> bool" where
  take_none: "take_pieces st [] st"
| take_some: "take_piece st x st' \<Longrightarrow> take_pieces st' xs st'' \<Longrightarrow> take_pieces st (x # xs) st''"

inductive_cases take_piece_elim: "take_piece (p # ps, as) x st"
inductive_cases take_pieces_Nil [elim!]: "take_pieces st [] st'"
inductive_cases take_pieces_Cons: "take_pieces st (x # xs) st'"

lemma take_pieces_append: "take_pieces st xs st' \<Longrightarrow> take_pieces st' ys st'' \<Longrightarrow> take_pieces st (xs @ ys) st''"
  by (induction rule: take_pieces.induct) (auto intro: take_pieces.intros)

definition good_peer :: "wgpeer \<Rightarrow> bool" where
  "good_peer p \<longleftrightarrow> length (peer_public_key p) = 32 \<and> length (preshared_key p) = 32 \<and> list_all good_aip (allowedips p)
     \<and> (case endpoint p of Sa_in6 addr _ _ _ \<Rightarrow> length addr = 4 | _ \<Rightarrow> True)"

lemma length_sockaddr_bytes: "good_peer p \<Longrightarrow> length (sockaddr_bytes (endpoint p)) \<le> 28"
  by (auto simp: good_peer_def sockaddr_bytes_def length_words split: sockaddr.splits)

lemma short_peer_attrs: "good_peer p \<Longrightarrow> short_attrs (peer_attrs first p)"
  using length_sockaddr_bytes [of p] by (auto simp: peer_attrs_def good_peer_def Let_def)

lemma length_peer_attrs: "good_peer p \<Longrightarrow> length (attrs_bytes (peer_attrs first p)) \<le> 200"
proof -
  assume p: "good_peer p"
  have "MNL_ALIGN (length (sockaddr_bytes (endpoint p))) \<le> 32"
    using length_sockaddr_bytes [OF p] mnl_align_bound [of "length (sockaddr_bytes (endpoint p))"] by simp
  then show ?thesis using p by (auto simp: peer_attrs_def good_peer_def attr_if_def Let_def MNL_ALIGN_def)
qed

text \<open>One peer: nothing of it fits, or a piece of it is put into the message.\<close>

definition piece_room :: nat where "piece_room = 300"

definition peer_sent :: "nat \<Rightarrow> wgpeer \<Rightarrow> wgpeer list \<Rightarrow> wgallowedip list \<Rightarrow> nlmsghdr \<Rightarrow> piece \<Rightarrow> wgallowedip list \<Rightarrow> bool" where
  "peer_sent buflen p ps as nlh x left \<longleftrightarrow> nlmsg_len nlh + length (piece_bytes x) \<le> buflen
     \<and> (if left = [] then take_piece (p # ps, as) x (ps, [])
          \<and> put_peers buflen (p # ps) as nlh = put_peers buflen ps [] (add_bytes (piece_bytes x) nlh)
        else take_piece (p # ps, as) x (p # ps, left)
          \<and> put_peers buflen (p # ps) as nlh = (add_bytes (piece_bytes x) nlh, p # ps, left))"

lemma nest_start_check:
  "mnl_attr_nest_start nlh ty = (nlh1, s)
    \<Longrightarrow> mnl_attr_nest_start_check nlh buflen ty = (if nlmsg_len nlh + 4 > buflen then None else Some (nlh1, s))"
  by (simp add: mnl_attr_nest_start_check_def MNL_ATTR_HDRLEN_def)

lemma put_peers_full:
  assumes "good_peer p" and "buflen < nlmsg_len nlh + 4 + length (attrs_bytes (peer_attrs (as = []) p))"
  shows "put_peers buflen (p # ps) as nlh = (nlh, p # ps, as)"
proof -
  obtain nlh1 s1 where s1: "mnl_attr_nest_start nlh 0 = (nlh1, s1)" by fastforce
  show ?thesis
  proof (cases "nlmsg_len nlh + 4 \<le> buflen")
    case True
    then obtain bs where "put_checks buflen (peer_attrs (as = []) p) nlh1 = Inl (add_bytes bs nlh1)"
      using put_checks_bytes [OF short_peer_attrs [OF assms(1)], of nlh1 buflen "as = []"] assms(2) mnl_attr_nest_start_len [OF s1] by auto
    then show ?thesis using True mnl_attr_nest_cancel_bytes [OF s1] by (simp add: nest_start_check [OF s1])
  qed (simp add: nest_start_check [OF s1])
qed

lemma peer_attrs_fit:
  assumes "good_peer p" and "nlmsg_len nlh + 4 + length (attrs_bytes (peer_attrs first p)) \<le> buflen" and "mnl_attr_nest_start nlh 0 = (nlh1, s1)"
  shows "mnl_attr_nest_start_check nlh buflen 0 = Some (nlh1, s1)"
    and "put_checks buflen (peer_attrs first p) nlh1 = Inr (add_bytes (attrs_bytes (peer_attrs first p)) nlh1)"
  using put_checks_bytes [OF short_peer_attrs [OF assms(1)], of nlh1 buflen first] mnl_attr_nest_start_len [OF assms(3)] assms(2)
  by (simp_all add: nest_start_check [OF assms(3)])

text \<open>A piece without a nest of allowed IPs.\<close>

lemma put_peers_bare:
  assumes "good_peer p" and "nlmsg_len nlh + 4 + length (attrs_bytes (peer_attrs True p)) \<le> buflen"
    and "allowedips p = [] \<or> buflen < nlmsg_len nlh + 4 + length (attrs_bytes (peer_attrs True p)) + 4"
  shows "peer_sent buflen p ps [] nlh \<lparr>piece_peer = p, piece_first = True, piece_aips = None\<rparr> (allowedips p)"
proof -
  let ?x = "\<lparr>piece_peer = p, piece_first = True, piece_aips = None\<rparr>" and ?A = "attrs_bytes (peer_attrs True p)"
  obtain nlh1 s1 where s1: "mnl_attr_nest_start nlh 0 = (nlh1, s1)" by fastforce
  note fit = peer_attrs_fit [OF assms(1,2) s1]
  have b: "mnl_attr_nest_end (add_bytes ?A nlh1) s1 = add_bytes (piece_bytes ?x) nlh" "length (piece_bytes ?x) = 4 + length ?A"
    using mnl_attr_nest_end_bytes [OF s1] by (simp_all add: piece_bytes_def)
  show ?thesis
  proof (cases "allowedips p = []")
    case True
    have "take_piece (p # ps, []) ?x (ps, [])" using True by (intro last_piece) (simp_all add: piece_ips_def todo_def)
    then show ?thesis using True fit b assms(2) by (simp add: peer_sent_def)
  next
    case False
    obtain nlh3 s3 where s3: "mnl_attr_nest_start (add_bytes ?A nlh1) WGPEER_A_ALLOWEDIPS = (nlh3, s3)" by fastforce
    have "take_piece (p # ps, []) ?x (p # ps, allowedips p)" using False by (intro more_pieces) (simp_all add: piece_ips_def todo_def)
    then show ?thesis
      using False fit b assms(2,3) mnl_attr_nest_start_len [OF s1] by (simp add: peer_sent_def nest_start_check [OF s3])
  qed
qed

text \<open>A piece with as many allowed IPs as there is room for.\<close>

lemma put_peers_aips:
  assumes p: "good_peer p" and as: "list_all good_aip as" and some: "allowedips p \<noteq> []"
    and room: "nlmsg_len nlh + 4 + length (attrs_bytes (peer_attrs (as = []) p)) + 4 \<le> buflen"
    and begun: "as \<noteq> [] \<Longrightarrow> nlmsg_len nlh + piece_room \<le> buflen"
  shows "\<exists>x left. peer_sent buflen p ps as nlh x left"
proof -
  let ?A = "attrs_bytes (peer_attrs (as = []) p)"
  obtain nlh1 s1 where s1: "mnl_attr_nest_start nlh 0 = (nlh1, s1)" by fastforce
  obtain nlh3 s3 where s3: "mnl_attr_nest_start (add_bytes ?A nlh1) WGPEER_A_ALLOWEDIPS = (nlh3, s3)" by fastforce
  have len: "nlmsg_len nlh1 = nlmsg_len nlh + 4" "nlmsg_len nlh3 = nlmsg_len nlh + 4 + length ?A + 4"
    using mnl_attr_nest_start_len [OF s1] mnl_attr_nest_start_len [OF s3] by simp_all
  have todo: "(if as = [] then allowedips p else as) = todo p as" by (simp add: todo_def)
  have "list_all good_aip (todo p as)" using p as by (simp add: todo_def good_peer_def)
  moreover have "nlmsg_len nlh3 \<le> buflen" using room len by simp
  ultimately obtain sent left where sl: "todo p as = sent @ left"
    "put_allowedips buflen (todo p as) nlh3 = (add_bytes (concat (map aip_bytes sent)) nlh3, left)"
    "nlmsg_len nlh3 + length (concat (map aip_bytes sent)) \<le> buflen"
    "left = [] \<or> buflen < nlmsg_len nlh3 + length (concat (map aip_bytes sent)) + 48"
    using put_allowedips_bytes [of "todo p as" nlh3 buflen] by blast
  let ?x = "\<lparr>piece_peer = p, piece_first = (as = []), piece_aips = Some sent\<rparr>" and ?C = "concat (map aip_bytes sent)"
  have b: "mnl_attr_nest_end (mnl_attr_nest_end (add_bytes ?C nlh3) s3) s1 = add_bytes (piece_bytes ?x) nlh"
    "length (piece_bytes ?x) = 4 + length ?A + 4 + length ?C"
    using mnl_attr_nest_end_bytes [OF s3, of ?C] mnl_attr_nest_end_bytes [OF s1] by (simp_all add: piece_bytes_def)
  have run: "put_peers buflen (p # ps) as nlh =
      (if left \<noteq> [] then (add_bytes (piece_bytes ?x) nlh, p # ps, left) else put_peers buflen ps [] (add_bytes (piece_bytes ?x) nlh))"
    using peer_attrs_fit [OF p _ s1, of "as = []" buflen] some room b(1) sl(2) len(1) by (simp add: nest_start_check [OF s3] todo)
  have "as = [] \<or> sent \<noteq> []" if "left \<noteq> []"
    using that sl(4) begun len length_peer_attrs [OF p, of "as = []"] by (force simp: piece_room_def)
  then have "if left = [] then take_piece (p # ps, as) ?x (ps, []) else take_piece (p # ps, as) ?x (p # ps, left)"
    using sl(1) by (auto intro!: last_piece more_pieces simp: piece_ips_def)
  then show ?thesis
    using run b(2) sl(3) len by (intro exI [of _ ?x] exI [of _ left]) (simp add: peer_sent_def)
qed

lemma put_peers_Cons:
  assumes p: "good_peer p" and as: "list_all good_aip as"
    and begun: "as \<noteq> [] \<Longrightarrow> allowedips p \<noteq> [] \<and> nlmsg_len nlh + piece_room \<le> buflen"
  shows "put_peers buflen (p # ps) as nlh = (nlh, p # ps, as) \<and> buflen < nlmsg_len nlh + piece_room
    \<or> (\<exists>x left. peer_sent buflen p ps as nlh x left)"
proof -
  let ?n = "nlmsg_len nlh + 4 + length (attrs_bytes (peer_attrs (as = []) p))"
  have A: "length (attrs_bytes (peer_attrs (as = []) p)) \<le> 200" using p by (rule length_peer_attrs)
  consider "buflen < ?n" | "?n \<le> buflen" "allowedips p = [] \<or> buflen < ?n + 4" | "allowedips p \<noteq> []" "?n + 4 \<le> buflen" by linarith
  then show ?thesis
  proof cases
    case 1
    then have "put_peers buflen (p # ps) as nlh = (nlh, p # ps, as)" by (rule put_peers_full [OF p])
    moreover have "buflen < nlmsg_len nlh + piece_room" using 1 A by (simp add: piece_room_def)
    ultimately show ?thesis by blast
  next
    case 2
    then have "as = []" using begun A by (force simp: piece_room_def)
    then show ?thesis using put_peers_bare [OF p, of nlh buflen ps] 2 by (auto simp del: put_peers.simps)
  next
    case 3
    then show ?thesis using put_peers_aips [OF p as] begun by blast
  qed
qed

lemma put_peers_bytes:
  assumes "list_all good_peer ps" and "list_all good_aip as" and "nlmsg_len nlh \<le> buflen"
    and "as \<noteq> [] \<Longrightarrow> ps \<noteq> [] \<and> allowedips (hd ps) \<noteq> [] \<and> nlmsg_len nlh + piece_room \<le> buflen"
  shows "\<exists>xs ps' as'. put_peers buflen ps as nlh = (add_bytes (concat (map piece_bytes xs)) nlh, ps', as')
    \<and> take_pieces (ps, as) xs (ps', as') \<and> nlmsg_len nlh + length (concat (map piece_bytes xs)) \<le> buflen
    \<and> (ps \<noteq> [] \<and> nlmsg_len nlh + piece_room \<le> buflen \<longrightarrow> xs \<noteq> [])"
  using assms
proof (induction ps arbitrary: as nlh)
  case Nil
  then show ?case by (intro exI [of _ "[]"]) (auto intro: take_none)
next
  case (Cons p ps)
  show ?case
  proof (cases "put_peers buflen (p # ps) as nlh = (nlh, p # ps, as) \<and> buflen < nlmsg_len nlh + piece_room")
    case True
    then show ?thesis using Cons.prems(3)
      by (intro exI [of _ "[]"] exI [of _ "p # ps"] exI [of _ as]) (auto intro: take_none simp del: put_peers.simps)
  next
    case False
    then obtain x left where x: "nlmsg_len nlh + length (piece_bytes x) \<le> buflen"
      "if left = [] then take_piece (p # ps, as) x (ps, [])
             \<and> put_peers buflen (p # ps) as nlh = put_peers buflen ps [] (add_bytes (piece_bytes x) nlh)
       else take_piece (p # ps, as) x (p # ps, left)
             \<and> put_peers buflen (p # ps) as nlh = (add_bytes (piece_bytes x) nlh, p # ps, left)"
      using put_peers_Cons [of p as nlh buflen ps] Cons.prems unfolding peer_sent_def by (auto simp del: put_peers.simps)
    show ?thesis
    proof (cases "left = []")
      case True
      obtain xs ps' as' where ih: "put_peers buflen ps [] (add_bytes (piece_bytes x) nlh) =
          (add_bytes (concat (map piece_bytes xs)) (add_bytes (piece_bytes x) nlh), ps', as')"
        "take_pieces (ps, []) xs (ps', as')"
        "nlmsg_len (add_bytes (piece_bytes x) nlh) + length (concat (map piece_bytes xs)) \<le> buflen"
        using Cons.IH [of "[]" "add_bytes (piece_bytes x) nlh"] Cons.prems x(1) by auto
      then show ?thesis
        using True x by (intro exI [of _ "x # xs"] exI [of _ ps'] exI [of _ as']) (auto intro: take_some simp del: put_peers.simps)
    next
      case False
      then show ?thesis
        using x by (intro exI [of _ "[x]"] exI [of _ "p # ps"] exI [of _ left]) (auto intro: take_some take_none simp del: put_peers.simps)
    qed
  qed
qed

section \<open>What the reader makes of the attributes\<close>

lemma plain_types [simp]:
  "plain_type 0" "plain_type WGALLOWEDIP_A_FAMILY" "plain_type WGALLOWEDIP_A_IPADDR" "plain_type WGALLOWEDIP_A_CIDR_MASK" "plain_type WGALLOWEDIP_A_FLAGS"
  "plain_type WGPEER_A_PUBLIC_KEY" "plain_type WGPEER_A_PRESHARED_KEY" "plain_type WGPEER_A_FLAGS" "plain_type WGPEER_A_ENDPOINT"
  "plain_type WGPEER_A_PERSISTENT_KEEPALIVE_INTERVAL" "plain_type WGPEER_A_ALLOWEDIPS"
  "plain_type WGDEVICE_A_IFNAME" "plain_type WGDEVICE_A_PRIVATE_KEY" "plain_type WGDEVICE_A_FLAGS" "plain_type WGDEVICE_A_LISTEN_PORT"
  "plain_type WGDEVICE_A_FWMARK" "plain_type WGDEVICE_A_PEERS"
  by (simp_all add: plain_type_def NLA_TYPE_MASK_def wgallowedip_a_defs wgpeer_a_defs wgdevice_a_defs)

lemma run_attrs_Cons:
  assumes "cb (b @ concat bs @ r) s = (MNL_CB_OK, s')"
  shows "run_attrs cb (b # bs) r ret s = run_attrs cb bs r MNL_CB_OK s'"
  using assms by (simp add: mnl_cb_defs)

lemma run_attrs_if:
  assumes "\<And>r. c \<Longrightarrow> cb (attr_bytes (ty, data) @ r) s = (MNL_CB_OK, s')"
  shows "run_attrs cb (map attr_bytes (attr_if c ty data) @ bs) r MNL_CB_OK s = run_attrs cb bs r MNL_CB_OK (if c then s' else s)"
  using assms run_attrs_Cons [of cb "attr_bytes (ty, data)" bs r s s'] by (auto simp: attr_if_def)

lemma attr_blocks [simp]: "short_attrs as \<Longrightarrow> list_all attr_block (map attr_bytes as)"
  by (induction as) (simp_all add: short_32)

text \<open>A short attribute as the callbacks see it.\<close>

lemma short_view:
  assumes "length data \<le> 32" and "plain_type ty"
  shows "mnl_attr_get_type (attr_bytes (ty, data) @ r) = ty"
    "unat (mnl_attr_get_payload_len (attr_bytes (ty, data) @ r)) = length data"
    "mnl_attr_get_payload (attr_bytes (ty, data) @ r) = data @ replicate (MNL_ALIGN (length data) - length data) 0 @ r"
  using attr_view [of "(ty, data)" r] assms by (simp_all add: short_32)

lemma get_words_bytes: "length ws = 4 \<Longrightarrow> get_words (concat (map be32 ws) @ r) = ws"
proof -
  assume "length ws = 4"
  then obtain a b c d where ws: "ws = [a, b, c, d]" by (auto simp: numeral_eq_Suc length_Suc_conv)
  have "get_be32 (be32 x @ y) = x" "drop 4 (be32 x @ y) = y" for x y by simp_all
  moreover have "drop 8 y = drop 4 (drop 4 y)" "drop 12 y = drop 4 (drop 4 (drop 4 y))" for y :: "u8 list" by simp_all
  moreover have "[0..<4] = [0, 1, 2, 3 :: nat]" by (simp add: upt_rec)
  ultimately show ?thesis unfolding ws get_words_def by (simp del: drop_drop)
qed

section \<open>Allowed IPs\<close>

definition aip_read :: "wgallowedip \<Rightarrow> wgallowedip" where
  "aip_read a =
     \<lparr>family = family a, ip_words = (if family a = AF_INET then [ip4 a, 0, 0, 0] else ip_words a), cidr = cidr a, aip_flags = 0\<rparr>"

lemma parse_allowedip_attr_simps:
  "parse_allowedip_attr (attr_bytes (WGALLOWEDIP_A_FAMILY, le16 f) @ r) (e, a) = (MNL_CB_OK, (e, a\<lparr>family := f\<rparr>))"
  "parse_allowedip_attr (attr_bytes (WGALLOWEDIP_A_IPADDR, be32 w) @ r) (e, a) = (MNL_CB_OK, (e, set_ip4 w a))"
  "length ws = 4 \<Longrightarrow> parse_allowedip_attr (attr_bytes (WGALLOWEDIP_A_IPADDR, concat (map be32 ws)) @ r) (e, a) = (MNL_CB_OK, (e, a\<lparr>ip_words := ws\<rparr>))"
  "parse_allowedip_attr (attr_bytes (WGALLOWEDIP_A_CIDR_MASK, [n]) @ r) (e, a) = (MNL_CB_OK, (e, a\<lparr>cidr := n\<rparr>))"
  "parse_allowedip_attr (attr_bytes (WGALLOWEDIP_A_FLAGS, le32 x) @ r) (e, a) = (MNL_CB_OK, (e, a))"
  by (simp_all add: parse_allowedip_attr_def short_view length_words wgallowedip_a_defs validated_def mnl_attr_validate_simps
      mnl_attr_get_u16_def mnl_attr_get_u8_def get_words_bytes plain_type_def NLA_TYPE_MASK_def)

lemma allowedip_read:
  assumes "known_aip a"
  shows "run_attrs parse_allowedip_attr (map attr_bytes (allowedip_attrs a)) r MNL_CB_OK (e, zero_allowedip) = (MNL_CB_OK, (e, aip_read a))"
proof -
  note step = parse_allowedip_attr_simps mnl_cb_defs
  have "family a = AF_INET \<or> family a \<noteq> AF_INET \<and> family a = AF_INET6" "length (ip_words a) = 4"
    using assms by (auto simp: known_aip_def)
  then show ?thesis
    by (auto simp: allowedip_attrs_def attr_if_def step aip_read_def zero_allowedip_def set_ip4_def numeral_eq_Suc)
qed

lemma short_aip: "known_aip a \<Longrightarrow> short (attrs_bytes (allowedip_attrs a))"
  using length_aip_bytes [of a] by (simp add: aip_bytes_def short_def)

lemma aip_nest_read:
  assumes "known_aip a"
  shows "parse_allowedips_attr (aip_bytes a @ r) (e, p)
    = (if good_aip a then MNL_CB_OK else MNL_CB_ERROR, (e, p\<lparr>allowedips := allowedips p @ [aip_read a]\<rparr>))"
proof -
  have "mnl_attr_parse_nested (aip_bytes a @ r) parse_allowedip_attr (e, zero_allowedip) = (MNL_CB_OK, (e, aip_read a))"
    using mnl_attr_parse_nested_blocks [of "map attr_bytes (allowedip_attrs a)" 0 r parse_allowedip_attr "(e, zero_allowedip)"]
      assms allowedip_read [of a r e] by (simp add: aip_bytes_def short_allowedip_attrs short_aip)
  then show ?thesis
    using assms by (auto simp: parse_allowedips_attr_def mnl_cb_defs Let_def good_aip_def known_aip_def aip_read_def)
qed

lemma aips_read:
  assumes "list_all good_aip as"
  shows "run_attrs parse_allowedips_attr (map aip_bytes as) r MNL_CB_OK (e, p)
    = (MNL_CB_OK, (e, p\<lparr>allowedips := allowedips p @ map aip_read as\<rparr>))"
  using assms
proof (induction as arbitrary: p)
  case (Cons a as)
  then show ?case
    using aip_nest_read [of a _ e p] by (simp add: good_known mnl_cb_defs)
qed simp

section \<open>Peers\<close>

text \<open>A piece of a peer as it is read.\<close>

definition read_psk :: "wgpeer \<Rightarrow> wgpeer \<Rightarrow> wgpeer" where
  "read_psk p q =
     (let q' = q\<lparr>preshared_key := preshared_key p\<rparr>
      in if key_is_zero (preshared_key p) then q' else peer_or WGPEER_HAS_PRESHARED_KEY q')"

definition peer_read :: "bool \<Rightarrow> wgpeer \<Rightarrow> wgallowedip list \<Rightarrow> wgpeer" where
  "peer_read first p as =
     (let q = peer_or WGPEER_HAS_PUBLIC_KEY (zero_peer\<lparr>peer_public_key := peer_public_key p\<rparr>);
          q = (if first \<and> peer_has p WGPEER_HAS_PRESHARED_KEY then read_psk p q else q);
          q = (if first then q\<lparr>endpoint := endpoint p\<rparr> else q);
          q = (if first \<and> peer_has p WGPEER_HAS_PERSISTENT_KEEPALIVE_INTERVAL
               then q\<lparr>persistent_keepalive_interval := persistent_keepalive_interval p\<rparr> else q)
      in q\<lparr>allowedips := map aip_read as\<rparr>)"

lemma get_sockaddr_bytes:
  assumes "good_peer p" and "endpoint p \<noteq> Sa_none"
  shows "get_sockaddr (sockaddr_bytes (endpoint p) @ r) (length (sockaddr_bytes (endpoint p))) old = endpoint p"
    and "16 \<le> length (sockaddr_bytes (endpoint p))"
proof -
  have d: "drop 8 y = drop 4 (drop 2 (drop 2 y))" "drop 24 y = drop 16 (drop 4 (drop 2 (drop 2 y)))"
    "drop 4 y = drop 2 (drop 2 y)" for y :: "u8 list" by simp_all
  have w: "drop 16 (concat (map be32 ws) @ y) = y" if "length ws = 4" for ws y
    using that by (simp add: length_words)
  show "get_sockaddr (sockaddr_bytes (endpoint p) @ r) (length (sockaddr_bytes (endpoint p))) old = endpoint p"
  proof (cases "endpoint p")
    case (Sa_in addr port)
    have "drop 4 (le16 AF_INET @ be16 port @ z) = z" for z by simp
    then show ?thesis using Sa_in by (simp add: sockaddr_bytes_def get_sockaddr_def sizeof_sockaddr_in_def)
  next
    case (Sa_in6 addr port flow scope)
    then have len: "length addr = 4" using assms(1) by (simp add: good_peer_def)
    let ?b = "le16 AF_INET6 @ be16 port @ be32 flow @ concat (map be32 addr) @ le32 scope @ r"
    have "drop 4 ?b = be32 flow @ concat (map be32 addr) @ le32 scope @ r" "drop 8 ?b = concat (map be32 addr) @ le32 scope @ r"
      "drop 24 ?b = le32 scope @ r"
      using w [OF len] by (simp_all add: length_words len)
    then show ?thesis
      using Sa_in6 len get_words_bytes [OF len]
      by (simp add: sockaddr_bytes_def get_sockaddr_def sizeof_sockaddr_in6_def length_words af_defs)
  qed (use assms in simp)
  show "16 \<le> length (sockaddr_bytes (endpoint p))"
    using assms by (auto simp: sockaddr_bytes_def good_peer_def length_words split: sockaddr.splits)
qed

lemma parse_peer_simps:
  "length k = 32 \<Longrightarrow> parse_peer (attr_bytes (WGPEER_A_PUBLIC_KEY, k) @ r) (e, q)
     = (MNL_CB_OK, (e, peer_or WGPEER_HAS_PUBLIC_KEY (q\<lparr>peer_public_key := k\<rparr>)))"
  "good_peer p \<Longrightarrow> parse_peer (attr_bytes (WGPEER_A_PRESHARED_KEY, preshared_key p) @ r) (e, q) = (MNL_CB_OK, (e, read_psk p q))"
  "good_peer p \<Longrightarrow> endpoint p \<noteq> Sa_none \<Longrightarrow> parse_peer (attr_bytes (WGPEER_A_ENDPOINT, sockaddr_bytes (endpoint p)) @ r) (e, q)
     = (MNL_CB_OK, (e, q\<lparr>endpoint := endpoint p\<rparr>))"
  "parse_peer (attr_bytes (WGPEER_A_PERSISTENT_KEEPALIVE_INTERVAL, le16 n) @ r) (e, q)
     = (MNL_CB_OK, (e, q\<lparr>persistent_keepalive_interval := n\<rparr>))"
  "parse_peer (attr_bytes (WGPEER_A_FLAGS, le32 f) @ r) (e, q) = (MNL_CB_OK, (e, q))"
proof -
  note view = parse_peer_def short_view wgpeer_a_defs plain_type_def NLA_TYPE_MASK_def WG_KEY_LEN_def
  show "length k = 32 \<Longrightarrow> parse_peer (attr_bytes (WGPEER_A_PUBLIC_KEY, k) @ r) (e, q)
     = (MNL_CB_OK, (e, peer_or WGPEER_HAS_PUBLIC_KEY (q\<lparr>peer_public_key := k\<rparr>)))"
    by (simp add: view)
  show "good_peer p \<Longrightarrow> parse_peer (attr_bytes (WGPEER_A_PRESHARED_KEY, preshared_key p) @ r) (e, q) = (MNL_CB_OK, (e, read_psk p q))"
    by (simp add: view read_psk_def good_peer_def Let_def)
  show "parse_peer (attr_bytes (WGPEER_A_ENDPOINT, sockaddr_bytes (endpoint p)) @ r) (e, q) = (MNL_CB_OK, (e, q\<lparr>endpoint := endpoint p\<rparr>))"
    if "good_peer p" "endpoint p \<noteq> Sa_none"
    using get_sockaddr_bytes [OF that] length_sockaddr_bytes [OF that(1)] by (simp add: view)
  show "parse_peer (attr_bytes (WGPEER_A_PERSISTENT_KEEPALIVE_INTERVAL, le16 n) @ r) (e, q)
     = (MNL_CB_OK, (e, q\<lparr>persistent_keepalive_interval := n\<rparr>))"
    by (simp add: view validated_def mnl_attr_validate_simps mnl_attr_get_u16_def)
  show "parse_peer (attr_bytes (WGPEER_A_FLAGS, le32 f) @ r) (e, q) = (MNL_CB_OK, (e, q))"
    by (simp add: view)
qed

lemma run_attrs_if_last:
  assumes "\<And>r. c \<Longrightarrow> cb (attr_bytes (ty, data) @ r) s = (MNL_CB_OK, s')"
  shows "run_attrs cb (map attr_bytes (attr_if c ty data)) r MNL_CB_OK s = (MNL_CB_OK, if c then s' else s)"
  using run_attrs_if [of c cb ty data s s' "[]" r] assms by simp

lemma peer_attrs_read:
  assumes "good_peer p"
  shows "run_attrs parse_peer (map attr_bytes (peer_attrs first p) @ bs) r MNL_CB_OK (e, zero_peer)
    = run_attrs parse_peer bs r MNL_CB_OK (e, peer_read first p [])"
proof -
  have k: "length (peer_public_key p) = 32" using assms by (simp add: good_peer_def)
  let ?q = "peer_or WGPEER_HAS_PUBLIC_KEY (zero_peer\<lparr>peer_public_key := peer_public_key p\<rparr>)"
  have fl: "run_attrs parse_peer (map attr_bytes (attr_if c WGPEER_A_FLAGS (le32 f)) @ bs) r MNL_CB_OK (e, q)
      = run_attrs parse_peer bs r MNL_CB_OK (e, q)" for c f q
    using run_attrs_if [of c parse_peer WGPEER_A_FLAGS "le32 f" "(e, q)" "(e, q)" bs r] by (simp add: parse_peer_simps)
  have psk: "run_attrs parse_peer (map attr_bytes (attr_if c WGPEER_A_PRESHARED_KEY (preshared_key p)) @ cs) r MNL_CB_OK (e, q)
      = run_attrs parse_peer cs r MNL_CB_OK (e, if c then read_psk p q else q)" for c q cs
    using run_attrs_if [of c parse_peer WGPEER_A_PRESHARED_KEY "preshared_key p" "(e, q)" "(e, read_psk p q)" cs r]
    by (simp add: parse_peer_simps assms split: if_splits)
  have ep: "run_attrs parse_peer (map attr_bytes (attr_if (endpoint p \<noteq> Sa_none) WGPEER_A_ENDPOINT (sockaddr_bytes (endpoint p))) @ cs) r MNL_CB_OK (e, q)
      = run_attrs parse_peer cs r MNL_CB_OK (e, if endpoint p \<noteq> Sa_none then q\<lparr>endpoint := endpoint p\<rparr> else q)" for q cs
    using run_attrs_if [of "endpoint p \<noteq> Sa_none" parse_peer WGPEER_A_ENDPOINT "sockaddr_bytes (endpoint p)" "(e, q)" "(e, q\<lparr>endpoint := endpoint p\<rparr>)" cs r]
    by (simp add: parse_peer_simps assms split: if_splits)
  have ka: "run_attrs parse_peer (map attr_bytes (attr_if c WGPEER_A_PERSISTENT_KEEPALIVE_INTERVAL (le16 n)) @ cs) r MNL_CB_OK (e, q)
      = run_attrs parse_peer cs r MNL_CB_OK (e, if c then q\<lparr>persistent_keepalive_interval := n\<rparr> else q)" for c n q cs
    using run_attrs_if [of c parse_peer WGPEER_A_PERSISTENT_KEEPALIVE_INTERVAL "le16 n" "(e, q)" "(e, q\<lparr>persistent_keepalive_interval := n\<rparr>)" cs r]
    by (simp add: parse_peer_simps split: if_splits)
  have pk: "run_attrs parse_peer (attr_bytes (WGPEER_A_PUBLIC_KEY, peer_public_key p) # cs) r MNL_CB_OK (e, zero_peer)
      = run_attrs parse_peer cs r MNL_CB_OK (e, ?q)" for cs
    by (rule run_attrs_Cons) (simp add: parse_peer_simps k)
  have none: "q = q\<lparr>endpoint := endpoint p\<rparr>" if "endpoint p = Sa_none" "endpoint q = Sa_none" for q
    using that by simp
  show ?thesis
    unfolding peer_attrs_def Let_def map_append append_assoc list.map append_Cons append_Nil pk
    by (cases first) (auto simp: fl psk ep ka peer_read_def Let_def read_psk_def peer_or_def zero_peer_def)
qed

lemma length_attrs_bytes_mod: "length (attrs_bytes as) mod 4 = 0"
  by (induction as) (simp_all add: mod_add_eq [symmetric] mod_add_left_eq)

definition piece_read :: "piece \<Rightarrow> wgpeer" where
  "piece_read x = peer_read (piece_first x) (piece_peer x) (piece_ips x)"

definition good_piece :: "piece \<Rightarrow> bool" where
  "good_piece x \<longleftrightarrow> good_peer (piece_peer x) \<and> list_all good_aip (piece_ips x)"

lemma peer_read_simps [simp]:
  "peer_public_key (peer_read first p as) = peer_public_key p" "allowedips (peer_read first p as) = map aip_read as"
  "peer_has (peer_read first p as) WGPEER_HAS_PUBLIC_KEY"
  by (simp_all add: peer_read_def read_psk_def peer_or_def Let_def flag_simps)

lemma peer_read_aips: "(peer_read first p bs)\<lparr>allowedips := map aip_read as\<rparr> = peer_read first p as"
  by (simp add: peer_read_def Let_def)

lemma mod4_add: "a mod 4 = 0 \<Longrightarrow> b mod 4 = 0 \<Longrightarrow> (a + b) mod 4 = (0 :: nat)"
  by presburger

lemma length_aips_mod: "length (concat (map aip_bytes as)) mod 4 = 0"
  by (induction as) (simp_all add: aip_bytes_def mod_add_eq [symmetric] mod_add_left_eq length_attrs_bytes_mod)

lemma aip_blocks: "list_all known_aip as \<Longrightarrow> list_all attr_block (map aip_bytes as)"
  by (induction as) (simp_all add: aip_bytes_def short_aip length_attrs_bytes_mod)

lemma good_aips_known: "list_all good_aip as \<Longrightarrow> list_all known_aip as"
  by (simp add: list_all_iff good_known)

lemma aips_nest_run:
  assumes "list_all known_aip as" and "short (concat (map aip_bytes as))"
  shows "parse_peer (nest_bytes WGPEER_A_ALLOWEDIPS (concat (map aip_bytes as)) @ r) (e, q)
    = run_attrs parse_allowedips_attr (map aip_bytes as) r MNL_CB_OK (e, q)"
proof -
  have "mnl_attr_get_type (nest_bytes WGPEER_A_ALLOWEDIPS (concat (map aip_bytes as)) @ r) = WGPEER_A_ALLOWEDIPS"
    using nest_view(1) [OF assms(2), of WGPEER_A_ALLOWEDIPS r] by simp
  then have "parse_peer (nest_bytes WGPEER_A_ALLOWEDIPS (concat (map aip_bytes as)) @ r) (e, q)
      = mnl_attr_parse_nested (nest_bytes WGPEER_A_ALLOWEDIPS (concat (map aip_bytes as)) @ r) parse_allowedips_attr (e, q)"
    by (simp add: parse_peer_def wgpeer_a_defs)
  then show ?thesis
    using mnl_attr_parse_nested_blocks [OF aip_blocks [OF assms(1)] assms(2), of WGPEER_A_ALLOWEDIPS r parse_allowedips_attr "(e, q)"] by simp
qed

lemma aips_nest_read:
  assumes "list_all good_aip as" and "short (concat (map aip_bytes as))"
  shows "parse_peer (nest_bytes WGPEER_A_ALLOWEDIPS (concat (map aip_bytes as)) @ r) (e, q)
    = (MNL_CB_OK, (e, q\<lparr>allowedips := allowedips q @ map aip_read as\<rparr>))"
  using aips_nest_run [OF good_aips_known [OF assms(1)] assms(2), of r e q] aips_read [OF assms(1), of r e q] by simp

lemma piece_parse:
  assumes "good_piece x" and "length (piece_bytes x) \<le> 8192"
  shows "parse_peers (piece_bytes x @ r) (e, d) = (MNL_CB_OK, (e, d\<lparr>peers := peers d @ [piece_read x]\<rparr>))"
    and "attr_block (piece_bytes x)"
proof -
  let ?as = "map attr_bytes (peer_attrs (piece_first x) (piece_peer x))"
  let ?n = "case piece_aips x of None \<Rightarrow> [] | Some as \<Rightarrow> [nest_bytes WGPEER_A_ALLOWEDIPS (concat (map aip_bytes as))]"
  have x: "good_peer (piece_peer x)" "list_all good_aip (piece_ips x)" using assms(1) by (simp_all add: good_piece_def)
  have b: "piece_bytes x = nest_bytes 0 (concat (?as @ ?n))" by (simp add: piece_bytes_def split: option.split)
  have sh: "short (concat (?as @ ?n))" using assms(2) unfolding b by (simp add: short_def)
  have n: "list_all attr_block ?n" "list_all (\<lambda>b. length b mod 4 = 0) ?n"
    using good_aips_known [OF x(2)] sh length_aips_mod by (auto simp: piece_ips_def short_def simp del: length_concat split: option.splits)
  have blocks: "list_all attr_block (?as @ ?n)"
    using n(1) short_peer_attrs [OF x(1)] by simp
  have "run_attrs parse_peer (?as @ ?n) r MNL_CB_OK (e, zero_peer) = run_attrs parse_peer ?n r MNL_CB_OK (e, peer_read (piece_first x) (piece_peer x) [])"
    by (rule peer_attrs_read [OF x(1)])
  also have "\<dots> = (MNL_CB_OK, (e, piece_read x))"
  proof (cases "piece_aips x")
    case (Some as)
    then have "list_all good_aip as" "short (concat (map aip_bytes as))" using x(2) sh by (simp_all add: piece_ips_def short_def)
    then show ?thesis
      using Some by (simp add: aips_nest_read piece_read_def piece_ips_def peer_read_aips mnl_cb_defs)
  qed (simp add: piece_read_def piece_ips_def)
  finally have "mnl_attr_parse_nested (piece_bytes x @ r) parse_peer (e, zero_peer) = (MNL_CB_OK, (e, piece_read x))"
    unfolding b by (subst mnl_attr_parse_nested_blocks [OF blocks sh]) simp_all
  then show "parse_peers (piece_bytes x @ r) (e, d) = (MNL_CB_OK, (e, d\<lparr>peers := peers d @ [piece_read x]\<rparr>))"
    by (simp add: parse_peers_def mnl_cb_defs piece_read_def)
  have "length (concat ?n) mod 4 = 0" using n(2) by (auto split: option.splits)
  then have "length (concat (?as @ ?n)) mod 4 = 0"
    using mod4_add [OF length_attrs_bytes_mod [of "peer_attrs (piece_first x) (piece_peer x)"]] by simp
  then show "attr_block (piece_bytes x)" unfolding b using sh by simp
qed

lemma pieces_parse:
  assumes "list_all good_piece xs" and "length (concat (map piece_bytes xs)) \<le> 8192"
  shows "run_attrs parse_peers (map piece_bytes xs) r MNL_CB_OK (e, d) = (MNL_CB_OK, (e, d\<lparr>peers := peers d @ map piece_read xs\<rparr>))"
    and "list_all attr_block (map piece_bytes xs)"
  using assms
proof (induction xs arbitrary: d)
  case (Cons x xs)
  {
    case 1
    then show ?case
      using Cons.IH(1) piece_parse(1) [of x] by (simp add: mnl_cb_defs)
  next
    case 2
    then show ?case using Cons.IH(2) piece_parse(2) [of x] by simp
  }
qed simp_all

section \<open>Joining the pieces\<close>

definition peer_echo :: "wgpeer \<Rightarrow> wgpeer" where
  "peer_echo p = peer_read True p (allowedips p)"

lemma peer_echo_simps [simp]:
  "peer_public_key (peer_echo p) = peer_public_key p" "allowedips (peer_echo p) = map aip_read (allowedips p)"
  by (simp_all add: peer_echo_def)

lemma good_peer_key: "good_peer p \<Longrightarrow> length (peer_public_key p) = 32"
  by (simp add: good_peer_def)

fun keys_differ :: "wgpeer list \<Rightarrow> bool" where
  "keys_differ (p # q # ps) \<longleftrightarrow> peer_public_key p \<noteq> peer_public_key q \<and> keys_differ (q # ps)"
| "keys_differ ps \<longleftrightarrow> True"

lemma coalesce_same:
  assumes "peer_public_key q = peer_public_key r" and "allowedips r \<noteq> []"
  shows "coalesce_loop (allowedips q = []) (q # r # rest) = coalesce_loop False (q\<lparr>allowedips := allowedips q @ allowedips r\<rparr> # rest)"
  using assms by simp

lemma coalesce_differ:
  assumes "length (peer_public_key q) = 32" and "length (peer_public_key r) = 32" and "peer_public_key q \<noteq> peer_public_key r"
  shows "coalesce_loop n (q # r # rest) = map_option (Cons q) (coalesce_loop (allowedips r = []) (r # rest))"
  using assms memcmp_zero_iff [of "peer_public_key q" 32 "peer_public_key r"] by (simp add: WG_KEY_LEN_def)

text \<open>
  What is left to send, behind a peer \<open>q\<close> that was read already: the rest of its allowed IPs if it was
  begun, and then the other peers.
\<close>

lemma coalesce_pieces:
  assumes "take_pieces st xs ([], [])" and "list_all good_peer (fst st)" and "keys_differ (fst st)"
    and "length (peer_public_key q) = 32"
    and "if snd st = [] then fst st = [] \<or> peer_public_key q \<noteq> peer_public_key (hd (fst st)) else peer_public_key q = peer_public_key (hd (fst st))"
  shows "coalesce_loop (allowedips q = []) (q # map piece_read xs) =
    (if snd st = [] then Some (q # map peer_echo (fst st))
     else Some (q\<lparr>allowedips := allowedips q @ map aip_read (snd st)\<rparr> # map peer_echo (tl (fst st))))"
  using assms
proof (induction xs arbitrary: st q)
  case Nil
  then show ?case by auto
next
  case (Cons x xs)
  from Cons.prems(1) obtain st' where st': "take_piece st x st'" "take_pieces st' xs ([], [])" by (rule take_pieces_Cons)
  from st'(1) show ?case
  proof cases
    case (last_piece p as ps)
    show ?thesis
    proof (cases "as = []")
      case True
      have r: "piece_read x = peer_echo p" using last_piece True by (simp add: piece_read_def peer_echo_def todo_def)
      have "coalesce_loop (allowedips (peer_echo p) = []) (peer_echo p # map piece_read xs) = Some (peer_echo p # map peer_echo ps)"
        using Cons.IH [OF st'(2), of "peer_echo p"] Cons.prems last_piece True by (cases ps) (auto simp: good_peer_key)
      moreover have "coalesce_loop (allowedips q = []) (q # piece_read x # map piece_read xs)
          = map_option (Cons q) (coalesce_loop (allowedips (piece_read x) = []) (piece_read x # map piece_read xs))"
        using Cons.prems last_piece True by (intro coalesce_differ) (auto simp: r good_peer_key)
      ultimately show ?thesis using last_piece True r by simp
    next
      case False
      let ?q = "q\<lparr>allowedips := allowedips q @ map aip_read as\<rparr>"
      have "coalesce_loop (allowedips q = []) (q # piece_read x # map piece_read xs) = coalesce_loop False (?q # map piece_read xs)"
        using coalesce_same [of q "piece_read x" "map piece_read xs"] Cons.prems(5) last_piece False by (simp add: piece_read_def todo_def)
      moreover have "coalesce_loop False (?q # map piece_read xs) = Some (?q # map peer_echo ps)"
        using Cons.IH [OF st'(2), of ?q] Cons.prems last_piece False by (cases ps) auto
      ultimately show ?thesis using last_piece False by simp
    qed
  next
    case (more_pieces left p as ps)
    show ?thesis
    proof (cases "as = []")
      case True
      let ?r = "peer_read True p (piece_ips x)"
      have r: "piece_read x = ?r" using more_pieces True by (simp add: piece_read_def)
      have "coalesce_loop (allowedips ?r = []) (?r # map piece_read xs)
          = Some (?r\<lparr>allowedips := allowedips ?r @ map aip_read left\<rparr> # map peer_echo ps)"
        using Cons.IH [OF st'(2), of ?r] Cons.prems more_pieces True by (auto simp: good_peer_key)
      also have "?r\<lparr>allowedips := allowedips ?r @ map aip_read left\<rparr> = peer_echo p"
        using more_pieces True by (simp add: peer_echo_def peer_read_aips todo_def flip: map_append)
      finally have "coalesce_loop (allowedips ?r = []) (?r # map piece_read xs) = Some (peer_echo p # map peer_echo ps)" .
      moreover have "coalesce_loop (allowedips q = []) (q # ?r # map piece_read xs)
          = map_option (Cons q) (coalesce_loop (allowedips ?r = []) (?r # map piece_read xs))"
        using Cons.prems more_pieces True by (intro coalesce_differ) (auto simp: good_peer_key)
      ultimately show ?thesis using more_pieces True r by simp
    next
      case False
      let ?q = "q\<lparr>allowedips := allowedips q @ map aip_read (piece_ips x)\<rparr>"
      have "coalesce_loop (allowedips q = []) (q # piece_read x # map piece_read xs) = coalesce_loop False (?q # map piece_read xs)"
        using coalesce_same [of q "piece_read x" "map piece_read xs"] Cons.prems(5) more_pieces False by (simp add: piece_read_def)
      moreover have "coalesce_loop False (?q # map piece_read xs) = Some (?q\<lparr>allowedips := allowedips ?q @ map aip_read left\<rparr> # map peer_echo ps)"
        using Cons.IH [OF st'(2), of ?q] Cons.prems more_pieces False by auto
      ultimately show ?thesis using more_pieces False by (simp add: todo_def flip: map_append)
    qed
  qed
qed

section \<open>Progress\<close>

definition work :: "wgpeer list \<times> wgallowedip list \<Rightarrow> nat" where
  "work st =
     (case fst st of
        [] \<Rightarrow> 0
      | p # ps \<Rightarrow> (if snd st = [] then length (allowedips p) + 2 else length (snd st) + 1) + (\<Sum>q\<leftarrow>ps. length (allowedips q) + 2))"

definition pending :: "wgpeer list \<times> wgallowedip list \<Rightarrow> bool" where
  "pending st \<longleftrightarrow> list_all good_peer (fst st) \<and> list_all good_aip (snd st) \<and> (snd st = [] \<or> fst st \<noteq> [] \<and> allowedips (hd (fst st)) \<noteq> [])"

lemma good_todo: "pending (p # ps, as) \<Longrightarrow> list_all good_aip (todo p as)"
  by (auto simp: pending_def todo_def good_peer_def)

lemma take_piece_progress:
  assumes "take_piece st x st'" and "pending st"
  shows "pending st'" and "work st' < work st" and "good_piece x"
proof -
  from assms(1) have "pending st' \<and> work st' < work st \<and> good_piece x"
  proof cases
    case (last_piece p as ps)
    then have "list_all good_aip (piece_ips x)" using good_todo [of p ps as] assms(2) by simp
    moreover have "work (ps, []) \<le> (\<Sum>q\<leftarrow>ps. length (allowedips q) + 2)" by (cases ps) (auto simp: work_def)
    ultimately show ?thesis using last_piece assms(2) by (auto simp: pending_def work_def good_piece_def)
  next
    case (more_pieces left p as ps)
    then have "list_all good_aip (piece_ips x @ left)" using good_todo [of p ps as] assms(2) by simp
    then have "list_all good_aip (piece_ips x)" "list_all good_aip left" by simp_all
    moreover from more_pieces have "length (piece_ips x) + length left = length (todo p as)" by (metis length_append)
    ultimately show ?thesis using more_pieces assms(2) by (auto simp: pending_def work_def good_piece_def todo_def split: if_splits)
  qed
  then show "pending st'" "work st' < work st" "good_piece x" by simp_all
qed

lemma take_pieces_progress:
  assumes "take_pieces st xs st'" and "pending st"
  shows "pending st' \<and> work st' \<le> work st \<and> (xs \<noteq> [] \<longrightarrow> work st' < work st) \<and> list_all good_piece xs"
  using assms
proof (induction rule: take_pieces.induct)
  case (take_some st x st' xs st'')
  then show ?case using take_piece_progress [OF take_some.hyps(1)] by auto
qed simp

section \<open>Messages that set a device\<close>

definition name_attr :: "wgdevice \<Rightarrow> attr" where
  "name_attr d = (WGDEVICE_A_IFNAME, str_bytes (dev_name d) @ [0])"

definition good_device :: "wgdevice \<Rightarrow> bool" where
  "good_device d \<longleftrightarrow> length (dev_name d) < IFNAMSIZ \<and> no_nul (dev_name d) \<and> length (private_key d) = 32
     \<and> list_all good_peer (peers d) \<and> keys_differ (peers d)"

definition head_attrs :: "bool \<Rightarrow> wgdevice \<Rightarrow> attr list" where
  "head_attrs first d = name_attr d # (if first then device_attrs d else [])"

definition msg_blocks :: "bool \<Rightarrow> wgdevice \<Rightarrow> piece list \<Rightarrow> u8 list list" where
  "msg_blocks first d xs =
     map attr_bytes (head_attrs first d) @ (if peers d = [] then [] else [nest_bytes WGDEVICE_A_PEERS (concat (map piece_bytes xs))])"

definition set_header :: "'k nl_env \<Rightarrow> mnlg_socket \<Rightarrow> nlmsghdr" where
  "set_header env nlg = mnlg_msg_prepare env WG_CMD_SET_DEVICE (NLM_F_REQUEST OR NLM_F_ACK) (nlg_id nlg) (nlg_version nlg)"

definition set_msg :: "'k nl_env \<Rightarrow> mnlg_socket \<Rightarrow> bool \<Rightarrow> wgdevice \<Rightarrow> piece list \<Rightarrow> nlmsghdr" where
  "set_msg env nlg first d xs = add_bytes (concat (msg_blocks first d xs)) (set_header env nlg)"

lemma length_str_bytes [simp]: "length (str_bytes s) = length s"
  by (simp add: str_bytes_def)

lemma short_head_attrs: "good_device d \<Longrightarrow> short_attrs (head_attrs first d)"
  by (auto simp: head_attrs_def name_attr_def device_attrs_def good_device_def IFNAMSIZ_def Let_def)

lemma length_head_attrs: "good_device d \<Longrightarrow> length (attrs_bytes (head_attrs first d)) \<le> 84"
proof -
  assume d: "good_device d"
  have "MNL_ALIGN (Suc (length (dev_name d))) \<le> 16" using d by (auto simp: good_device_def IFNAMSIZ_def MNL_ALIGN_def)
  then show ?thesis using d by (auto simp: head_attrs_def name_attr_def device_attrs_def good_device_def attr_if_def Let_def MNL_ALIGN_def)
qed

lemma length_set_header [simp]: "nlmsg_len (set_header env nlg) = 20"
  by (simp add: set_header_def mnlg_msg_prepare_def nlmsg_len_def mnl_nlmsg_put_header_def mnl_nlmsg_put_extra_header_def MNL_NLMSG_HDRLEN_def MNL_ALIGN_def)

lemma fold_put:
  "short_attrs as \<Longrightarrow> fold (\<lambda>(ty, data) nlh. mnl_attr_put nlh ty data) as nlh = add_bytes (attrs_bytes as) nlh"
  by (induction as arbitrary: nlh) (auto simp: mnl_attr_put_bytes short_32)

lemma set_message_bytes:
  assumes d: "good_device d" and st: "pending (case peer of None \<Rightarrow> peers d | Some ps \<Rightarrow> ps, as)"
    and ne: "peers d \<noteq> []" "peer \<noteq> Some []" and buf: "4096 \<le> mnl_ideal_socket_buffer_size env"
  shows "\<exists>xs st'. set_message env nlg d peer as = (set_msg env nlg (peer = None) d xs, st') \<and> xs \<noteq> []
    \<and> take_pieces (case peer of None \<Rightarrow> peers d | Some ps \<Rightarrow> ps, as) xs st'
    \<and> nlmsg_len (set_msg env nlg (peer = None) d xs) \<le> mnl_ideal_socket_buffer_size env"
proof -
  let ?ps = "case peer of None \<Rightarrow> peers d | Some ps \<Rightarrow> ps" and ?h = "attrs_bytes (head_attrs (peer = None) d)"
  let ?nlh = "add_bytes ?h (set_header env nlg)" and ?buf = "mnl_ideal_socket_buffer_size env"
  have short: "short_attrs (head_attrs (peer = None) d)" "length ?h \<le> 84" using d by (simp_all add: short_head_attrs length_head_attrs)
  have head: "(if peer = None then fold (\<lambda>(ty, data) nlh. mnl_attr_put nlh ty data) (device_attrs d) nlh else nlh) = ?nlh"
    if "nlh = mnl_attr_put_strz (set_header env nlg) WGDEVICE_A_IFNAME (dev_name d)" for nlh
    using short(1) fold_put [of "device_attrs d" "add_bytes (attr_bytes (name_attr d)) (set_header env nlg)"] that
    by (cases peer) (simp_all add: head_attrs_def name_attr_def mnl_attr_put_strz_def mnl_attr_put_bytes short_32)
  obtain nlh1 s where s: "mnl_attr_nest_start ?nlh WGDEVICE_A_PEERS = (nlh1, s)" by fastforce
  have len: "nlmsg_len nlh1 + piece_room \<le> ?buf" "nlmsg_len nlh1 = 24 + length ?h"
    using mnl_attr_nest_start_len [OF s] short(2) buf by (simp_all add: piece_room_def)
  have psne: "?ps \<noteq> []" using ne by (auto split: option.splits)
  obtain xs ps' as' where xs: "put_peers ?buf ?ps as nlh1 = (add_bytes (concat (map piece_bytes xs)) nlh1, ps', as')"
    "take_pieces (?ps, as) xs (ps', as')" "nlmsg_len nlh1 + length (concat (map piece_bytes xs)) \<le> ?buf" "xs \<noteq> []"
    using put_peers_bytes [of ?ps as nlh1 ?buf] st psne len(1) by (auto simp: pending_def)
  have "set_message env nlg d peer as = (mnl_attr_nest_end (add_bytes (concat (map piece_bytes xs)) nlh1) s, ps', as')"
    unfolding set_message_def set_header_def [symmetric] Let_def head [OF refl] using ne(1) s xs(1) by simp
  also have "mnl_attr_nest_end (add_bytes (concat (map piece_bytes xs)) nlh1) s = set_msg env nlg (peer = None) d xs"
    using mnl_attr_nest_end_bytes [OF s] ne(1) by (simp add: set_msg_def msg_blocks_def)
  finally show ?thesis
    using xs len(2) ne(1) by (intro exI [of _ xs] exI [of _ "(ps', as')"]) (simp add: set_msg_def msg_blocks_def)
qed

section \<open>Reading a device\<close>

lemma c_str_name: "no_nul s \<Longrightarrow> c_str (bytes_str (str_bytes s @ 0 # r)) = s"
proof -
  assume "no_nul s"
  have "bytes_str (str_bytes s @ 0 # r) = s @ NUL # bytes_str r"
    using bytes_str_bytes [of s] by (simp add: bytes_str_def NUL_def char_of_def)
  then show ?thesis using \<open>no_nul s\<close> by (simp add: c_str_terminated)
qed

lemma parse_device_simps:
  "good_device d \<Longrightarrow> parse_device (attr_bytes (name_attr d) @ r) (e, x) = (MNL_CB_OK, (e, x\<lparr>dev_name := dev_name d\<rparr>))"
  "length k = 32 \<Longrightarrow> parse_device (attr_bytes (WGDEVICE_A_PRIVATE_KEY, k) @ r) (e, x)
     = (MNL_CB_OK, (e, dev_or WGDEVICE_HAS_PRIVATE_KEY (x\<lparr>private_key := k\<rparr>)))"
  "parse_device (attr_bytes (WGDEVICE_A_LISTEN_PORT, le16 n) @ r) (e, x) = (MNL_CB_OK, (e, x\<lparr>listen_port := n\<rparr>))"
  "parse_device (attr_bytes (WGDEVICE_A_FWMARK, le32 w) @ r) (e, x) = (MNL_CB_OK, (e, x\<lparr>fwmark := w\<rparr>))"
  "parse_device (attr_bytes (WGDEVICE_A_FLAGS, le32 w) @ r) (e, x) = (MNL_CB_OK, (e, x))"
proof -
  note view = parse_device_def short_view wgdevice_a_defs plain_type_def NLA_TYPE_MASK_def WG_KEY_LEN_def validated_def mnl_attr_validate_simps
  show "parse_device (attr_bytes (name_attr d) @ r) (e, x) = (MNL_CB_OK, (e, x\<lparr>dev_name := dev_name d\<rparr>))" if "good_device d"
    using that by (simp add: view name_attr_def good_device_def IFNAMSIZ_def mnl_attr_get_str_def c_str_name set_dev_name_def)
  show "length k = 32 \<Longrightarrow> parse_device (attr_bytes (WGDEVICE_A_PRIVATE_KEY, k) @ r) (e, x)
     = (MNL_CB_OK, (e, dev_or WGDEVICE_HAS_PRIVATE_KEY (x\<lparr>private_key := k\<rparr>)))"
    by (simp add: view)
  show "parse_device (attr_bytes (WGDEVICE_A_LISTEN_PORT, le16 n) @ r) (e, x) = (MNL_CB_OK, (e, x\<lparr>listen_port := n\<rparr>))"
    by (simp add: view mnl_attr_get_u16_def)
  show "parse_device (attr_bytes (WGDEVICE_A_FWMARK, le32 w) @ r) (e, x) = (MNL_CB_OK, (e, x\<lparr>fwmark := w\<rparr>))"
    by (simp add: view mnl_attr_get_u32_def)
  show "parse_device (attr_bytes (WGDEVICE_A_FLAGS, le32 w) @ r) (e, x) = (MNL_CB_OK, (e, x))"
    by (simp add: view)
qed

definition head_read :: "bool \<Rightarrow> wgdevice \<Rightarrow> wgdevice \<Rightarrow> wgdevice" where
  "head_read first d x =
     (let x = x\<lparr>dev_name := dev_name d\<rparr>;
          x = (if first \<and> dev_has d WGDEVICE_HAS_PRIVATE_KEY then dev_or WGDEVICE_HAS_PRIVATE_KEY (x\<lparr>private_key := private_key d\<rparr>) else x);
          x = (if first \<and> dev_has d WGDEVICE_HAS_LISTEN_PORT then x\<lparr>listen_port := listen_port d\<rparr> else x)
      in if first \<and> dev_has d WGDEVICE_HAS_FWMARK then x\<lparr>fwmark := fwmark d\<rparr> else x)"

lemma head_attrs_read:
  assumes "good_device d"
  shows "run_attrs parse_device (map attr_bytes (head_attrs first d) @ bs) r MNL_CB_OK (e, x)
    = run_attrs parse_device bs r MNL_CB_OK (e, head_read first d x)"
proof -
  have k: "length (private_key d) = 32" using assms by (simp add: good_device_def)
  have name: "run_attrs parse_device (attr_bytes (name_attr d) # cs) r MNL_CB_OK (e, x)
      = run_attrs parse_device cs r MNL_CB_OK (e, x\<lparr>dev_name := dev_name d\<rparr>)" for cs
    by (rule run_attrs_Cons) (simp add: parse_device_simps assms)
  have pk: "run_attrs parse_device (map attr_bytes (attr_if c WGDEVICE_A_PRIVATE_KEY (private_key d)) @ cs) r MNL_CB_OK (e, y)
      = run_attrs parse_device cs r MNL_CB_OK (e, if c then dev_or WGDEVICE_HAS_PRIVATE_KEY (y\<lparr>private_key := private_key d\<rparr>) else y)" for c cs y
    using run_attrs_if [of c parse_device WGDEVICE_A_PRIVATE_KEY "private_key d" "(e, y)" "(e, dev_or WGDEVICE_HAS_PRIVATE_KEY (y\<lparr>private_key := private_key d\<rparr>))" cs r]
    by (simp add: parse_device_simps k split: if_splits)
  have port: "run_attrs parse_device (map attr_bytes (attr_if c WGDEVICE_A_LISTEN_PORT (le16 n)) @ cs) r MNL_CB_OK (e, y)
      = run_attrs parse_device cs r MNL_CB_OK (e, if c then y\<lparr>listen_port := n\<rparr> else y)" for c n cs y
    using run_attrs_if [of c parse_device WGDEVICE_A_LISTEN_PORT "le16 n" "(e, y)" "(e, y\<lparr>listen_port := n\<rparr>)" cs r]
    by (simp add: parse_device_simps split: if_splits)
  have mark: "run_attrs parse_device (map attr_bytes (attr_if c WGDEVICE_A_FWMARK (le32 w)) @ cs) r MNL_CB_OK (e, y)
      = run_attrs parse_device cs r MNL_CB_OK (e, if c then y\<lparr>fwmark := w\<rparr> else y)" for c w cs y
    using run_attrs_if [of c parse_device WGDEVICE_A_FWMARK "le32 w" "(e, y)" "(e, y\<lparr>fwmark := w\<rparr>)" cs r]
    by (simp add: parse_device_simps split: if_splits)
  have fl: "run_attrs parse_device (map attr_bytes (attr_if c WGDEVICE_A_FLAGS (le32 w)) @ cs) r MNL_CB_OK (e, y)
      = run_attrs parse_device cs r MNL_CB_OK (e, y)" for c w cs y
    using run_attrs_if [of c parse_device WGDEVICE_A_FLAGS "le32 w" "(e, y)" "(e, y)" cs r] by (simp add: parse_device_simps)
  show ?thesis
    unfolding head_attrs_def list.map append_Cons name
    by (cases first) (simp_all add: device_attrs_def Let_def pk port mark fl head_read_def)
qed

lemma peers_nest_read:
  assumes "list_all good_piece xs" and "length (concat (map piece_bytes xs)) \<le> 8192"
  shows "parse_device (nest_bytes WGDEVICE_A_PEERS (concat (map piece_bytes xs)) @ r) (e, x)
    = (MNL_CB_OK, (e, x\<lparr>peers := peers x @ map piece_read xs\<rparr>))"
proof -
  have sh: "short (concat (map piece_bytes xs))" using assms(2) by (simp add: short_def)
  have "mnl_attr_get_type (nest_bytes WGDEVICE_A_PEERS (concat (map piece_bytes xs)) @ r) = WGDEVICE_A_PEERS"
    using nest_view(1) [OF sh, of WGDEVICE_A_PEERS r] by simp
  then have "parse_device (nest_bytes WGDEVICE_A_PEERS (concat (map piece_bytes xs)) @ r) (e, x)
      = mnl_attr_parse_nested (nest_bytes WGDEVICE_A_PEERS (concat (map piece_bytes xs)) @ r) parse_peers (e, x)"
    by (simp add: parse_device_def wgdevice_a_defs)
  then show ?thesis
    using mnl_attr_parse_nested_blocks [OF pieces_parse(2) [OF assms] sh, of WGDEVICE_A_PEERS r parse_peers "(e, x)"]
      pieces_parse(1) [OF assms, of r e x] by simp
qed

section \<open>Whole messages\<close>

lemma mnl_align32_id:
  assumes "n mod 4 = 0" and "n < 2 ^ 31"
  shows "MNL_ALIGN32 (word_of_nat n) = word_of_nat n"
proof -
  have "w AND NOT (mask 2) = push_bit 2 (drop_bit 2 w)" for w :: u32
  proof (rule bit_word_eqI)
    fix n
    have "2 \<le> n \<Longrightarrow> Suc (Suc (n - 2)) = n" by simp
    then show "bit (w AND NOT (mask 2)) n = bit (push_bit 2 (drop_bit 2 w)) n" if "n < LENGTH(32)"
      using that by (cases "2 \<le> n") (simp_all add: bit_simps)
  qed
  then have "(w + 3) AND NOT 3 = push_bit 2 (drop_bit 2 (w + 3))" for w :: u32
    by (simp add: mask_eq_exp_minus_1)
  moreover have "drop_bit 2 (word_of_nat n + 3 :: u32) = word_of_nat (n div 4)"
  proof (rule word_unat_eq_iff [THEN iffD2])
    have "unat (word_of_nat n + 3 :: u32) = n + 3" using assms(2) by (simp add: unat_word_ariths unat_of_nat)
    moreover have "(n + 3) div 4 = n div 4" using assms(1) by presburger
    ultimately show "unat (drop_bit 2 (word_of_nat n + 3 :: u32)) = unat (word_of_nat (n div 4) :: u32)"
      using assms(2) by (simp add: drop_bit_eq_div unat_div unat_of_nat)
  qed
  moreover have "push_bit 2 (word_of_nat (n div 4) :: u32) = word_of_nat (n div 4 * 4)"
    by (simp add: push_bit_eq_mult)
  moreover have "n div 4 * 4 = n" using assms(1) by presburger
  ultimately show ?thesis by (simp add: MNL_ALIGN32_def)
qed

lemma message_fields:
  "msg_len (nlmsg_bytes m @ r) = word_of_nat (nlmsg_len m)" "msg_type (nlmsg_bytes m @ r) = nlmsg_type m"
  "msg_flags (nlmsg_bytes m @ r) = nlmsg_flags m" "msg_seq (nlmsg_bytes m @ r) = nlmsg_seq m"
  "msg_pid (nlmsg_bytes m @ r) = nlmsg_pid m" "mnl_nlmsg_get_payload (nlmsg_bytes m @ r) = nlmsg_body m @ r"
proof -
  have d: "drop 6 y = drop 2 (drop 4 y)" "drop 8 y = drop 2 (drop 2 (drop 4 y))" "drop 12 y = drop 4 (drop 2 (drop 2 (drop 4 y)))"
    "drop 16 y = drop 4 (drop 4 (drop 2 (drop 2 (drop 4 y))))" for y :: "u8 list" by simp_all
  show "msg_len (nlmsg_bytes m @ r) = word_of_nat (nlmsg_len m)" "msg_type (nlmsg_bytes m @ r) = nlmsg_type m"
    "msg_flags (nlmsg_bytes m @ r) = nlmsg_flags m" "msg_seq (nlmsg_bytes m @ r) = nlmsg_seq m"
    "msg_pid (nlmsg_bytes m @ r) = nlmsg_pid m" "mnl_nlmsg_get_payload (nlmsg_bytes m @ r) = nlmsg_body m @ r"
    unfolding msg_len_def msg_type_def msg_flags_def msg_seq_def msg_pid_def mnl_nlmsg_get_payload_def nlmsg_bytes_def MNL_NLMSG_HDRLEN_def d append_assoc
    by (simp_all del: drop_drop drop_append)
qed

lemma as_int_small: "0 \<le> x \<Longrightarrow> x < 2147483648 \<Longrightarrow> as_int x = x"
  by (simp add: as_int_def sint_sbintrunc' signed_take_bit_int_eq_self)

lemma length_nlmsg_bytes: "length (nlmsg_bytes m) = nlmsg_len m"
  by (simp add: nlmsg_bytes_def nlmsg_len_def MNL_NLMSG_HDRLEN_def)

lemma attr_blocks_mod: "list_all attr_block bs \<Longrightarrow> length (concat bs) mod 4 = 0"
proof (induction bs)
  case (Cons b bs)
  then have "attr_block b" by simp
  then have "length b mod 4 = 0" by (metis attr_block_def mnl_align_0)
  then show ?case using Cons mod4_add by simp
qed simp

text \<open>A message whose length is that of its bytes and small.\<close>

definition good_msg :: "nlmsghdr \<Rightarrow> bool" where
  "good_msg m \<longleftrightarrow> nlmsg_len m \<le> 8192 \<and> length (nlmsg_body m) mod 4 = 0"

lemma good_msg_len:
  assumes "good_msg m"
  shows "unat (msg_len (nlmsg_bytes m @ r)) = nlmsg_len m" "uint (MNL_ALIGN32 (msg_len (nlmsg_bytes m @ r))) = int (nlmsg_len m)"
    "sint (msg_len (nlmsg_bytes m @ r)) = int (nlmsg_len m)" "uint (msg_len (nlmsg_bytes m @ r)) = int (nlmsg_len m)"
proof -
  have l: "nlmsg_len m \<le> 8192" "nlmsg_len m mod 4 = 0"
    using assms by (simp_all add: good_msg_def nlmsg_len_def MNL_NLMSG_HDRLEN_def mod_add_left_eq [symmetric])
  then show u: "unat (msg_len (nlmsg_bytes m @ r)) = nlmsg_len m"
    by (simp add: message_fields unat_of_nat)
  then show i: "uint (msg_len (nlmsg_bytes m @ r)) = int (nlmsg_len m)" by (metis uint_nat)
  show "uint (MNL_ALIGN32 (msg_len (nlmsg_bytes m @ r))) = int (nlmsg_len m)"
    using l mnl_align32_id [of "nlmsg_len m"] i by (simp add: message_fields)
  show "sint (msg_len (nlmsg_bytes m @ r)) = int (nlmsg_len m)"
    using l as_int_small [of "int (nlmsg_len m)"] by (simp add: message_fields as_int_def)
qed

lemma mnl_attr_parse_blocks:
  assumes "nlmsg_body m = h @ concat bs" and "length h = 4" and "list_all attr_block bs" and "good_msg m"
  shows "mnl_attr_parse (nlmsg_bytes m @ r) 4 cb s = run_attrs cb bs r MNL_CB_OK s"
proof -
  have "drop 16 (nlmsg_bytes m @ r) = h @ concat bs @ r"
    using message_fields(6) [of m r] assms(1) unfolding mnl_nlmsg_get_payload_def MNL_NLMSG_HDRLEN_def by simp
  moreover have "drop 20 (nlmsg_bytes m @ r) = drop 4 (drop 16 (nlmsg_bytes m @ r))" unfolding drop_drop by simp
  ultimately have d: "drop 20 (nlmsg_bytes m @ r) = concat bs @ r" using assms(2) by simp
  have len: "int (nlmsg_len m) - 20 = int (length (concat bs))" "nlmsg_len m \<le> 8192"
    using assms(1,2,4) by (simp_all add: nlmsg_len_def MNL_NLMSG_HDRLEN_def good_msg_def)
  then have "as_int (int (nlmsg_len m) - 20) = int (length (concat bs))" using as_int_small [of "int (nlmsg_len m) - 20"] by simp
  then show ?thesis
    unfolding mnl_attr_parse_def using d good_msg_len(2) [OF assms(4), of r] mnl_attr_loop_blocks [OF assms(3), of cb r MNL_CB_OK s]
    by (simp add: MNL_NLMSG_HDRLEN_def MNL_ALIGN_def)
qed

definition msg_read :: "bool \<Rightarrow> wgdevice \<Rightarrow> piece list \<Rightarrow> wgdevice \<Rightarrow> wgdevice" where
  "msg_read first d xs x = (let y = head_read first d x in y\<lparr>peers := peers y @ map piece_read xs\<rparr>)"

lemma msg_prepare_body:
  "length (nlmsg_body (mnlg_msg_prepare env cmd flags fam version)) = 4" "hd (nlmsg_body (mnlg_msg_prepare env cmd flags fam version)) = cmd"
proof -
  have "MNL_ALIGN 4 = 4" by (simp add: MNL_ALIGN_def)
  then have b: "nlmsg_body (mnlg_msg_prepare env cmd flags fam version) = (replicate 4 0)[0 := cmd, 1 := version]"
    by (simp add: mnlg_msg_prepare_def mnl_nlmsg_put_header_def mnl_nlmsg_put_extra_header_def)
  show "length (nlmsg_body (mnlg_msg_prepare env cmd flags fam version)) = 4" by (simp add: b)
  have "(replicate 4 0)[0 := cmd, 1 := version] \<noteq> []" by (metis length_list_update length_replicate list.size(3) zero_neq_numeral)
  then show "hd (nlmsg_body (mnlg_msg_prepare env cmd flags fam version)) = cmd" unfolding b by (subst hd_conv_nth) simp_all
qed

lemma set_msg_parts:
  assumes "good_device d" and "list_all good_piece xs" and "nlmsg_len (set_msg env nlg first d xs) \<le> 8192"
  shows "length (concat (map piece_bytes xs)) \<le> 8192 \<or> peers d = []" and "list_all attr_block (msg_blocks first d xs)" and "good_msg (set_msg env nlg first d xs)"
proof -
  have l: "length (concat (map piece_bytes xs)) \<le> 8192 \<or> peers d = []"
    using assms(3) by (auto simp: set_msg_def msg_blocks_def)
  then show "length (concat (map piece_bytes xs)) \<le> 8192 \<or> peers d = []" .
  have n: "peers d = [] \<or> attr_block (nest_bytes WGDEVICE_A_PEERS (concat (map piece_bytes xs)))"
    using l attr_blocks_mod [OF pieces_parse(2) [OF assms(2)]] by (auto simp: short_def intro!: attr_block_nest)
  then show b: "list_all attr_block (msg_blocks first d xs)"
    using short_head_attrs [OF assms(1)] by (auto simp: msg_blocks_def)
  show "good_msg (set_msg env nlg first d xs)"
    using assms(3) attr_blocks_mod [OF b] mod4_add by (auto simp: good_msg_def set_msg_def set_header_def msg_prepare_body)
qed

lemma read_set_msg:
  assumes "good_device d" and "list_all good_piece xs" and "nlmsg_len (set_msg env nlg first d xs) \<le> 8192" and "peers d = [] \<Longrightarrow> xs = []"
  shows "read_device_cb (nlmsg_bytes (set_msg env nlg first d xs) @ r) (e, x) = (MNL_CB_OK, (e, msg_read first d xs x))"
proof -
  note parts = set_msg_parts [OF assms(1-3)]
  obtain h where h: "nlmsg_body (set_msg env nlg first d xs) = h @ concat (msg_blocks first d xs)" "length h = 4"
    by (simp add: set_msg_def set_header_def msg_prepare_body)
  have "read_device_cb (nlmsg_bytes (set_msg env nlg first d xs) @ r) (e, x) = run_attrs parse_device (msg_blocks first d xs) r MNL_CB_OK (e, x)"
    unfolding read_device_cb_def sizeof_genlmsghdr_def by (rule mnl_attr_parse_blocks [OF h parts(2,3)])
  also have "\<dots> = (MNL_CB_OK, (e, msg_read first d xs x))"
    unfolding msg_blocks_def head_attrs_read [OF assms(1)]
    using parts(1) assms(4) peers_nest_read [OF assms(2), of r e "head_read first d x"] by (auto simp: msg_read_def Let_def mnl_cb_defs)
  finally show ?thesis .
qed

section \<open>Receiving\<close>

lemma mnl_cb_loop_end [simp]: "mnl_cb_loop seq portid cb ctl bs 0 ret st = Some (ret, st)"
  by (subst mnl_cb_loop.simps) (simp add: mnl_nlmsg_ok_def)

lemma run_one_message:
  assumes "good_msg m" and "nlmsg_pid m = 0" and "nlmsg_seq m = seq" and "nlmsg_flags m AND NLM_F_DUMP_INTR = 0"
    and "choose_cb cb ctl (nlmsg_bytes m) = Some f"
  shows "mnl_cb_run2 (nlmsg_bytes m) seq portid cb ctl st = Some (f (nlmsg_bytes m) st)"
proof -
  note fields = message_fields [of m "[]", simplified]
  note len = good_msg_len [OF assms(1), of "[]", simplified]
  have "16 \<le> nlmsg_len m" by (simp add: nlmsg_len_def MNL_NLMSG_HDRLEN_def)
  then have ok: "mnl_nlmsg_ok (nlmsg_bytes m) (int (length (nlmsg_bytes m)))"
    using len by (simp add: mnl_nlmsg_ok_def length_nlmsg_bytes)
  have "as_int 0 = 0" by (simp add: as_int_def)
  then have "as_int (int (length (nlmsg_bytes m)) - uint (MNL_ALIGN32 (msg_len (nlmsg_bytes m)))) = 0"
    using len by (simp add: length_nlmsg_bytes)
  then show ?thesis
    unfolding mnl_cb_run2_def using ok assms fields
    by (subst mnl_cb_loop.simps) (simp add: mnl_nlmsg_portid_ok_def mnl_nlmsg_seq_ok_def Let_def split: prod.split)
qed

lemma recv_one:
  assumes "good_msg m" and "nlmsg_len m \<le> bufsiz" and "nlmsg_pid m = 0" and "nlmsg_seq m = seq" and "nlmsg_flags m AND NLM_F_DUMP_INTR = 0"
    and "choose_cb cb mnlg_cb_array (nlmsg_bytes m) = Some f" and "f (nlmsg_bytes m) st = (ret, st')"
  shows "mnlg_recv_loop bufsiz seq portid cb (Inr (nlmsg_bytes m) # queue) st
    = (if ret > 0 then mnlg_recv_loop bufsiz seq portid cb queue st' else Some (ret, st', queue))"
proof -
  have "nlmsg_bytes m \<noteq> []" using length_nlmsg_bytes [of m] by (auto simp: nlmsg_len_def MNL_NLMSG_HDRLEN_def)
  then show ?thesis
    using assms run_one_message [OF assms(1,3,4,5,6), of portid st] by (simp add: mnl_socket_recvfrom_def length_nlmsg_bytes)
qed

end
