(* ===== verification/LinuxProperties.thy ===== *)
theory LinuxProperties
  imports LinuxFacts UapiProperties
begin

text \<open>
  Properties of the kernel backend of Linux. The round trip is stated for a kernel that keeps the messages
  it is sent and answers a dump request with them.
\<close>

unbundle bit_operations_syntax

section \<open>A kernel that echoes\<close>

definition reply :: "u32 \<Rightarrow> u16 \<Rightarrow> u16 \<Rightarrow> u8 list \<Rightarrow> nlmsghdr" where
  "reply seq ty flags body = \<lparr>nlmsg_type = ty, nlmsg_flags = flags, nlmsg_seq = seq, nlmsg_pid = 0, nlmsg_body = body\<rparr>"

definition ack :: "u32 \<Rightarrow> nlmsghdr" where
  "ack seq = reply seq 2 0 (le32 0 @ replicate 16 0)"

definition end_of_dump :: "u32 \<Rightarrow> nlmsghdr" where
  "end_of_dump seq = reply seq NLMSG_DONE NLM_F_MULTI (le32 0)"

definition family_reply :: "u32 \<Rightarrow> u16 \<Rightarrow> nlmsghdr" where
  "family_reply seq fam =
     reply seq GENL_ID_CTRL 0
       ([1, 2, 0, 0] @ attr_bytes (CTRL_ATTR_FAMILY_NAME, str_bytes WG_GENL_NAME @ [0]) @ attr_bytes (CTRL_ATTR_FAMILY_ID, le16 fam))"

definition echo_kernel :: "u32 \<Rightarrow> u16 \<Rightarrow> u8 list \<Rightarrow> u8 list list \<Rightarrow> (int + datagram list) \<times> u8 list list" where
  "echo_kernel seq fam req log =
     (if msg_type req = GENL_ID_CTRL then (Inr [Inr (nlmsg_bytes (family_reply seq fam)), Inr (nlmsg_bytes (ack seq))], log)
      else if hd (mnl_nlmsg_get_payload req) = WG_CMD_SET_DEVICE then (Inr [Inr (nlmsg_bytes (ack seq))], log @ [req])
      else (Inr (map Inr log @ [Inr (nlmsg_bytes (end_of_dump seq))]), log))"

definition echo_env :: "nat \<Rightarrow> u32 \<Rightarrow> u32 \<Rightarrow> u16 \<Rightarrow> u8 list list nl_env" where
  "echo_env pagesize seq portid fam =
     \<lparr>nl_pagesize = pagesize, nl_time = seq, nl_socket = None, nl_bind = None, nl_getsockname = Inr (12, AF_NETLINK, portid),
      nl_sendto = echo_kernel seq fam\<rparr>"

lemma echo_env_simps [simp]:
  "nl_time (echo_env pg seq pid fam) = seq" "mnl_socket_open (echo_env pg seq pid fam) = Inr pid"
  "nl_sendto (echo_env pg seq pid fam) = echo_kernel seq fam"
  by (simp_all add: echo_env_def mnl_socket_open_def mnl_socket_bind_def)

lemma echo_buffer: "4096 \<le> pg \<Longrightarrow> 4096 \<le> mnl_ideal_socket_buffer_size (echo_env pg seq pid fam) \<and> mnl_ideal_socket_buffer_size (echo_env pg seq pid fam) \<le> 8192"
  by (simp add: mnl_ideal_socket_buffer_size_def echo_env_def)

lemma reply_simps [simp]:
  "nlmsg_type (reply seq ty flags body) = ty" "nlmsg_flags (reply seq ty flags body) = flags" "nlmsg_seq (reply seq ty flags body) = seq"
  "nlmsg_pid (reply seq ty flags body) = 0" "nlmsg_body (reply seq ty flags body) = body" "nlmsg_len (reply seq ty flags body) = 16 + length body"
  by (simp_all add: reply_def nlmsg_len_def MNL_NLMSG_HDRLEN_def)

lemma recv_ack:
  assumes "4096 \<le> bufsiz"
  shows "mnlg_recv_loop bufsiz seq pid cb (Inr (nlmsg_bytes (ack seq)) # queue) st = Some (0, (0, snd st), queue)"
proof -
  note fields = message_fields [of "ack seq" "[]", simplified]
  have good: "good_msg (ack seq)" by (simp add: good_msg_def ack_def)
  have "choose_cb cb mnlg_cb_array (nlmsg_bytes (ack seq)) = Some mnlg_cb_error"
    using fields by (simp add: choose_cb_def mnlg_cb_array_def ack_def NLMSG_MIN_TYPE_def)
  moreover have "mnlg_cb_error (nlmsg_bytes (ack seq)) st = (0, (0, snd st))"
    using fields good_msg_len(1) [OF good, of "[]"] by (simp add: mnlg_cb_error_def ack_def MNL_NLMSG_HDRLEN_def mnl_cb_defs)
  ultimately show ?thesis
    using recv_one [OF good, of bufsiz seq cb mnlg_cb_error st 0 "(0, snd st)" pid queue] assms by (simp add: ack_def)
qed

lemma recv_end_of_dump:
  assumes "4096 \<le> bufsiz"
  shows "mnlg_recv_loop bufsiz seq pid cb (Inr (nlmsg_bytes (end_of_dump seq)) # queue) st = Some (0, (0, snd st), queue)"
proof -
  note fields = message_fields [of "end_of_dump seq" "[]", simplified]
  have good: "good_msg (end_of_dump seq)" by (simp add: good_msg_def end_of_dump_def)
  have "choose_cb cb mnlg_cb_array (nlmsg_bytes (end_of_dump seq)) = Some mnlg_cb_stop"
    using fields by (simp add: choose_cb_def mnlg_cb_array_def end_of_dump_def NLMSG_MIN_TYPE_def NLMSG_DONE_def)
  moreover have "mnlg_cb_stop (nlmsg_bytes (end_of_dump seq)) st = (0, (0, snd st))"
    using fields good_msg_len(1) [OF good, of "[]"] get_le(2) [of 0 "[]"]
    by (simp add: mnlg_cb_stop_def end_of_dump_def MNL_NLMSG_HDRLEN_def mnl_cb_defs NLM_F_MULTI_def)
  ultimately show ?thesis
    using recv_one [OF good, of bufsiz seq cb mnlg_cb_stop st 0 "(0, snd st)" pid queue] assms
    by (simp add: end_of_dump_def NLM_F_MULTI_def NLM_F_DUMP_INTR_def)
qed

lemma recv_family:
  assumes "4096 \<le> bufsiz"
  shows "mnlg_recv_loop bufsiz seq pid (Some get_family_id_cb) (Inr (nlmsg_bytes (family_reply seq fam)) # queue) (0, i)
    = mnlg_recv_loop bufsiz seq pid (Some get_family_id_cb) queue (0, fam)"
proof -
  let ?n = "attr_bytes (CTRL_ATTR_FAMILY_NAME, str_bytes WG_GENL_NAME @ [0])" and ?i = "attr_bytes (CTRL_ATTR_FAMILY_ID, le16 fam)"
  note fields = message_fields [of "family_reply seq fam" "[]", simplified]
  have len: "length (str_bytes WG_GENL_NAME @ [0]) = 10" by (simp add: WG_GENL_NAME_def)
  have plain: "plain_type CTRL_ATTR_FAMILY_NAME" "plain_type CTRL_ATTR_FAMILY_ID"
    by (simp_all add: plain_type_def NLA_TYPE_MASK_def CTRL_ATTR_FAMILY_NAME_def CTRL_ATTR_FAMILY_ID_def)
  have body: "nlmsg_body (family_reply seq fam) = [1, 2, 0, 0] @ concat [?n, ?i]" by (simp add: family_reply_def)
  have good: "good_msg (family_reply seq fam)"
    using len by (simp add: good_msg_def family_reply_def MNL_ALIGN_def)
  have blocks: "list_all attr_block [?n, ?i]" using len by (simp add: short_def)
  have "run_attrs get_family_id_attr_cb [?n, ?i] [] MNL_CB_OK (0, \<lambda>_. None) = (MNL_CB_OK, (0, (\<lambda>_. None)(2 \<mapsto> ?n @ ?i, 1 \<mapsto> ?i)))"
    using short_view [OF _ plain(1), of "str_bytes WG_GENL_NAME @ [0]" ?i] short_view [OF _ plain(2), of "le16 fam" "[]"] len
    by (simp add: get_family_id_attr_cb_def CTRL_ATTR_FAMILY_NAME_def CTRL_ATTR_FAMILY_ID_def CTRL_ATTR_MAX_def mnl_attr_validate_simps mnl_attr_type_valid_def mnl_cb_defs)
  then have "get_family_id_cb (nlmsg_bytes (family_reply seq fam)) (0, i) = (1, (0, fam))"
    using mnl_attr_parse_blocks [OF body _ blocks good, of "[]" get_family_id_attr_cb "(0, \<lambda>_. None)"]
      short_view(3) [OF _ plain(2), of "le16 fam" "[]"]
    by (simp add: get_family_id_cb_def CTRL_ATTR_FAMILY_ID_def mnl_attr_get_u16_def mnl_cb_defs)
  moreover have "choose_cb (Some get_family_id_cb) mnlg_cb_array (nlmsg_bytes (family_reply seq fam)) = Some get_family_id_cb"
    using fields by (simp add: choose_cb_def family_reply_def NLMSG_MIN_TYPE_def GENL_ID_CTRL_def)
  ultimately show ?thesis
    using recv_one [OF good, of bufsiz seq "Some get_family_id_cb" get_family_id_cb "(0, i)" 1 "(0, fam)" pid queue] assms len
    by (simp add: family_reply_def MNL_ALIGN_def)
qed

definition echo_socket :: "u32 \<Rightarrow> u16 \<Rightarrow> mnlg_socket" where
  "echo_socket pid fam = \<lparr>nlg_id = fam, nlg_version = WG_GENL_VERSION, nlg_portid = pid, nlg_queue = []\<rparr>"

lemma echo_open:
  assumes "4096 \<le> pg"
  shows "mnlg_socket_open (echo_env pg seq pid fam) WG_GENL_NAME WG_GENL_VERSION log = Some (Inr (echo_socket pid fam), log)"
proof -
  let ?env = "echo_env pg seq pid fam"
  let ?req = "mnl_attr_put_strz (mnlg_msg_prepare ?env CTRL_CMD_GETFAMILY (NLM_F_REQUEST OR NLM_F_ACK) GENL_ID_CTRL 1) CTRL_ATTR_FAMILY_NAME WG_GENL_NAME"
  have "nlmsg_type ?req = GENL_ID_CTRL"
    by (simp add: mnl_attr_put_strz_def mnl_attr_put_def mnlg_msg_prepare_def mnl_nlmsg_put_extra_header_def Let_def)
  then have "msg_type (nlmsg_bytes ?req) = GENL_ID_CTRL" using message_fields(2) [of ?req "[]"] by simp
  then show ?thesis
    using echo_buffer [OF assms, of seq pid fam]
    by (simp add: mnlg_socket_open_def Let_def mnlg_socket_send_def echo_kernel_def mnlg_socket_recv_run_def recv_family recv_ack echo_socket_def
        del: mnlg_recv_loop.simps)
qed

section \<open>Setting a device\<close>

abbreviation echo_msg :: "nat \<Rightarrow> u32 \<Rightarrow> u32 \<Rightarrow> u16 \<Rightarrow> bool \<Rightarrow> wgdevice \<Rightarrow> piece list \<Rightarrow> nlmsghdr" where
  "echo_msg pg seq pid fam \<equiv> set_msg (echo_env pg seq pid fam) (echo_socket pid fam)"

lemma set_msg_simps [simp]:
  "nlmsg_type (echo_msg pg seq pid fam first d xs) = fam" "nlmsg_seq (echo_msg pg seq pid fam first d xs) = seq"
  "nlmsg_pid (echo_msg pg seq pid fam first d xs) = 0" "nlmsg_flags (echo_msg pg seq pid fam first d xs) = NLM_F_REQUEST OR NLM_F_ACK"
  "hd (nlmsg_body (echo_msg pg seq pid fam first d xs)) = WG_CMD_SET_DEVICE"
  using msg_prepare_body [of "echo_env pg seq pid fam" WG_CMD_SET_DEVICE "NLM_F_REQUEST OR NLM_F_ACK" fam WG_GENL_VERSION]
  by (auto simp: set_msg_def set_header_def add_bytes_def mnlg_msg_prepare_def mnl_nlmsg_put_extra_header_def mnl_nlmsg_put_header_def
      echo_socket_def Let_def hd_append)

lemma echo_set:
  assumes "fam \<noteq> GENL_ID_CTRL"
  shows "echo_kernel seq fam (nlmsg_bytes (echo_msg pg seq pid fam first d xs)) log
    = (Inr [Inr (nlmsg_bytes (ack seq))], log @ [nlmsg_bytes (echo_msg pg seq pid fam first d xs)])"
  using message_fields(2,6) [of "echo_msg pg seq pid fam first d xs" "[]"] assms by (simp add: echo_kernel_def)

lemma set_loop_step:
  assumes "4096 \<le> pg" and "fam \<noteq> GENL_ID_CTRL"
    and "set_message (echo_env pg seq pid fam) (echo_socket pid fam) d peer as = (echo_msg pg seq pid fam first d xs, ps', as')"
  shows "set_loop (echo_env pg seq pid fam) (echo_socket pid fam) d peer as log =
    (let log' = log @ [nlmsg_bytes (echo_msg pg seq pid fam first d xs)]
     in if ps' \<noteq> [] then set_loop (echo_env pg seq pid fam) (echo_socket pid fam) d (Some ps') as' log' else Some (0, log'))"
proof -
  have "mnlg_socket_recv_run (echo_env pg seq pid fam) (echo_socket pid fam\<lparr>nlg_queue := [Inr (nlmsg_bytes (ack seq))]\<rparr>) None (0, ())
      = Some (0, (0, ()), echo_socket pid fam)"
    using echo_buffer [OF assms(1), of seq pid fam] by (simp add: recv_ack mnlg_socket_recv_run_def echo_socket_def del: mnlg_recv_loop.simps)
  moreover have "nlg_queue (echo_socket pid fam) = []" by (simp add: echo_socket_def)
  ultimately show ?thesis
    using assms by (subst set_loop.simps) (simp add: mnlg_socket_send_def echo_set Let_def)
qed

text \<open>The messages behind the first.\<close>

lemma set_loop_rest:
  assumes "4096 \<le> pg" and "fam \<noteq> GENL_ID_CTRL" and "good_device d" and "peers d \<noteq> []" and "pending (ps, as)" and "ps \<noteq> []"
  shows "\<exists>xss. set_loop (echo_env pg seq pid fam) (echo_socket pid fam) d (Some ps) as log
      = Some (0, log @ map (\<lambda>xs. nlmsg_bytes (echo_msg pg seq pid fam False d xs)) xss)
    \<and> take_pieces (ps, as) (concat xss) ([], [])
    \<and> list_all (\<lambda>xs. nlmsg_len (echo_msg pg seq pid fam False d xs) \<le> mnl_ideal_socket_buffer_size (echo_env pg seq pid fam)) xss"
  using assms(5,6)
proof (induction "work (ps, as)" arbitrary: ps as log rule: less_induct)
  case less
  obtain xs ps' as' where m: "set_message (echo_env pg seq pid fam) (echo_socket pid fam) d (Some ps) as = (echo_msg pg seq pid fam False d xs, ps', as')"
    "xs \<noteq> []" "take_pieces (ps, as) xs (ps', as')"
    "nlmsg_len (echo_msg pg seq pid fam False d xs) \<le> mnl_ideal_socket_buffer_size (echo_env pg seq pid fam)"
    using set_message_bytes [OF assms(3), of "Some ps" as "echo_env pg seq pid fam" "echo_socket pid fam"] assms(4) less.prems echo_buffer [OF assms(1)]
    by auto
  have prog: "pending (ps', as')" "work (ps', as') < work (ps, as)" using take_pieces_progress [OF m(3) less.prems(1)] m(2) by auto
  show ?case
  proof (cases "ps' = []")
    case True
    then have "as' = []" using prog(1) by (simp add: pending_def)
    then show ?thesis
      using set_loop_step [OF assms(1,2) m(1), of log] m True by (intro exI [of _ "[xs]"]) simp
  next
    case False
    let ?log = "log @ [nlmsg_bytes (echo_msg pg seq pid fam False d xs)]"
    obtain xss where "set_loop (echo_env pg seq pid fam) (echo_socket pid fam) d (Some ps') as' ?log
        = Some (0, ?log @ map (\<lambda>xs. nlmsg_bytes (echo_msg pg seq pid fam False d xs)) xss)"
      "take_pieces (ps', as') (concat xss) ([], [])"
      "list_all (\<lambda>xs. nlmsg_len (echo_msg pg seq pid fam False d xs) \<le> mnl_ideal_socket_buffer_size (echo_env pg seq pid fam)) xss"
      using less.hyps [OF prog(2) prog(1) False] by blast
    then show ?thesis
      using set_loop_step [OF assms(1,2) m(1), of log] m False take_pieces_append [OF m(3)]
      by (intro exI [of _ "xs # xss"]) (simp add: Let_def)
  qed
qed

text \<open>All the messages: the first carries the attributes of the device.\<close>

lemma set_loop_all:
  assumes "4096 \<le> pg" and "fam \<noteq> GENL_ID_CTRL" and "good_device d"
  shows "\<exists>xs xss. set_loop (echo_env pg seq pid fam) (echo_socket pid fam) d None [] []
      = Some (0, nlmsg_bytes (echo_msg pg seq pid fam True d xs) # map (\<lambda>xs. nlmsg_bytes (echo_msg pg seq pid fam False d xs)) xss)
    \<and> take_pieces (peers d, []) (xs @ concat xss) ([], []) \<and> (peers d = [] \<longrightarrow> xs = [] \<and> xss = [])
    \<and> nlmsg_len (echo_msg pg seq pid fam True d xs) \<le> mnl_ideal_socket_buffer_size (echo_env pg seq pid fam)
    \<and> list_all (\<lambda>xs. nlmsg_len (echo_msg pg seq pid fam False d xs) \<le> mnl_ideal_socket_buffer_size (echo_env pg seq pid fam)) xss"
proof (cases "peers d = []")
  case True
  let ?env = "echo_env pg seq pid fam" and ?nlg = "echo_socket pid fam"
  have short: "short_attrs (head_attrs True d)" "length (attrs_bytes (head_attrs True d)) \<le> 84"
    using assms(3) by (simp_all add: short_head_attrs length_head_attrs)
  then have "set_message ?env ?nlg d None [] = (echo_msg pg seq pid fam True d [], [], [])"
    using True fold_put [of "device_attrs d" "add_bytes (attr_bytes (name_attr d)) (set_header ?env ?nlg)"]
    by (simp add: set_message_def set_header_def [symmetric] set_msg_def msg_blocks_def head_attrs_def name_attr_def
        mnl_attr_put_strz_def mnl_attr_put_bytes short_32 Let_def)
  from set_loop_step [OF assms(1,2) this, of "[]"] show ?thesis
    using True short(2) echo_buffer [OF assms(1), of seq pid fam]
    by (intro exI [of _ "[]"]) (simp add: set_msg_def msg_blocks_def take_none)
next
  case False
  have p: "pending (peers d, [])" using assms(3) by (simp add: pending_def good_device_def)
  obtain xs ps' as' where m: "set_message (echo_env pg seq pid fam) (echo_socket pid fam) d None [] = (echo_msg pg seq pid fam True d xs, ps', as')"
    "take_pieces (peers d, []) xs (ps', as')"
    "nlmsg_len (echo_msg pg seq pid fam True d xs) \<le> mnl_ideal_socket_buffer_size (echo_env pg seq pid fam)"
    using set_message_bytes [OF assms(3), of None "[]" "echo_env pg seq pid fam" "echo_socket pid fam"] False p echo_buffer [OF assms(1)] by auto
  have prog: "pending (ps', as')" using take_pieces_progress [OF m(2) p] by simp
  show ?thesis
  proof (cases "ps' = []")
    case True
    then have "as' = []" using prog by (simp add: pending_def)
    then show ?thesis
      using set_loop_step [OF assms(1,2) m(1), of "[]"] m True False by (intro exI [of _ xs] exI [of _ "[]"]) simp
  next
    case more: False
    obtain xss where "set_loop (echo_env pg seq pid fam) (echo_socket pid fam) d (Some ps') as' [nlmsg_bytes (echo_msg pg seq pid fam True d xs)]
        = Some (0, [nlmsg_bytes (echo_msg pg seq pid fam True d xs)] @ map (\<lambda>xs. nlmsg_bytes (echo_msg pg seq pid fam False d xs)) xss)"
      "take_pieces (ps', as') (concat xss) ([], [])"
      "list_all (\<lambda>xs. nlmsg_len (echo_msg pg seq pid fam False d xs) \<le> mnl_ideal_socket_buffer_size (echo_env pg seq pid fam)) xss"
      using set_loop_rest [OF assms False prog more] by blast
    then show ?thesis
      using set_loop_step [OF assms(1,2) m(1), of "[]"] m False more take_pieces_append [OF m(2)]
      by (intro exI [of _ xs] exI [of _ xss]) (simp add: Let_def)
  qed
qed

section \<open>Reading it back\<close>

lemma echo_get:
  assumes "GENL_ID_CTRL < fam"
  shows "echo_kernel seq fam (nlmsg_bytes (mnl_attr_put_strz (mnlg_msg_prepare (echo_env pg seq pid fam) WG_CMD_GET_DEVICE flags fam v) ty s)) log
    = (Inr (map Inr log @ [Inr (nlmsg_bytes (end_of_dump seq))]), log)"
proof -
  let ?m = "mnl_attr_put_strz (mnlg_msg_prepare (echo_env pg seq pid fam) WG_CMD_GET_DEVICE flags fam v) ty s"
  have "nlmsg_type ?m = fam"
    by (simp add: mnl_attr_put_strz_def mnl_attr_put_def mnlg_msg_prepare_def mnl_nlmsg_put_extra_header_def Let_def)
  moreover have "hd (nlmsg_body ?m) = WG_CMD_GET_DEVICE"
    using msg_prepare_body [of "echo_env pg seq pid fam" WG_CMD_GET_DEVICE flags fam v]
    by (auto simp: mnl_attr_put_strz_def mnl_attr_put_def Let_def hd_append)
  ultimately show ?thesis
    using message_fields(2,6) [of ?m "[]"] assms by (auto simp: echo_kernel_def WG_CMD_GET_DEVICE_def WG_CMD_SET_DEVICE_def)
qed

lemma recv_set_msg:
  assumes "GENL_ID_CTRL < fam" and "good_device d" and "list_all good_piece xs" and "peers d = [] \<longrightarrow> xs = []"
    and "nlmsg_len (echo_msg pg seq pid fam first d xs) \<le> bufsiz" and "bufsiz \<le> 8192"
  shows "mnlg_recv_loop bufsiz seq pid (Some read_device_cb) (Inr (nlmsg_bytes (echo_msg pg seq pid fam first d xs)) # queue) (e, x)
    = mnlg_recv_loop bufsiz seq pid (Some read_device_cb) queue (e, msg_read first d xs x)"
proof -
  let ?m = "echo_msg pg seq pid fam first d xs"
  have len: "nlmsg_len ?m \<le> 8192" using assms(5,6) by simp
  have cb: "choose_cb (Some read_device_cb) mnlg_cb_array (nlmsg_bytes ?m) = Some read_device_cb"
    using message_fields(2) [of ?m "[]"] assms(1) by (simp add: choose_cb_def NLMSG_MIN_TYPE_def GENL_ID_CTRL_def word_less_nat_alt word_le_nat_alt)
  have "read_device_cb (nlmsg_bytes ?m) (e, x) = (MNL_CB_OK, (e, msg_read first d xs x))"
    using read_set_msg [OF assms(2,3) len, of "[]"] assms(4) by simp
  then show ?thesis
    using recv_one [OF set_msg_parts(3) [OF assms(2,3) len] assms(5) _ _ _ cb, of seq "(e, x)" MNL_CB_OK "(e, msg_read first d xs x)" pid queue]
    by (simp add: NLM_F_REQUEST_def NLM_F_ACK_def NLM_F_DUMP_INTR_def mnl_cb_defs)
qed

lemma recv_set_msgs:
  assumes "GENL_ID_CTRL < fam" and "good_device d" and "peers d = [] \<longrightarrow> xss = []" and "bufsiz \<le> 8192"
    and "list_all (list_all good_piece) xss" and "list_all (\<lambda>xs. nlmsg_len (echo_msg pg seq pid fam False d xs) \<le> bufsiz) xss"
  shows "mnlg_recv_loop bufsiz seq pid (Some read_device_cb) (map Inr (map (\<lambda>xs. nlmsg_bytes (echo_msg pg seq pid fam False d xs)) xss) @ queue) (e, x)
    = mnlg_recv_loop bufsiz seq pid (Some read_device_cb) queue (e, fold (msg_read False d) xss x)"
  using assms(3,5,6)
proof (induction xss arbitrary: x)
  case (Cons xs xss)
  then show ?case
    using recv_set_msg [OF assms(1,2), of xs pg seq pid False bufsiz "map Inr (map (\<lambda>xs. nlmsg_bytes (echo_msg pg seq pid fam False d xs)) xss) @ queue" e x] assms(4)
    by (simp del: mnlg_recv_loop.simps)
qed simp

text \<open>What a device is read back as.\<close>

definition device_echo :: "wgdevice \<Rightarrow> wgdevice" where
  "device_echo d = (head_read True d zero_device)\<lparr>peers := map peer_echo (peers d)\<rparr>"

lemma msg_read_rest: "dev_name x = dev_name d \<Longrightarrow> msg_read False d xs x = x\<lparr>peers := peers x @ map piece_read xs\<rparr>"
  by (cases x) (simp add: msg_read_def head_read_def Let_def)

lemma msg_reads: "dev_name x = dev_name d \<Longrightarrow> fold (msg_read False d) xss x = x\<lparr>peers := peers x @ map piece_read (concat xss)\<rparr>"
  by (induction xss arbitrary: x) (simp_all add: msg_read_rest)

lemma head_read_simps [simp]: "dev_name (head_read first d x) = dev_name d" "peers (head_read first d x) = peers x"
  by (simp_all add: head_read_def dev_or_def Let_def)

lemma all_msgs_read:
  "fold (msg_read False d) xss (msg_read True d xs zero_device) = (head_read True d zero_device)\<lparr>peers := map piece_read (xs @ concat xss)\<rparr>"
  by (subst msg_reads) (simp_all add: msg_read_def Let_def zero_device_def)

text \<open>The pieces of all the messages, joined again.\<close>

lemma coalesce_all:
  assumes "take_pieces (ps, []) xs ([], [])" and "list_all good_peer ps" and "keys_differ ps"
  shows "coalesce_loop (case map piece_read xs of [] \<Rightarrow> True | p # _ \<Rightarrow> allowedips p = []) (map piece_read xs) = Some (map peer_echo ps)"
proof (cases xs)
  case Nil
  then have "ps = []" using assms(1) by auto
  then show ?thesis using Nil by simp
next
  case (Cons x ys)
  obtain st' where "take_piece (ps, []) x st'" using assms(1) Cons by (auto elim: take_pieces_Cons)
  then obtain p ps' where p: "ps = p # ps'" "peer_public_key (piece_read x) = peer_public_key p"
    by cases (simp_all add: piece_read_def)
  define q where "q = zero_peer\<lparr>peer_public_key := replicate 32 (hd (peer_public_key p) + 1)\<rparr>"
  have len: "length (peer_public_key p) = 32" using assms(2) p(1) by (simp add: good_peer_key)
  have "hd (replicate 32 (hd (peer_public_key p) + 1)) \<noteq> hd (peer_public_key p)" by (simp add: hd_replicate)
  then have "replicate 32 (hd (peer_public_key p) + 1) \<noteq> peer_public_key p" by metis
  then have q: "length (peer_public_key q) = 32" "peer_public_key q \<noteq> peer_public_key p" by (simp_all add: q_def)
  then have "coalesce_loop (allowedips q = []) (q # map piece_read xs) = Some (q # map peer_echo ps)"
    using coalesce_pieces [OF assms(1), of q] assms(2,3) p(1) by simp
  then show ?thesis
    using coalesce_differ [of q "piece_read x" "allowedips q = []" "map piece_read ys"] q len p Cons
    by (auto simp: map_option_eq_Some simp del: coalesce_loop.simps dest!: sym [of "Some _"])
qed

lemma get_loop_echo:
  assumes "4096 \<le> pg" and "GENL_ID_CTRL < fam" and "good_device d" and "peers d = [] \<longrightarrow> xs = [] \<and> xss = []"
    and "nlmsg_len (echo_msg pg seq pid fam True d xs) \<le> mnl_ideal_socket_buffer_size (echo_env pg seq pid fam)"
    and "list_all (\<lambda>xs. nlmsg_len (echo_msg pg seq pid fam False d xs) \<le> mnl_ideal_socket_buffer_size (echo_env pg seq pid fam)) xss"
    and "take_pieces (peers d, []) (xs @ concat xss) ([], [])"
    and "log = nlmsg_bytes (echo_msg pg seq pid fam True d xs) # map (\<lambda>xs. nlmsg_bytes (echo_msg pg seq pid fam False d xs)) xss"
  shows "get_loop (echo_env pg seq pid fam) iface log = Some (Inr (Some (device_echo d)), log)"
proof -
  let ?env = "echo_env pg seq pid fam" and ?x = "(head_read True d zero_device)\<lparr>peers := map piece_read (xs @ concat xss)\<rparr>"
  note buf = echo_buffer [OF assms(1), of seq pid fam]
  have "pending (peers d, [])" using assms(3) by (simp add: pending_def good_device_def)
  then have "list_all good_piece (xs @ concat xss)" using take_pieces_progress [OF assms(7)] by simp
  then have good: "list_all good_piece xs" "list_all (list_all good_piece) xss" by (auto simp: list_all_iff)
  have recv: "mnlg_recv_loop (mnl_ideal_socket_buffer_size ?env) seq pid (Some read_device_cb) (map Inr log @ [Inr (nlmsg_bytes (end_of_dump seq))]) (0, zero_device)
      = Some (0, (0, ?x), [])"
    unfolding assms(8) list.map append_Cons
    using recv_set_msg [OF assms(2,3) good(1) _ assms(5), of "map Inr (map (\<lambda>xs. nlmsg_bytes (echo_msg pg seq pid fam False d xs)) xss) @ [Inr (nlmsg_bytes (end_of_dump seq))]" 0 zero_device]
      recv_set_msgs [OF assms(2,3) _ _ good(2) assms(6), of "[Inr (nlmsg_bytes (end_of_dump seq))]" 0 "msg_read True d xs zero_device"]
      recv_end_of_dump [of "mnl_ideal_socket_buffer_size ?env" seq pid "Some read_device_cb" "[]" "(0, ?x)"] buf assms(4)
    by (simp add: all_msgs_read del: mnlg_recv_loop.simps)
  have "coalesce_peers ?x = Some (device_echo d)"
    using coalesce_all [OF assms(7)] assms(3) by (simp add: coalesce_peers_def device_echo_def good_device_def)
  then show ?thesis
    using recv by (subst get_loop.simps)
      (simp add: echo_open [OF assms(1)] mnlg_socket_send_def echo_get [OF assms(2)] mnlg_socket_recv_run_def echo_socket_def Let_def)
qed

text \<open>
  C3: Setting a device over netlink and reading it back. Against a kernel that acknowledges the messages it
  is sent, keeps them and answers a dump with them, \<open>kernel_set_device\<close> splits any device into messages that
  each fit the socket buffer, and \<open>kernel_get_device\<close> joins the pieces again: the result has the name, the
  keys, the port and the mark that were sent, and every peer in order with all its allowed IPs, however many
  messages they took.
\<close>
theorem kernel_round_trip:
  assumes "good_device d" and "4096 \<le> pg" and "GENL_ID_CTRL < fam" and "length iface < IFNAMSIZ"
  shows "\<exists>log. kernel_set_device (echo_env pg seq pid fam) d [] = Some (0, log)
    \<and> kernel_get_device (echo_env pg seq pid fam) iface log = Some (Inr (Some (device_echo d)), log)
    \<and> list_all (\<lambda>m. length m \<le> mnl_ideal_socket_buffer_size (echo_env pg seq pid fam)) log"
proof -
  let ?env = "echo_env pg seq pid fam"
  obtain xs xss where x: "set_loop ?env (echo_socket pid fam) d None [] []
      = Some (0, nlmsg_bytes (echo_msg pg seq pid fam True d xs) # map (\<lambda>xs. nlmsg_bytes (echo_msg pg seq pid fam False d xs)) xss)"
    "take_pieces (peers d, []) (xs @ concat xss) ([], [])" "peers d = [] \<longrightarrow> xs = [] \<and> xss = []"
    "nlmsg_len (echo_msg pg seq pid fam True d xs) \<le> mnl_ideal_socket_buffer_size ?env"
    "list_all (\<lambda>xs. nlmsg_len (echo_msg pg seq pid fam False d xs) \<le> mnl_ideal_socket_buffer_size ?env) xss"
    using set_loop_all [OF assms(2) _ assms(1), of fam seq pid] assms(3) by auto
  show ?thesis
    using x(1,4,5) get_loop_echo [OF assms(2,3,1) x(3,4,5,2) refl, of iface] assms(4)
    by (intro exI [of _ "nlmsg_bytes (echo_msg pg seq pid fam True d xs) # map (\<lambda>xs. nlmsg_bytes (echo_msg pg seq pid fam False d xs)) xss"])
      (simp add: kernel_set_device_def kernel_get_device_def echo_open [OF assms(2)] length_nlmsg_bytes list_all_iff)
qed

text \<open>A device whose first peer has more allowed IPs than one message holds.\<close>

definition large_device :: wgdevice where
  "large_device = sample_udevice\<lparr>dev_name := ''wg0'', peers :=
     [sample_upeer\<lparr>allowedips := replicate 300 sample_aip\<rparr>, sample_upeer\<lparr>peer_public_key := replicate 32 1\<rparr>]\<rparr>"

lemma good_large_device: "good_device large_device"
proof -
  have "good_aip sample_aip" by (simp add: good_aip_def sample_aip_def AF_INET_def AF_INET6_def)
  then have "good_peer (sample_upeer\<lparr>allowedips := replicate 300 sample_aip\<rparr>)" "good_peer (sample_upeer\<lparr>peer_public_key := replicate 32 1\<rparr>)"
    by (simp_all add: good_peer_def sample_upeer_def zero_peer_def zero_key_def WG_KEY_LEN_def list_all_iff)
  moreover have "replicate 32 (0 :: u8) \<noteq> replicate 32 1" by (simp add: replicate_eq_replicate)
  ultimately show ?thesis
    by (simp add: good_device_def large_device_def sample_udevice_def zero_device_def sample_upeer_def zero_peer_def zero_key_def WG_KEY_LEN_def IFNAMSIZ_def no_nul_def NUL_def)
qed

theorem kernel_round_trip_witness:
  "\<exists>log. kernel_set_device (echo_env 4096 7 1234 28) large_device [] = Some (0, log)
    \<and> kernel_get_device (echo_env 4096 7 1234 28) ''wg0'' log = Some (Inr (Some (device_echo large_device)), log)
    \<and> list_all (\<lambda>m. length m \<le> mnl_ideal_socket_buffer_size (echo_env 4096 7 1234 28)) log"
  by (rule kernel_round_trip [OF good_large_device]) (simp_all add: GENL_ID_CTRL_def IFNAMSIZ_def)

section \<open>Errors in nested attributes\<close>

text \<open>
  C37: An error inside the allowed IPs of a peer is dropped. \<open>parse_allowedips\<close> refuses a prefix length that
  is too large, and \<open>parse_peers\<close> only returns early when the nested result is 0, which an error is not:
  the peer is accepted with the refused allowed IP in its list, and the allowed IPs behind it are lost
  without a word.
\<close>
theorem nested_error_is_dropped:
  assumes "good_peer p" and "length (ip_words a) = 4" and "family a = AF_INET" and "32 < cidr a" and "list_all good_aip as"
    and "length (piece_bytes \<lparr>piece_peer = p, piece_first = True, piece_aips = Some (a # as)\<rparr>) \<le> 8192"
  shows "parse_peers (piece_bytes \<lparr>piece_peer = p, piece_first = True, piece_aips = Some (a # as)\<rparr> @ r) (e, d)
    = (MNL_CB_OK, (e, d\<lparr>peers := peers d @ [peer_read True p [a]]\<rparr>))"
proof -
  let ?as = "map attr_bytes (peer_attrs True p)" and ?n = "nest_bytes WGPEER_A_ALLOWEDIPS (concat (map aip_bytes (a # as)))"
  let ?x = "\<lparr>piece_peer = p, piece_first = True, piece_aips = Some (a # as)\<rparr>"
  have a: "known_aip a" "\<not> good_aip a" using assms(2-4) by (auto simp: known_aip_def good_aip_def AF_INET_def AF_INET6_def)
  have known: "list_all known_aip (a # as)" using a good_aips_known [OF assms(5)] by simp
  have b: "piece_bytes ?x = nest_bytes 0 (concat (?as @ [?n]))" by (simp add: piece_bytes_def)
  have sh: "short (concat (?as @ [?n]))" "short (concat (map aip_bytes (a # as)))" using assms(6) unfolding b by (simp_all add: short_def)
  have blocks: "list_all attr_block (?as @ [?n])"
    using short_peer_attrs [OF assms(1)] sh(2) length_aips_mod [of "a # as"] by simp
  have "run_attrs parse_peer (?as @ [?n]) r MNL_CB_OK (e, zero_peer) = run_attrs parse_peer [?n] r MNL_CB_OK (e, peer_read True p [])"
    by (rule peer_attrs_read [OF assms(1)])
  also have "\<dots> = (MNL_CB_ERROR, (e, peer_read True p [a]))"
    using aips_nest_run [OF known sh(2), of r e "peer_read True p []"] aip_nest_read [OF a(1), of _ e "peer_read True p []"] a(2)
      peer_read_aips [where as = "[a]" and bs = "[]"] by (simp add: mnl_cb_defs)
  finally have "mnl_attr_parse_nested (piece_bytes ?x @ r) parse_peer (e, zero_peer) = (MNL_CB_ERROR, (e, peer_read True p [a]))"
    unfolding b by (subst mnl_attr_parse_nested_blocks [OF blocks sh(1)]) simp_all
  then show ?thesis by (simp add: parse_peers_def mnl_cb_defs)
qed

theorem nested_error_is_dropped_witness:
  "parse_peers (piece_bytes \<lparr>piece_peer = sample_upeer, piece_first = True, piece_aips = Some [sample_aip\<lparr>cidr := 33\<rparr>, sample_aip]\<rparr> @ []) (0, zero_device)
    = (MNL_CB_OK, (0, zero_device\<lparr>peers := peers zero_device @ [peer_read True sample_upeer [sample_aip\<lparr>cidr := 33\<rparr>]]\<rparr>))"
proof -
  have a: "good_aip sample_aip" "family sample_aip = AF_INET" "length (ip_words sample_aip) = 4"
    by (simp_all add: good_aip_def sample_aip_def AF_INET_def AF_INET6_def)
  have p: "good_peer sample_upeer" using a by (simp add: good_peer_def sample_upeer_def zero_peer_def zero_key_def WG_KEY_LEN_def)
  have "length (aip_bytes (sample_aip\<lparr>cidr := 33\<rparr>)) \<le> 48" "length (aip_bytes sample_aip) \<le> 48"
    using a by (auto intro!: length_aip_bytes simp: known_aip_def)
  then have "length (piece_bytes \<lparr>piece_peer = sample_upeer, piece_first = True, piece_aips = Some [sample_aip\<lparr>cidr := 33\<rparr>, sample_aip]\<rparr>) \<le> 8192"
    using length_peer_attrs [OF p, of True] by (simp add: piece_bytes_def)
  then show ?thesis using a p by (intro nested_error_is_dropped) simp_all
qed

text \<open>
  C38: Joining the pieces of a peer is not safe when a piece in the middle has no allowed IPs. Joining an
  empty piece sets \<open>last_allowedip\<close> to NULL while \<open>first_allowedip\<close> is set, and the next piece is linked
  through it. Only a kernel that sends such a piece would show it.
\<close>
theorem coalesce_empty_piece:
  assumes "length (peer_public_key p) = 32" and "peer_public_key q = peer_public_key p" and "peer_public_key r = peer_public_key p"
    and "allowedips p \<noteq> []" and "allowedips q = []"
  shows "coalesce_peers (d\<lparr>peers := p # q # r # ps\<rparr>) = None"
  using assms memcmp_zero_iff [of "peer_public_key p" 32 "peer_public_key p"] by (simp add: coalesce_peers_def WG_KEY_LEN_def)

theorem coalesce_empty_piece_witness:
  "coalesce_peers (zero_device\<lparr>peers := [sample_upeer, zero_peer, sample_upeer]\<rparr>) = None"
  by (rule coalesce_empty_piece) (simp_all add: sample_upeer_def zero_peer_def zero_key_def WG_KEY_LEN_def)

end
