(* ===== verification/Highlighter.thy ===== *)
theory Highlighter
  imports Encoding
begin

text \<open>
  The syntax highlighter for configuration files of \<open>src/contrib/highlighter/highlighter.c\<close>, in its full
  form (\<open>MOBILE_WGQUICK_SUBSET\<close> is not defined).

  A \<open>string_span_t\<close> is a suffix of the text, for the pointer, and a length. Reading through it sees the
  characters of the suffix and its terminator; a read behind that is unspecified. The array of highlighted
  spans keeps its capacity, and writing to its last element when it is empty is the result \<open>None\<close>.
  Allocation fails only where \<open>realloc_array\<close> itself refuses a size. The numbers that are read have at most ten
  digits, so they do not wrap.
\<close>

unbundle bit_operations_syntax

section \<open>The code: checks of values\<close>

record string_span =
  sp_s :: string
  sp_len :: nat

definition ch :: "string_span \<Rightarrow> nat \<Rightarrow> char" where
  "ch s i = (sp_s s @ [NUL]) ! i"

definition sub_span :: "string_span \<Rightarrow> nat \<Rightarrow> nat \<Rightarrow> string_span" where
  "sub_span s i n = \<lparr>sp_s = drop i (sp_s s), sp_len = n\<rparr>"

definition is_decimal :: "char \<Rightarrow> bool" where
  "is_decimal c \<longleftrightarrow> c_int c \<ge> 48 \<and> c_int c \<le> 57"

definition is_hexadecimal :: "char \<Rightarrow> bool" where
  "is_hexadecimal c \<longleftrightarrow> is_decimal c \<or> (c_int c OR 32) \<ge> 97 \<and> (c_int c OR 32) \<le> 102"

definition is_alphabet :: "char \<Rightarrow> bool" where
  "is_alphabet c \<longleftrightarrow> (c_int c OR 32) \<ge> 97 \<and> (c_int c OR 32) \<le> 122"

definition is_same :: "string_span \<Rightarrow> string \<Rightarrow> bool" where
  "is_same s c = (let len = length c in if len \<noteq> sp_len s then False else list_all (\<lambda>i. ch s i = c ! i) [0..<len])"

definition upper :: "char \<Rightarrow> char" where
  "upper a = (if (word_of_int (c_int a) :: u32) - 97 < 26 then char_of (of_char a AND (95 :: nat)) else a)"

definition is_caseless_same :: "string_span \<Rightarrow> string \<Rightarrow> bool" where
  "is_caseless_same s c =
     (let len = length c in if len \<noteq> sp_len s then False else list_all (\<lambda>i. upper (c ! i) = upper (ch s i)) [0..<len])"

definition is_valid_key :: "string_span \<Rightarrow> bool" where
  "is_valid_key s =
     (if sp_len s \<noteq> 44 \<or> ch s 43 \<noteq> CHR ''='' then False
      else if list_ex (\<lambda>i. \<not> is_decimal (ch s i) \<and> \<not> is_alphabet (ch s i) \<and> ch s i \<noteq> CHR ''/'' \<and> ch s i \<noteq> CHR ''+'') [0..<42] then False
      else ch s 42 \<in> set ''AEIMQUYcgkosw480'')"

text \<open>The loop of \<open>is_valid_hostname\<close> over its indices.\<close>

fun hostname_loop :: "string_span \<Rightarrow> nat list \<Rightarrow> nat \<Rightarrow> nat \<Rightarrow> bool" where
  "hostname_loop s [] num_digit num_entity \<longleftrightarrow> num_digit \<noteq> num_entity"
| "hostname_loop s (i # rest) num_digit num_entity \<longleftrightarrow>
     (if is_decimal (ch s i) then hostname_loop s rest (num_digit + 1) num_entity
      else if ch s i = CHR ''.'' then hostname_loop s rest num_digit (num_entity - 1)
      else if \<not> is_alphabet (ch s i) \<and> ch s i \<noteq> CHR ''-'' then False
      else if i \<noteq> 0 \<and> ch s i = CHR ''.'' \<and> ch s (i - 1) = CHR ''.'' then False
      else hostname_loop s rest num_digit num_entity)"

definition is_valid_hostname :: "string_span \<Rightarrow> bool" where
  "is_valid_hostname s =
     (if sp_len s > 63 \<or> sp_len s = 0 then False
      else if ch s 0 = CHR ''-'' \<or> ch s (sp_len s - 1) = CHR ''-'' then False
      else if ch s 0 = CHR ''.'' \<or> ch s (sp_len s - 1) = CHR ''.'' then False
      else hostname_loop s [0..<sp_len s] 0 (sp_len s))"

definition digit :: "char \<Rightarrow> nat" where
  "digit c = nat (c_int c - 48)"

function ipv4_digits :: "string_span \<Rightarrow> nat \<Rightarrow> nat \<Rightarrow> nat \<Rightarrow> nat \<times> nat" where
  "ipv4_digits s pos j val =
     (if j < 3 \<and> pos + j < sp_len s \<and> is_decimal (ch s (pos + j)) then ipv4_digits s pos (j + 1) (10 * val + digit (ch s (pos + j)))
      else (j, val))"
  by pat_completeness auto
termination by (relation "measure (\<lambda>(s, pos, j, val). 3 - j)") auto

function ipv4_loop :: "string_span \<Rightarrow> nat \<Rightarrow> nat \<Rightarrow> bool" where
  "ipv4_loop s i pos =
     (if \<not> (i < 4 \<and> pos < sp_len s) then False
      else
        let (j, val) = ipv4_digits s pos 0 0
        in if j = 0 \<or> j > 1 \<and> ch s pos = CHR ''0'' \<or> val > 255 then False
           else if pos + j = sp_len s \<and> i = 3 then True
           else if ch s (pos + j) \<noteq> CHR ''.'' then False
           else ipv4_loop s (i + 1) (pos + (j + 1)))"
  by pat_completeness auto
termination by (relation "measure (\<lambda>(s, i, pos). 4 - i)") auto

definition is_valid_ipv4 :: "string_span \<Rightarrow> bool" where
  "is_valid_ipv4 s = ipv4_loop s 0 0"

function hex_run :: "string_span \<Rightarrow> nat \<Rightarrow> nat \<Rightarrow> nat" where
  "hex_run s pos j = (if j < 4 \<and> pos + j < sp_len s \<and> is_hexadecimal (ch s (pos + j)) then hex_run s pos (j + 1) else j)"
  by pat_completeness auto
termination by (relation "measure (\<lambda>(s, pos, j). 4 - j)") auto

function ipv6_loop :: "string_span \<Rightarrow> nat \<Rightarrow> nat \<Rightarrow> bool \<Rightarrow> bool" where
  "ipv6_loop s i pos seen_colon =
     (if \<not> pos < sp_len s then True
      else if ch s pos = CHR '':'' \<and> \<not> seen_colon then
        (if pos + 1 = sp_len s then True
         else if i = 7 then False
         else ipv6_loop s (i + 1) (pos + 1) True)
      else
        let j = hex_run s pos 0
        in if j = 0 then False
           else if pos + j = sp_len s \<and> (seen_colon \<or> i = 7) then True
           else if i = 7 then False
           else if ch s (pos + j) \<noteq> CHR '':'' then
             (if ch s (pos + j) \<noteq> CHR ''.'' \<or> i < 6 \<and> \<not> seen_colon then False
              else is_valid_ipv4 (sub_span s pos (sp_len s - pos)))
           else ipv6_loop s (i + 1) (pos + (j + 1)) seen_colon)"
  by pat_completeness auto
termination by (relation "measure (\<lambda>(s, i, pos, seen_colon). sp_len s - pos)") auto

definition is_valid_ipv6 :: "string_span \<Rightarrow> bool" where
  "is_valid_ipv6 s =
     (if sp_len s < 2 then False
      else if ch s 0 = CHR '':'' \<and> ch s 1 \<noteq> CHR '':'' then False
      else if ch s (sp_len s - 1) = CHR '':'' \<and> ch s (sp_len s - 2) \<noteq> CHR '':'' then False
      else ipv6_loop s 0 (if ch s 0 = CHR '':'' then 1 else 0) False)"

fun hex_value :: "string_span \<Rightarrow> nat list \<Rightarrow> nat \<Rightarrow> nat option" where
  "hex_value s [] val = Some val"
| "hex_value s (i # rest) val =
     (if (word_of_int (c_int (ch s i)) :: u32) - 48 < 10 then hex_value s rest (16 * val + digit (ch s i))
      else if ((word_of_int (c_int (ch s i)) :: u32) OR 32) - 97 < 6 then hex_value s rest (16 * val + nat ((c_int (ch s i) OR 32) - 97 + 10))
      else None)"

fun dec_value :: "string_span \<Rightarrow> nat list \<Rightarrow> nat \<Rightarrow> nat option" where
  "dec_value s [] val = Some val"
| "dec_value s (i # rest) val = (if \<not> is_decimal (ch s i) then None else dec_value s rest (10 * val + digit (ch s i)))"

definition is_valid_uint :: "string_span \<Rightarrow> bool \<Rightarrow> nat \<Rightarrow> nat \<Rightarrow> bool" where
  "is_valid_uint s support_hex lo hi =
     (if sp_len s > 10 \<or> sp_len s = 0 then False
      else
        case (if support_hex \<and> sp_len s > 2 \<and> ch s 0 = CHR ''0'' \<and> ch s 1 = CHR ''x'' then hex_value s [2..<sp_len s] 0
              else dec_value s [0..<sp_len s] 0) of
          None \<Rightarrow> False
        | Some val \<Rightarrow> val \<le> hi \<and> val \<ge> lo)"

definition is_valid_port :: "string_span \<Rightarrow> bool" where
  "is_valid_port s = is_valid_uint s False 0 65535"

definition is_valid_mtu :: "string_span \<Rightarrow> bool" where
  "is_valid_mtu s = is_valid_uint s False 576 65535"

definition is_valid_persistentkeepalive :: "string_span \<Rightarrow> bool" where
  "is_valid_persistentkeepalive s = (if is_same s ''off'' then True else is_valid_uint s False 0 65535)"

definition is_valid_fwmark :: "string_span \<Rightarrow> bool" where
  "is_valid_fwmark s = (if is_same s ''off'' then True else is_valid_uint s True 0 4294967295)"

definition is_valid_table :: "string_span \<Rightarrow> bool" where
  "is_valid_table s =
     (if is_same s ''auto'' then True
      else if is_same s ''off'' then True
      else if sp_len s < 512 then True
      else is_valid_uint s False 0 4294967295)"

definition is_valid_saveconfig :: "string_span \<Rightarrow> bool" where
  "is_valid_saveconfig s \<longleftrightarrow> is_same s ''true'' \<or> is_same s ''false''"

definition is_valid_prepostupdown :: "string_span \<Rightarrow> bool" where
  "is_valid_prepostupdown s \<longleftrightarrow> sp_len s \<noteq> 0"

definition is_valid_scope :: "string_span \<Rightarrow> bool" where
  "is_valid_scope s =
     (if sp_len s > 64 \<or> sp_len s = 0 then False
      else list_all (\<lambda>i. is_alphabet (ch s i) \<or> is_decimal (ch s i) \<or> ch s i \<in> set ''_=+.-'') [0..<sp_len s])"

text \<open>The loop of \<open>is_valid_endpoint\<close> behind an opening bracket.\<close>

fun bracket_loop :: "string_span \<Rightarrow> nat list \<Rightarrow> string_span \<Rightarrow> bool \<Rightarrow> bool" where
  "bracket_loop s [] hostspan seen_scope \<longleftrightarrow> False"
| "bracket_loop s (i # rest) hostspan seen_scope \<longleftrightarrow>
     (if ch s i = CHR ''%'' then
        (if seen_scope then False
         else if \<not> is_valid_ipv6 hostspan then False
         else bracket_loop s rest (sub_span s (i + 1) 0) True)
      else if ch s i = CHR '']'' then
        (if seen_scope \<and> \<not> is_valid_scope hostspan then False
         else if \<not> seen_scope \<and> \<not> is_valid_ipv6 hostspan then False
         else if i = sp_len s - 1 \<or> ch s (i + 1) \<noteq> CHR '':'' then False
         else is_valid_port (sub_span s (i + 2) (sp_len s - i - 2)))
      else bracket_loop s rest (hostspan\<lparr>sp_len := sp_len hostspan + 1\<rparr>) seen_scope)"

fun colon_loop :: "string_span \<Rightarrow> nat list \<Rightarrow> bool" where
  "colon_loop s [] \<longleftrightarrow> False"
| "colon_loop s (i # rest) \<longleftrightarrow>
     (if ch s i = CHR '':'' then
        let host = sub_span s 0 i; port = sub_span s (i + 1) (sp_len s - i - 1)
        in is_valid_port port \<and> (is_valid_ipv4 host \<or> is_valid_hostname host)
      else colon_loop s rest)"

definition is_valid_endpoint :: "string_span \<Rightarrow> bool" where
  "is_valid_endpoint s =
     (if sp_len s = 0 then False
      else if ch s 0 = CHR ''['' then bracket_loop s [1..<sp_len s] (sub_span s 1 0) False
      else colon_loop s [0..<sp_len s])"

fun slash_loop :: "string_span \<Rightarrow> nat list \<Rightarrow> bool" where
  "slash_loop s [] \<longleftrightarrow> is_valid_ipv4 s \<or> is_valid_ipv6 s"
| "slash_loop s (i # rest) \<longleftrightarrow>
     (if ch s i = CHR ''/'' then
        let ip = sub_span s 0 i; cidr = sub_span s (i + 1) (sp_len s - i - 1)
        in if sp_len cidr > 3 \<or> sp_len cidr = 0 then False
           else
             case dec_value cidr [0..<sp_len cidr] 0 of
               None \<Rightarrow> False
             | Some cidrval \<Rightarrow>
                 if is_valid_ipv4 ip then cidrval \<le> 32
                 else if is_valid_ipv6 ip then cidrval \<le> 128
                 else False
      else slash_loop s rest)"

definition is_valid_network :: "string_span \<Rightarrow> bool" where
  "is_valid_network s = slash_loop s [0..<sp_len s]"

section \<open>The code: fields and spans\<close>

datatype field =
    InterfaceSection | PrivateKey | ListenPort | Address | DNS | MTU | FwMark | Table | PreUp | PostUp | PreDown | PostDown | SaveConfig
  | PeerSection | PublicKey | PresharedKey | AllowedIPs | Endpoint | PersistentKeepalive | Invalid

text \<open>The values of the enumeration, which \<open>section_for_field\<close> compares.\<close>

primrec field_val :: "field \<Rightarrow> nat" where
  "field_val InterfaceSection = 0" | "field_val PrivateKey = 1" | "field_val ListenPort = 2" | "field_val Address = 3" | "field_val DNS = 4"
| "field_val MTU = 5" | "field_val FwMark = 6" | "field_val Table = 7" | "field_val PreUp = 8" | "field_val PostUp = 9" | "field_val PreDown = 10"
| "field_val PostDown = 11" | "field_val SaveConfig = 12" | "field_val PeerSection = 13" | "field_val PublicKey = 14" | "field_val PresharedKey = 15"
| "field_val AllowedIPs = 16" | "field_val Endpoint = 17" | "field_val PersistentKeepalive = 18" | "field_val Invalid = 19"

definition section_for_field :: "field \<Rightarrow> field" where
  "section_for_field t =
     (if field_val t > field_val InterfaceSection \<and> field_val t < field_val PeerSection then InterfaceSection
      else if field_val t > field_val PeerSection \<and> field_val t < field_val Invalid then PeerSection
      else Invalid)"

definition field_names :: "(string \<times> field) list" where
  "field_names =
     [(''PrivateKey'', PrivateKey), (''ListenPort'', ListenPort), (''Address'', Address), (''DNS'', DNS), (''MTU'', MTU), (''PublicKey'', PublicKey),
      (''PresharedKey'', PresharedKey), (''AllowedIPs'', AllowedIPs), (''Endpoint'', Endpoint), (''PersistentKeepalive'', PersistentKeepalive),
      (''FwMark'', FwMark), (''Table'', Table), (''PreUp'', PreUp), (''PostUp'', PostUp), (''PreDown'', PreDown), (''PostDown'', PostDown),
      (''SaveConfig'', SaveConfig)]"

fun check_enum :: "string_span \<Rightarrow> (string \<times> field) list \<Rightarrow> field" where
  "check_enum s [] = Invalid"
| "check_enum s ((name, t) # rest) = (if is_caseless_same s name then t else check_enum s rest)"

definition get_field :: "string_span \<Rightarrow> field" where
  "get_field s = check_enum s field_names"

definition get_sectiontype :: "string_span \<Rightarrow> field" where
  "get_sectiontype s =
     (if is_caseless_same s ''[Peer]'' then PeerSection else if is_caseless_same s ''[Interface]'' then InterfaceSection else Invalid)"

datatype highlight_type =
    HighlightSection | HighlightField | HighlightPrivateKey | HighlightPublicKey | HighlightPresharedKey | HighlightIP | HighlightCidr
  | HighlightHost | HighlightPort | HighlightMTU | HighlightKeepalive | HighlightComment | HighlightDelimiter | HighlightTable
  | HighlightFwMark | HighlightSaveConfig | HighlightCmd | HighlightError | HighlightEnd

record highlight_span =
  hs_type :: highlight_type
  hs_start :: nat
  hs_len :: nat

record highlight_span_array =
  sa_capacity :: u64
  sa_spans :: "highlight_span list"

definition empty_array :: highlight_span_array where
  "empty_array = \<lparr>sa_capacity = 0, sa_spans = []\<rparr>"

definition sizeof_highlight_span :: u64 where "sizeof_highlight_span = 24"

text \<open>The overflow test of \<open>realloc_array\<close>.\<close>

definition realloc_array_refuses :: "u64 \<Rightarrow> u64 \<Rightarrow> bool" where
  "realloc_array_refuses nmemb sz \<longleftrightarrow> (nmemb \<ge> push_bit 32 1 \<or> sz \<ge> push_bit 32 1) \<and> nmemb > 0 \<and> (- 1) div nmemb < sz"

definition append_highlight_span :: "highlight_span_array \<Rightarrow> string \<Rightarrow> string_span \<Rightarrow> highlight_type \<Rightarrow> highlight_span_array" where
  "append_highlight_span a o' s t =
     (if sp_len s = 0 then a
      else
        let span = \<lparr>hs_type = t, hs_start = length o' - length (sp_s s), hs_len = sp_len s\<rparr>
        in if length (sa_spans a) \<ge> unat (sa_capacity a) then
             let capacity = (if sa_capacity a \<noteq> 0 then sa_capacity a * 2 else 64)
             in if realloc_array_refuses capacity sizeof_highlight_span then empty_array
                else \<lparr>sa_capacity = capacity, sa_spans = sa_spans a @ [span]\<rparr>
           else a\<lparr>sa_spans := sa_spans a @ [span]\<rparr>)"

definition find_slash :: "string_span \<Rightarrow> nat" where
  "find_slash s = length (takeWhile (\<lambda>i. ch s i \<noteq> CHR ''/'') [0..<sp_len s])"

definition highlight_multivalue_value :: "highlight_span_array \<Rightarrow> string_span \<Rightarrow> string_span \<Rightarrow> field \<Rightarrow> highlight_span_array" where
  "highlight_multivalue_value ret parent s section =
     (case section of
        DNS \<Rightarrow>
          if is_valid_ipv4 s \<or> is_valid_ipv6 s then append_highlight_span ret (sp_s parent) s HighlightIP
          else if is_valid_hostname s then append_highlight_span ret (sp_s parent) s HighlightHost
          else append_highlight_span ret (sp_s parent) s HighlightError
      | _ \<Rightarrow>
          if section = Address \<or> section = AllowedIPs then
            if \<not> is_valid_network s then append_highlight_span ret (sp_s parent) s HighlightError
            else
              let slash = find_slash s
              in if slash = sp_len s then append_highlight_span ret (sp_s parent) s HighlightIP
                 else
                   let ret = append_highlight_span ret (sp_s parent) (sub_span s 0 slash) HighlightIP;
                       ret = append_highlight_span ret (sp_s parent) (sub_span s slash 1) HighlightDelimiter
                   in append_highlight_span ret (sp_s parent) (sub_span s (slash + 1) (sp_len s - slash - 1)) HighlightCidr
          else append_highlight_span ret (sp_s parent) s HighlightError)"

text \<open>A blank that is not inside the current span moves its start.\<close>

definition blank_step :: "string_span \<Rightarrow> nat \<Rightarrow> string_span \<Rightarrow> string_span" where
  "blank_step s i cur =
     (if drop i (sp_s s) = sp_s cur \<and> sp_len cur = 0 then cur\<lparr>sp_s := tl (sp_s cur)\<rparr> else cur\<lparr>sp_len := sp_len cur + 1\<rparr>)"

definition is_blank :: "char \<Rightarrow> bool" where
  "is_blank c \<longleftrightarrow> c = CHR '' '' \<or> c = CHR 0x09"

fun multivalue_loop :: "string_span \<Rightarrow> string_span \<Rightarrow> field \<Rightarrow> nat list \<Rightarrow> highlight_span_array \<Rightarrow> string_span \<Rightarrow> nat
    \<Rightarrow> highlight_span_array \<times> string_span \<times> nat" where
  "multivalue_loop parent s section [] ret cur last_space = (ret, cur, last_space)"
| "multivalue_loop parent s section (i # rest) ret cur last_space =
     (if ch s i = CHR '','' then
        let ret = highlight_multivalue_value ret parent (cur\<lparr>sp_len := last_space\<rparr>) section;
            ret = append_highlight_span ret (sp_s parent) (sub_span s i 1) HighlightDelimiter
        in multivalue_loop parent s section rest ret (sub_span s (i + 1) 0) 0
      else if is_blank (ch s i) then multivalue_loop parent s section rest ret (blank_step s i cur) last_space
      else multivalue_loop parent s section rest ret (cur\<lparr>sp_len := sp_len cur + 1\<rparr>) (sp_len cur + 1))"

definition highlight_multivalue :: "highlight_span_array \<Rightarrow> string_span \<Rightarrow> string_span \<Rightarrow> field \<Rightarrow> highlight_span_array option" where
  "highlight_multivalue ret parent s section =
     (let (ret, cur, last_space) = multivalue_loop parent s section [0..<sp_len s] ret (sub_span s 0 0) 0
      in if last_space \<noteq> 0 then Some (highlight_multivalue_value ret parent (cur\<lparr>sp_len := last_space\<rparr>) section)
         else if sa_spans ret = [] then None
         else if hs_type (last (sa_spans ret)) = HighlightDelimiter
         then Some (ret\<lparr>sa_spans := butlast (sa_spans ret) @ [(last (sa_spans ret))\<lparr>hs_type := HighlightError\<rparr>]\<rparr>)
         else Some ret)"

text \<open>The last colon; without one the counter wraps.\<close>

fun find_colon :: "string_span \<Rightarrow> nat \<Rightarrow> nat" where
  "find_colon s 0 = 2 ^ 64 - 1"
| "find_colon s (Suc colon) = (if ch s colon = CHR '':'' then colon else find_colon s colon)"

definition highlight_value :: "highlight_span_array \<Rightarrow> string_span \<Rightarrow> string_span \<Rightarrow> field \<Rightarrow> highlight_span_array option" where
  "highlight_value ret parent s section =
     (let app = (\<lambda>ok t. Some (append_highlight_span ret (sp_s parent) s (if ok then t else HighlightError)))
      in case section of
           PrivateKey \<Rightarrow> app (is_valid_key s) HighlightPrivateKey
         | PublicKey \<Rightarrow> app (is_valid_key s) HighlightPublicKey
         | PresharedKey \<Rightarrow> app (is_valid_key s) HighlightPresharedKey
         | MTU \<Rightarrow> app (is_valid_mtu s) HighlightMTU
         | SaveConfig \<Rightarrow> app (is_valid_saveconfig s) HighlightSaveConfig
         | FwMark \<Rightarrow> app (is_valid_fwmark s) HighlightFwMark
         | Table \<Rightarrow> app (is_valid_table s) HighlightTable
         | PreUp \<Rightarrow> app (is_valid_prepostupdown s) HighlightCmd
         | PostUp \<Rightarrow> app (is_valid_prepostupdown s) HighlightCmd
         | PreDown \<Rightarrow> app (is_valid_prepostupdown s) HighlightCmd
         | PostDown \<Rightarrow> app (is_valid_prepostupdown s) HighlightCmd
         | ListenPort \<Rightarrow> app (is_valid_port s) HighlightPort
         | PersistentKeepalive \<Rightarrow> app (is_valid_persistentkeepalive s) HighlightKeepalive
         | Endpoint \<Rightarrow>
             if \<not> is_valid_endpoint s then Some (append_highlight_span ret (sp_s parent) s HighlightError)
             else
               let colon = find_colon s (sp_len s);
                   ret = append_highlight_span ret (sp_s parent) (sub_span s 0 colon) HighlightHost;
                   ret = append_highlight_span ret (sp_s parent) (sub_span s colon 1) HighlightDelimiter
               in Some (append_highlight_span ret (sp_s parent) (sub_span s (colon + 1) (sp_len s - colon - 1)) HighlightPort)
         | Address \<Rightarrow> highlight_multivalue ret parent s section
         | DNS \<Rightarrow> highlight_multivalue ret parent s section
         | AllowedIPs \<Rightarrow> highlight_multivalue ret parent s section
         | _ \<Rightarrow> Some (append_highlight_span ret (sp_s parent) s HighlightError))"

section \<open>The code: the whole text\<close>

datatype hl_state = OnNone | OnKey | OnValue | OnComment | OnSection

record highlighter =
  hl_ret :: highlight_span_array
  hl_span :: string_span
  hl_section :: field
  hl_field :: field
  hl_state :: hl_state
  hl_last_space :: nat
  hl_equals :: nat

text \<open>What is done at the end of a line, at the start of a comment and at the end of the text.\<close>

definition end_part :: "string_span \<Rightarrow> highlighter \<Rightarrow> highlighter option" where
  "end_part s h =
     (let cur = (hl_span h)\<lparr>sp_len := hl_last_space h\<rparr>
      in case hl_state h of
           OnKey \<Rightarrow> Some (h\<lparr>hl_span := cur, hl_ret := append_highlight_span (hl_ret h) (sp_s s) cur HighlightError\<rparr>)
         | OnValue \<Rightarrow>
             if sp_len (hl_span h) \<noteq> 0 then
               let ret = append_highlight_span (hl_ret h) (sp_s s) (sub_span s (hl_equals h) 1) HighlightDelimiter
               in map_option (\<lambda>ret. h\<lparr>hl_span := cur, hl_ret := ret\<rparr>) (highlight_value ret s cur (hl_field h))
             else Some (h\<lparr>hl_ret := append_highlight_span (hl_ret h) (sp_s s) (sub_span s (hl_equals h) 1) HighlightError\<rparr>)
         | OnSection \<Rightarrow>
             let section = get_sectiontype cur
             in Some (h\<lparr>hl_span := cur, hl_section := section,
                        hl_ret := append_highlight_span (hl_ret h) (sp_s s) cur (if section = Invalid then HighlightError else HighlightSection)\<rparr>)
         | OnComment \<Rightarrow> Some (h\<lparr>hl_ret := append_highlight_span (hl_ret h) (sp_s s) (hl_span h) HighlightComment\<rparr>)
         | OnNone \<Rightarrow> Some h)"

definition start_part :: "string_span \<Rightarrow> nat \<Rightarrow> highlighter \<Rightarrow> highlighter" where
  "start_part s i h =
     (if ch s i = CHR ''#'' then h\<lparr>hl_last_space := 0, hl_field := Invalid, hl_span := sub_span s i 1, hl_state := OnComment\<rparr>
      else h\<lparr>hl_last_space := 0, hl_field := Invalid, hl_span := sub_span s (i + 1) 0, hl_state := OnNone\<rparr>)"

definition key_end :: "string_span \<Rightarrow> nat \<Rightarrow> highlighter \<Rightarrow> highlighter" where
  "key_end s i h =
     (let cur = (hl_span h)\<lparr>sp_len := hl_last_space h\<rparr>;
          field = get_field cur;
          section = section_for_field field;
          t = (if section = Invalid \<or> field = Invalid \<or> section \<noteq> hl_section h then HighlightError else HighlightField)
      in h\<lparr>hl_field := field, hl_ret := append_highlight_span (hl_ret h) (sp_s s) cur t, hl_equals := i,
           hl_span := sub_span s (i + 1) 0, hl_state := OnValue\<rparr>)"

definition other_char :: "string_span \<Rightarrow> nat \<Rightarrow> highlighter \<Rightarrow> highlighter" where
  "other_char s i h =
     h\<lparr>hl_state := (if hl_state h = OnNone then if ch s i = CHR ''['' then OnSection else OnKey else hl_state h),
       hl_span := (hl_span h)\<lparr>sp_len := sp_len (hl_span h) + 1\<rparr>, hl_last_space := sp_len (hl_span h) + 1\<rparr>"

definition hl_step :: "string_span \<Rightarrow> nat \<Rightarrow> highlighter \<Rightarrow> highlighter option" where
  "hl_step s i h =
     (if ch s i = newline \<or> hl_state h \<noteq> OnComment \<and> ch s i = CHR ''#'' then map_option (start_part s i) (end_part s h)
      else if hl_state h = OnComment then Some (h\<lparr>hl_span := (hl_span h)\<lparr>sp_len := sp_len (hl_span h) + 1\<rparr>\<rparr>)
      else if is_blank (ch s i) then Some (h\<lparr>hl_span := blank_step s i (hl_span h)\<rparr>)
      else if ch s i = CHR ''='' \<and> hl_state h = OnKey then Some (key_end s i h)
      else Some (other_char s i h))"

fun hl_loop :: "string_span \<Rightarrow> nat list \<Rightarrow> highlighter \<Rightarrow> highlighter option" where
  "hl_loop s [] h = end_part s h"
| "hl_loop s (i # rest) h = (case hl_step s i h of None \<Rightarrow> None | Some h' \<Rightarrow> hl_loop s rest h')"

definition highlight_config :: "string \<Rightarrow> highlight_span list option" where
  "highlight_config config =
     (let s = \<lparr>sp_s = config, sp_len = length config\<rparr>;
          h = \<lparr>hl_ret = empty_array, hl_span = sub_span s 0 0, hl_section = Invalid, hl_field = Invalid, hl_state = OnNone,
               hl_last_space = 0, hl_equals = 0\<rparr>
      in map_option (\<lambda>h. sa_spans (append_highlight_span (hl_ret h) config \<lparr>sp_s = config, sp_len = 2 ^ 64 - 1\<rparr> HighlightEnd))
           (hl_loop s [0..<length config] h))"

declare ipv4_digits.simps [simp del] ipv4_loop.simps [simp del] hex_run.simps [simp del] ipv6_loop.simps [simp del]

end
