(* ===== verification/HighlighterFacts.thy ===== *)
theory HighlighterFacts
  imports Highlighter
begin

text \<open>
  Properties of the highlighter: the spans it returns cover the text, apart from blanks, in order and without
  overlap; what it takes for a key is what the configuration reader takes for one.
\<close>

section \<open>The spans tile the text\<close>

text \<open>
  Spans from \<open>lo\<close> to \<open>hi\<close>: in order, not empty, not overlapping, and with nothing but blanks between them.
\<close>

definition blanks :: "string \<Rightarrow> nat \<Rightarrow> nat \<Rightarrow> bool" where
  "blanks text' lo hi \<longleftrightarrow> list_all (\<lambda>i. is_blank (text' ! i) \<or> text' ! i = newline) [lo..<hi]"

fun spans_tile :: "string \<Rightarrow> nat \<Rightarrow> highlight_span list \<Rightarrow> nat \<Rightarrow> bool" where
  "spans_tile cfg lo [] hi \<longleftrightarrow> lo \<le> hi \<and> blanks cfg lo hi"
| "spans_tile cfg lo (x # xs) hi \<longleftrightarrow>
     lo \<le> hs_start x \<and> blanks cfg lo (hs_start x) \<and> hs_len x \<noteq> 0 \<and> hs_type x \<noteq> HighlightEnd
     \<and> spans_tile cfg (hs_start x + hs_len x) xs hi"

lemma blanks_simps [simp]: "blanks cfg lo lo" "blanks cfg (Suc i) (Suc i)"
  by (simp_all add: blanks_def)

lemma blanks_append: "blanks cfg a b \<Longrightarrow> blanks cfg b c \<Longrightarrow> blanks cfg a c"
  unfolding blanks_def list_all_iff set_upt by (metis atLeastLessThan_iff not_le_imp_less)

lemma blanks_Suc: "blanks cfg a b \<Longrightarrow> a \<le> b \<Longrightarrow> is_blank (cfg ! b) \<or> cfg ! b = newline \<Longrightarrow> blanks cfg a (Suc b)"
  by (simp add: blanks_def)

lemma tile_le: "spans_tile cfg lo xs hi \<Longrightarrow> lo + length xs \<le> hi"
  by (induction xs arbitrary: lo) fastforce+

lemma tile_blanks: "spans_tile cfg lo xs p \<Longrightarrow> p \<le> q \<Longrightarrow> blanks cfg p q \<Longrightarrow> spans_tile cfg lo xs q"
  by (induction xs arbitrary: lo) (auto intro: blanks_append)

lemma tile_snoc:
  "spans_tile cfg lo xs (hs_start x) \<Longrightarrow> hs_len x \<noteq> 0 \<Longrightarrow> hs_type x \<noteq> HighlightEnd \<Longrightarrow> spans_tile cfg lo (xs @ [x]) (hs_start x + hs_len x)"
  by (induction xs arbitrary: lo) auto

lemma tile_retype:
  "spans_tile cfg lo (xs @ [x]) hi \<Longrightarrow> t \<noteq> HighlightEnd \<Longrightarrow> spans_tile cfg lo (xs @ [x\<lparr>hs_type := t\<rparr>]) hi"
  by (induction xs arbitrary: lo) auto

section \<open>The array\<close>

definition good_array :: "highlight_span_array \<Rightarrow> bool" where
  "good_array a \<longleftrightarrow> length (sa_spans a) \<le> unat (sa_capacity a) \<and> unat (sa_capacity a) \<le> 2 * length (sa_spans a) + 64"

lemma realloc_array_fits: "unat n < 2 ^ 53 \<Longrightarrow> \<not> realloc_array_refuses n sizeof_highlight_span"
proof -
  assume n: "unat n < 2 ^ 53"
  have "24 \<le> (-1 :: u64) div n" if "n > 0"
  proof -
    have "24 * unat n \<le> 24 * 2 ^ 53" using n by simp
    also have "\<dots> \<le> (2 ^ 64 - 1 :: nat)" by simp
    finally have "24 \<le> (2 ^ 64 - 1 :: nat) div unat n" using that by (simp add: less_eq_div_iff_mult_less_eq unat_gt_0)
    moreover have "unat (-1 :: u64) = 2 ^ 64 - 1" by (simp add: unsigned_minus_1_eq_mask mask_eq_exp_minus_1)
    ultimately show ?thesis by (simp add: word_le_nat_alt unat_div)
  qed
  then show ?thesis by (auto simp: realloc_array_refuses_def sizeof_highlight_span_def)
qed

lemma append_spans:
  assumes "good_array a" and "length (sa_spans a) < 2 ^ 51" and "sp_len s \<noteq> 0"
  shows "good_array (append_highlight_span a o' s t)"
    and "sa_spans (append_highlight_span a o' s t) = sa_spans a @ [\<lparr>hs_type = t, hs_start = length o' - length (sp_s s), hs_len = sp_len s\<rparr>]"
proof -
  have "unat (sa_capacity a) \<le> 2 ^ 52 + 64" using assms by (simp add: good_array_def)
  then have c: "unat (sa_capacity a * 2) = unat (sa_capacity a) * 2" by (simp add: unat_word_ariths)
  have fit: "\<not> realloc_array_refuses 64 sizeof_highlight_span" by (rule realloc_array_fits) simp
  have "good_array (append_highlight_span a o' s t) \<and>
      sa_spans (append_highlight_span a o' s t) = sa_spans a @ [\<lparr>hs_type = t, hs_start = length o' - length (sp_s s), hs_len = sp_len s\<rparr>]"
  proof (cases "length (sa_spans a) \<ge> unat (sa_capacity a)")
    case True
    then have l: "length (sa_spans a) = unat (sa_capacity a)" using assms(1) by (simp add: good_array_def)
    then have "\<not> realloc_array_refuses (sa_capacity a * 2) sizeof_highlight_span"
      using c assms(2) by (intro realloc_array_fits) simp
    then show ?thesis
      using fit l c assms(3) unat_gt_0 [of "sa_capacity a"] by (auto simp: append_highlight_span_def good_array_def Let_def)
  next
    case False
    then show ?thesis using assms by (simp add: append_highlight_span_def good_array_def)
  qed
  then show "good_array (append_highlight_span a o' s t)"
    "sa_spans (append_highlight_span a o' s t) = sa_spans a @ [\<lparr>hs_type = t, hs_start = length o' - length (sp_s s), hs_len = sp_len s\<rparr>]"
    by simp_all
qed

text \<open>What has been highlighted up to a position; \<open>q\<close> says that there is a span.\<close>

definition tiled :: "string \<Rightarrow> bool \<Rightarrow> highlight_span_array \<Rightarrow> nat \<Rightarrow> bool" where
  "tiled cfg q a p \<longleftrightarrow> good_array a \<and> spans_tile cfg 0 (sa_spans a) p \<and> p \<le> length cfg \<and> length cfg < 2 ^ 50 \<and> (q \<longrightarrow> sa_spans a \<noteq> [])"

definition span_at :: "string \<Rightarrow> nat \<Rightarrow> nat \<Rightarrow> string_span" where
  "span_at cfg i n = \<lparr>sp_s = drop i cfg, sp_len = n\<rparr>"

lemma span_at_simps [simp]:
  "sp_len (span_at cfg i n) = n" "sub_span (span_at cfg i n) j m = span_at cfg (i + j) m" "(span_at cfg i n)\<lparr>sp_len := m\<rparr> = span_at cfg i m"
  "sp_s (span_at cfg 0 n) = cfg" "i + j < length cfg \<Longrightarrow> ch (span_at cfg i n) j = cfg ! (i + j)"
  by (auto simp: span_at_def sub_span_def ch_def nth_append add.commute)

lemma tiled_blanks: "tiled cfg q a p \<Longrightarrow> p \<le> i \<Longrightarrow> blanks cfg p i \<Longrightarrow> i \<le> length cfg \<Longrightarrow> tiled cfg q a i"
  by (auto simp: tiled_def intro: tile_blanks)

lemma append_tiled:
  assumes "tiled cfg q a p" and "p \<le> i" and "blanks cfg p i" and "i + n \<le> length cfg" and "t \<noteq> HighlightEnd"
  shows "tiled cfg (q \<or> n \<noteq> 0) (append_highlight_span a cfg (span_at cfg i n) t) (i + n)"
proof (cases "n = 0")
  case True
  then show ?thesis using tiled_blanks [OF assms(1-3)] assms(4) by (simp add: append_highlight_span_def)
next
  case False
  have t: "spans_tile cfg 0 (sa_spans a) i" "good_array a" "length cfg < 2 ^ 50"
    using assms by (auto simp: tiled_def intro: tile_blanks)
  then have l: "length (sa_spans a) < 2 ^ 51" using tile_le [OF t(1)] assms(4) by simp
  let ?x = "\<lparr>hs_type = t, hs_start = length cfg - length (sp_s (span_at cfg i n)), hs_len = n\<rparr>"
  have "hs_start ?x = i" using assms(4) by (simp add: span_at_def)
  then have "spans_tile cfg 0 (sa_spans a @ [?x]) (i + n)" using tile_snoc [of cfg 0 "sa_spans a" ?x] t(1) False assms(5) by simp
  then show ?thesis
    using append_spans [OF t(2) l, of "span_at cfg i n" cfg t] False assms(4) t(3) by (simp add: tiled_def)
qed

section \<open>Values\<close>

lemma find_slash_le: "find_slash s \<le> sp_len s"
  using length_takeWhile_le [of "\<lambda>i. ch s i \<noteq> CHR ''/''" "[0..<sp_len s]"] by (simp add: find_slash_def)

text \<open>A first part, one character and a second part.\<close>

lemma append3_tiled:
  assumes "tiled cfg q a p" and "p \<le> i" and "blanks cfg p i" and "i + n \<le> length cfg" and "k < n" and "HighlightEnd \<notin> {t1, t2, t3}"
  shows "tiled cfg q (append_highlight_span (append_highlight_span (append_highlight_span a cfg (span_at cfg i k) t1)
           cfg (span_at cfg (i + k) 1) t2) cfg (span_at cfg (i + k + 1) (n - k - 1)) t3) (i + n)"
proof -
  have "tiled cfg q (append_highlight_span a cfg (span_at cfg i k) t1) (i + k)"
    using append_tiled [OF assms(1-3), of k t1] assms(4-6) by (auto simp: tiled_def)
  then have "tiled cfg q (append_highlight_span (append_highlight_span a cfg (span_at cfg i k) t1) cfg (span_at cfg (i + k) 1) t2) (i + k + 1)"
    using append_tiled [of cfg q _ "i + k" "i + k" 1 t2] assms(4-6) by (auto simp: tiled_def)
  from append_tiled [OF this, of "i + k + 1" "n - k - 1" t3] show ?thesis using assms(4-6) by (auto simp: tiled_def)
qed

lemma append_tiled_keep:
  assumes "tiled cfg q a p" and "p \<le> i" and "blanks cfg p i" and "i + n \<le> length cfg" and "t \<noteq> HighlightEnd"
  shows "tiled cfg q (append_highlight_span a cfg (span_at cfg i n) t) (i + n)"
  using append_tiled [OF assms] by (auto simp: tiled_def)

lemma network_tiled:
  assumes "tiled cfg q a p" and "p \<le> i" and "blanks cfg p i" and "i + n \<le> length cfg" and "section = Address \<or> section = AllowedIPs"
  shows "tiled cfg q (highlight_multivalue_value a (span_at cfg 0 m) (span_at cfg i n) section) (i + n)"
proof -
  let ?s = "span_at cfg i n" and ?k = "find_slash (span_at cfg i n)"
  note app = append_tiled_keep [OF assms(1-4)]
  have eq: "highlight_multivalue_value a (span_at cfg 0 m) ?s section =
      (if \<not> is_valid_network ?s then append_highlight_span a cfg ?s HighlightError
       else if ?k = n then append_highlight_span a cfg ?s HighlightIP
       else append_highlight_span (append_highlight_span (append_highlight_span a cfg (span_at cfg i ?k) HighlightIP)
              cfg (span_at cfg (i + ?k) 1) HighlightDelimiter) cfg (span_at cfg (i + ?k + 1) (n - ?k - 1)) HighlightCidr)"
    using assms(5) by (auto simp only: highlight_multivalue_value_def field.case Let_def span_at_simps add_0_right add.assoc if_True simp_thms)
  have "tiled cfg q (append_highlight_span (append_highlight_span (append_highlight_span a cfg (span_at cfg i ?k) HighlightIP)
              cfg (span_at cfg (i + ?k) 1) HighlightDelimiter) cfg (span_at cfg (i + ?k + 1) (n - ?k - 1)) HighlightCidr) (i + n)" if "?k \<noteq> n"
    using append3_tiled [OF assms(1-4), of ?k] find_slash_le [of ?s] that by simp
  then show ?thesis unfolding eq using app by simp
qed

lemma multivalue_value_tiled:
  assumes "tiled cfg q a p" and "p \<le> i" and "blanks cfg p i" and "i + n \<le> length cfg"
  shows "tiled cfg q (highlight_multivalue_value a (span_at cfg 0 m) (span_at cfg i n) section) (i + n)"
  using network_tiled [OF assms, of "section" m] append_tiled_keep [OF assms]
  by (cases "section") (simp_all add: highlight_multivalue_value_def)

text \<open>
  The current span while a value is read: it begins behind what was highlighted, ends at the position, and
  is \<open>ls\<close> characters long without the blanks at its end.
\<close>

definition reading :: "string \<Rightarrow> nat \<Rightarrow> nat \<Rightarrow> nat \<Rightarrow> nat \<Rightarrow> nat \<Rightarrow> bool" where
  "reading cfg p i n ls pos \<longleftrightarrow> p \<le> i \<and> blanks cfg p i \<and> i + n = pos \<and> ls \<le> n \<and> (n \<noteq> 0 \<longrightarrow> ls \<noteq> 0) \<and> blanks cfg (i + ls) pos"

lemma reading_blank:
  assumes "reading cfg p i n ls pos" and "is_blank (cfg ! pos)" and "pos < length cfg" and "b \<le> pos"
  shows "\<exists>i' n'. blank_step (span_at cfg b m) (pos - b) (span_at cfg i n) = span_at cfg i' n' \<and> (n' = 0 \<longleftrightarrow> n = 0)
    \<and> reading cfg p i' n' ls (Suc pos)"
proof (cases "n = 0")
  case True
  then have "i = pos" "ls = 0" "drop (pos - b) (sp_s (span_at cfg b m)) = drop pos cfg" using assms(1,4) by (simp_all add: reading_def span_at_def)
  then show ?thesis
    using assms True by (intro exI [of _ "Suc pos"] exI [of _ 0]) (auto simp: blank_step_def span_at_def reading_def drop_Suc tl_drop intro: blanks_Suc)
next
  case False
  then show ?thesis
    using assms by (intro exI [of _ i] exI [of _ "Suc n"]) (auto simp: blank_step_def span_at_def reading_def intro: blanks_Suc)
qed

lemma reading_char: "reading cfg p i n ls pos \<Longrightarrow> reading cfg p i (Suc n) (Suc n) (Suc pos)"
  by (auto simp: reading_def)

lemma multivalue_loop_tiled:
  assumes "tiled cfg q a p" and "reading cfg p i n ls (b + k)" and "b + m \<le> length cfg" and "k \<le> m"
  shows "\<exists>a' p' i' n' ls'. multivalue_loop (span_at cfg 0 l) (span_at cfg b m) section [k..<m] a (span_at cfg i n) ls = (a', span_at cfg i' n', ls')
    \<and> tiled cfg q a' p' \<and> reading cfg p' i' n' ls' (b + m)"
  using assms(1,2,4)
proof (induction "m - k" arbitrary: a p i n ls k)
  case 0
  then have "k = m" by simp
  then show ?case using "0.prems" by (intro exI) auto
next
  case (Suc d)
  then have k: "k < m" "[k..<m] = k # [Suc k..<m]" by (simp_all add: upt_conv_Cons)
  have c: "ch (span_at cfg b m) k = cfg ! (b + k)" using k(1) assms(3) by simp
  consider "cfg ! (b + k) = CHR '',''" | "cfg ! (b + k) \<noteq> CHR '',''" "is_blank (cfg ! (b + k))" | "cfg ! (b + k) \<noteq> CHR '',''" "\<not> is_blank (cfg ! (b + k))"
    by blast
  then show ?case
  proof cases
    case 1
    let ?a1 = "highlight_multivalue_value a (span_at cfg 0 l) (span_at cfg i ls) section"
    let ?a2 = "append_highlight_span ?a1 cfg (span_at cfg (b + k) 1) HighlightDelimiter"
    have "tiled cfg q ?a1 (i + ls)"
      using multivalue_value_tiled [OF Suc.prems(1), of i ls] Suc.prems(2) assms(3) k(1) by (simp add: reading_def)
    then have "tiled cfg q ?a2 (b + k + 1)"
      using Suc.prems(2) assms(3) k(1) by (intro append_tiled_keep) (auto simp: reading_def)
    moreover have "reading cfg (b + k + 1) (b + k + 1) 0 0 (b + Suc k)" by (simp add: reading_def)
    ultimately show ?thesis using Suc.hyps(1) [of "Suc k" ?a2] Suc.hyps(2) k c 1 by (simp add: add.assoc)
  next
    case 2
    then obtain i' n' where "blank_step (span_at cfg b m) k (span_at cfg i n) = span_at cfg i' n'" "reading cfg p i' n' ls (Suc (b + k))"
      using reading_blank [OF Suc.prems(2), of b m] k assms(3) by auto
    then show ?thesis using Suc.hyps(1) [of "Suc k" a p] Suc.hyps(2) Suc.prems(1) k c 2 by simp
  next
    case 3
    then show ?thesis
      using Suc.hyps(1) [of "Suc k" a p i "Suc n" "Suc n"] Suc.hyps(2) Suc.prems(1) reading_char [OF Suc.prems(2)] k c by simp
  qed
qed

lemma multivalue_tiled:
  assumes "tiled cfg True a p" and "p \<le> b" and "blanks cfg p b" and "b + m \<le> length cfg"
  shows "\<exists>a'. highlight_multivalue a (span_at cfg 0 l) (span_at cfg b m) section = Some a' \<and> tiled cfg True a' (b + m)"
proof -
  have "reading cfg p b 0 0 (b + 0)" using assms by (simp add: reading_def)
  from multivalue_loop_tiled [OF assms(1) this assms(4), of l "section"] obtain a' p' i' n' ls' where
    l: "multivalue_loop (span_at cfg 0 l) (span_at cfg b m) section [0..<m] a (span_at cfg b 0) 0 = (a', span_at cfg i' n', ls')"
    and t: "tiled cfg True a' p'" and r: "reading cfg p' i' n' ls' (b + m)" by auto
  show ?thesis
  proof (cases "ls' = 0")
    case True
    then have n: "n' = 0" "i' = b + m" using r by (auto simp: reading_def)
    then have t2: "tiled cfg True a' (b + m)" using tiled_blanks [OF t, of "b + m"] r assms(4) by (simp add: reading_def)
    then obtain xs x where x: "sa_spans a' = xs @ [x]" by (auto simp: tiled_def intro: rev_exhaust)
    have "tiled cfg True (a'\<lparr>sa_spans := xs @ [x\<lparr>hs_type := HighlightError\<rparr>]\<rparr>) (b + m)"
      using t2 x tile_retype [of cfg 0 xs x "b + m" HighlightError] by (simp add: tiled_def good_array_def)
    then show ?thesis using l t2 x True by (simp add: highlight_multivalue_def)
  next
    case False
    have "tiled cfg True (highlight_multivalue_value a' (span_at cfg 0 l) (span_at cfg i' ls') section) (i' + ls')"
      using multivalue_value_tiled [OF t, of i' ls'] r assms(4) by (simp add: reading_def)
    from tiled_blanks [OF this, of "b + m"] show ?thesis
      using l r assms(4) False by (simp add: highlight_multivalue_def reading_def)
  qed
qed

text \<open>A valid endpoint has a colon.\<close>

lemma colon_loop_colon: "colon_loop s is \<Longrightarrow> \<exists>i \<in> set is. ch s i = CHR '':''"
  by (induction s "is" rule: colon_loop.induct) (auto split: if_splits)

lemma bracket_loop_colon:
  "bracket_loop s is h seen \<Longrightarrow> list_all (\<lambda>i. i < sp_len s) is \<Longrightarrow> \<exists>i < sp_len s. ch s i = CHR '':''"
proof (induction s "is" h seen rule: bracket_loop.induct)
  case (2 s i rest h seen)
  then show ?case by (cases "ch s i = CHR '']''") (auto split: if_splits intro: exI [of _ "Suc i"])
qed simp

lemma endpoint_colon: "is_valid_endpoint s \<Longrightarrow> \<exists>i < sp_len s. ch s i = CHR '':''"
  using bracket_loop_colon [of s "[1..<sp_len s]"] colon_loop_colon [of s "[0..<sp_len s]"]
  by (force simp: is_valid_endpoint_def list_all_iff split: if_splits)

lemma find_colon_less: "\<exists>i < n. ch s i = CHR '':'' \<Longrightarrow> find_colon s n < n"
  by (induction n) (auto simp: less_Suc_eq)

lemma value_tiled:
  assumes "tiled cfg True a p" and "p \<le> i" and "blanks cfg p i" and "i + n \<le> length cfg"
  shows "\<exists>a'. highlight_value a (span_at cfg 0 m) (span_at cfg i n) fld = Some a' \<and> tiled cfg True a' (i + n)"
proof -
  let ?s = "span_at cfg i n" and ?k = "find_colon (span_at cfg i n) n"
  have app: "tiled cfg True (append_highlight_span a cfg ?s (if ok then t else HighlightError)) (i + n)" if "t \<noteq> HighlightEnd" for ok t
    using append_tiled_keep [OF assms] that by simp
  have "tiled cfg True (append_highlight_span (append_highlight_span (append_highlight_span a cfg (span_at cfg i ?k) HighlightHost)
              cfg (span_at cfg (i + ?k) 1) HighlightDelimiter) cfg (span_at cfg (i + ?k + 1) (n - ?k - 1)) HighlightPort) (i + n)"
    if "is_valid_endpoint ?s"
    using append3_tiled [OF assms, of ?k] find_colon_less [of n ?s] endpoint_colon [OF that] by simp
  then have "\<exists>a'. highlight_value a (span_at cfg 0 m) ?s Endpoint = Some a' \<and> tiled cfg True a' (i + n)"
    using append_tiled_keep [OF assms, of HighlightError] by (simp add: highlight_value_def Let_def add.assoc)
  then show ?thesis
    using multivalue_tiled [OF assms, of m fld] append_tiled_keep [OF assms, of HighlightError] app
    by (cases fld) (simp_all add: highlight_value_def)
qed

section \<open>The whole text\<close>

definition hl_inv :: "string \<Rightarrow> highlighter \<Rightarrow> nat \<Rightarrow> bool" where
  "hl_inv cfg h pos \<longleftrightarrow>
     (\<exists>p i n. hl_span h = span_at cfg i n \<and> tiled cfg False (hl_ret h) p \<and> pos \<le> length cfg
       \<and> (case hl_state h of
            OnNone \<Rightarrow> n = 0 \<and> hl_last_space h = 0 \<and> reading cfg p i 0 0 pos
          | OnKey \<Rightarrow> n \<noteq> 0 \<and> reading cfg p i n (hl_last_space h) pos
          | OnSection \<Rightarrow> n \<noteq> 0 \<and> reading cfg p i n (hl_last_space h) pos
          | OnComment \<Rightarrow> p \<le> i \<and> blanks cfg p i \<and> i + n = pos
          | OnValue \<Rightarrow> p \<le> hl_equals h \<and> blanks cfg p (hl_equals h) \<and> reading cfg (hl_equals h + 1) i n (if n = 0 then 0 else hl_last_space h) pos))"

lemma key_part_tiled:
  assumes "tiled cfg q a p" and "reading cfg p i n ls pos" and "pos \<le> length cfg" and "t \<noteq> HighlightEnd"
  shows "tiled cfg q (append_highlight_span a cfg (span_at cfg i ls) t) (i + ls)"
    and "tiled cfg q (append_highlight_span a cfg (span_at cfg i ls) t) pos"
proof -
  show t: "tiled cfg q (append_highlight_span a cfg (span_at cfg i ls) t) (i + ls)"
    using append_tiled_keep [OF assms(1), of i ls t] assms(2-4) by (simp add: reading_def)
  show "tiled cfg q (append_highlight_span a cfg (span_at cfg i ls) t) pos"
    using tiled_blanks [OF t, of pos] assms(2,3) by (simp add: reading_def)
qed

lemma value_part_tiled:
  assumes "tiled cfg False a p" and "p \<le> eq" and "blanks cfg p eq" and "reading cfg (eq + 1) i n ls pos" and "pos \<le> length cfg"
  shows "t \<noteq> HighlightEnd \<Longrightarrow> tiled cfg True (append_highlight_span a cfg (span_at cfg eq 1) t) (eq + 1)"
    and "\<exists>a'. highlight_value (append_highlight_span a cfg (span_at cfg eq 1) HighlightDelimiter) (span_at cfg 0 m) (span_at cfg i ls) fld = Some a'
      \<and> tiled cfg True a' pos"
proof -
  have t: "tiled cfg True (append_highlight_span a cfg (span_at cfg eq 1) t) (eq + 1)" if "t \<noteq> HighlightEnd" for t
    using append_tiled [OF assms(1-3), of 1 t] that assms(4,5) by (simp add: reading_def)
  then show "t \<noteq> HighlightEnd \<Longrightarrow> tiled cfg True (append_highlight_span a cfg (span_at cfg eq 1) t) (eq + 1)" .
  obtain a' where a': "highlight_value (append_highlight_span a cfg (span_at cfg eq 1) HighlightDelimiter) (span_at cfg 0 m) (span_at cfg i ls) fld = Some a'"
    "tiled cfg True a' (i + ls)"
    using value_tiled [OF t [of HighlightDelimiter], of i ls m fld] assms(4,5) by (auto simp: reading_def)
  then show "\<exists>a'. highlight_value (append_highlight_span a cfg (span_at cfg eq 1) HighlightDelimiter) (span_at cfg 0 m) (span_at cfg i ls) fld = Some a'
      \<and> tiled cfg True a' pos"
    using tiled_blanks [OF a'(2), of pos] assms(4,5) by (auto simp: reading_def)
qed

lemma tiled_weaken: "tiled cfg True a p \<Longrightarrow> tiled cfg False a p"
  by (simp add: tiled_def)

lemma end_part_tiled:
  assumes "hl_inv cfg h pos"
  shows "\<exists>h'. end_part (span_at cfg 0 m) h = Some h' \<and> tiled cfg False (hl_ret h') pos"
proof -
  obtain p i n where h: "hl_span h = span_at cfg i n" "tiled cfg False (hl_ret h) p" "pos \<le> length cfg"
    and st: "case hl_state h of
            OnNone \<Rightarrow> n = 0 \<and> hl_last_space h = 0 \<and> reading cfg p i 0 0 pos
          | OnKey \<Rightarrow> n \<noteq> 0 \<and> reading cfg p i n (hl_last_space h) pos
          | OnSection \<Rightarrow> n \<noteq> 0 \<and> reading cfg p i n (hl_last_space h) pos
          | OnComment \<Rightarrow> p \<le> i \<and> blanks cfg p i \<and> i + n = pos
          | OnValue \<Rightarrow> p \<le> hl_equals h \<and> blanks cfg p (hl_equals h) \<and> reading cfg (hl_equals h + 1) i n (if n = 0 then 0 else hl_last_space h) pos"
    using assms unfolding hl_inv_def by blast
  show ?thesis
  proof (cases "hl_state h")
    case OnNone
    then show ?thesis using tiled_blanks [OF h(2), of pos] h(3) st by (auto simp: end_part_def reading_def)
  next
    case OnKey
    then show ?thesis using key_part_tiled(2) [OF h(2) _ h(3), of i n] h(1) st by (auto simp: end_part_def Let_def)
  next
    case OnSection
    then show ?thesis using key_part_tiled(2) [OF h(2) _ h(3), of i n] h(1) st by (auto simp: end_part_def Let_def)
  next
    case OnComment
    then show ?thesis using append_tiled_keep [OF h(2), of i n HighlightComment] h(1,3) st by (auto simp: end_part_def)
  next
    case OnValue
    then have r: "p \<le> hl_equals h" "blanks cfg p (hl_equals h)" "reading cfg (hl_equals h + 1) i n (if n = 0 then 0 else hl_last_space h) pos" using st by simp_all
    show ?thesis
    proof (cases "n = 0")
      case True
      then have "tiled cfg True (append_highlight_span (hl_ret h) cfg (span_at cfg (hl_equals h) 1) HighlightError) pos"
        using tiled_blanks [OF value_part_tiled(1) [OF h(2) r h(3), of HighlightError], of pos] r(3) h(3) by (auto simp: reading_def)
      then show ?thesis using OnValue True h(1) by (simp add: end_part_def tiled_weaken)
    next
      case False
      then show ?thesis
        using value_part_tiled(2) [OF h(2) r h(3), of m "hl_field h"] OnValue h(1) by (auto simp: end_part_def Let_def tiled_weaken)
    qed
  qed
qed

lemma start_part_inv:
  assumes "tiled cfg False (hl_ret h) pos" and "pos < length cfg" and "m = length cfg" and "cfg ! pos = newline \<or> cfg ! pos = CHR ''#''"
  shows "hl_inv cfg (start_part (span_at cfg 0 m) pos h) (Suc pos)"
proof (cases "cfg ! pos = CHR ''#''")
  case True
  then show ?thesis
    using assms unfolding hl_inv_def start_part_def by (intro exI [of _ pos] exI [of _ pos] exI [of _ 1]) simp
next
  case False
  then have "blanks cfg pos (Suc pos)" using assms(4) by (simp add: blanks_def)
  then show ?thesis
    using assms False unfolding hl_inv_def start_part_def
    by (intro exI [of _ pos] exI [of _ "Suc pos"] exI [of _ 0]) (simp add: reading_def)
qed

lemma hl_inv_E:
  assumes "hl_inv cfg h pos"
  obtains (comment) p i n where "hl_state h = OnComment" "hl_span h = span_at cfg i n" "tiled cfg False (hl_ret h) p" "p \<le> i" "blanks cfg p i" "i + n = pos"
    | (reading) p i n where "hl_state h \<noteq> OnComment" "hl_span h = span_at cfg i n" "tiled cfg False (hl_ret h) p"
        "reading cfg (if hl_state h = OnValue then hl_equals h + 1 else p) i n (if n = 0 then 0 else hl_last_space h) pos"
        "hl_state h = OnNone \<Longrightarrow> n = 0 \<and> hl_last_space h = 0" "hl_state h \<in> {OnKey, OnSection} \<Longrightarrow> n \<noteq> 0"
        "hl_state h = OnValue \<Longrightarrow> p \<le> hl_equals h \<and> blanks cfg p (hl_equals h)"
  using assms unfolding hl_inv_def by (cases "hl_state h") auto

lemma hl_inv_I:
  assumes "hl_state h \<noteq> OnComment" "hl_span h = span_at cfg i n" "tiled cfg False (hl_ret h) p" "pos \<le> length cfg"
    "reading cfg (if hl_state h = OnValue then hl_equals h + 1 else p) i n (if n = 0 then 0 else hl_last_space h) pos"
    "hl_state h = OnNone \<Longrightarrow> n = 0 \<and> hl_last_space h = 0" "hl_state h \<in> {OnKey, OnSection} \<Longrightarrow> n \<noteq> 0"
    "hl_state h = OnValue \<Longrightarrow> p \<le> hl_equals h \<and> blanks cfg p (hl_equals h)"
  shows "hl_inv cfg h pos"
  using assms unfolding hl_inv_def by (intro exI [of _ p] exI [of _ i] exI [of _ n]) (cases "hl_state h"; simp)

lemma hl_step_inv:
  assumes "hl_inv cfg h pos" and "pos < length cfg" and m: "m = length cfg"
  shows "\<exists>h'. hl_step (span_at cfg 0 m) pos h = Some h' \<and> hl_inv cfg h' (Suc pos)"
proof (cases "cfg ! pos = newline \<or> hl_state h \<noteq> OnComment \<and> cfg ! pos = CHR ''#''")
  case True
  obtain h' where "end_part (span_at cfg 0 m) h = Some h'" "tiled cfg False (hl_ret h') pos" using end_part_tiled [OF assms(1)] by blast
  then show ?thesis using True assms(2) m start_part_inv [of cfg h' pos m] by (auto simp: hl_step_def)
next
  case False
  from assms(1) show ?thesis
  proof (cases rule: hl_inv_E)
    case (comment p i n)
    then have "hl_inv cfg (h\<lparr>hl_span := span_at cfg i (Suc n)\<rparr>) (Suc pos)"
      using assms(2) unfolding hl_inv_def by (intro exI [of _ p] exI [of _ i] exI [of _ "Suc n"]) simp
    then show ?thesis using comment False assms(2) m by (simp add: hl_step_def)
  next
    case (reading p i n)
    let ?p = "if hl_state h = OnValue then hl_equals h + 1 else p"
    consider "is_blank (cfg ! pos)" | "\<not> is_blank (cfg ! pos)" "cfg ! pos = CHR ''=''" "hl_state h = OnKey"
      | "\<not> is_blank (cfg ! pos)" "\<not> (cfg ! pos = CHR ''='' \<and> hl_state h = OnKey)" by blast
    then show ?thesis
    proof cases
      case 1
      obtain i' n' where b: "blank_step (span_at cfg 0 m) pos (span_at cfg i n) = span_at cfg i' n'"
        "n' = 0 \<longleftrightarrow> n = 0" "reading cfg ?p i' n' (if n = 0 then 0 else hl_last_space h) (Suc pos)"
        using reading_blank [OF reading(4) 1 assms(2), of 0 m] by auto
      then have "hl_inv cfg (h\<lparr>hl_span := blank_step (span_at cfg 0 m) pos (hl_span h)\<rparr>) (Suc pos)"
        using reading assms(2) by (intro hl_inv_I [of _ cfg i' n' p]) auto
      then show ?thesis using False reading(1) 1 assms(2) m by (simp add: hl_step_def)
    next
      case 2
      let ?cur = "span_at cfg i (hl_last_space h)"
      have r: "reading cfg p i n (hl_last_space h) pos" using reading(4,6) 2(3) by simp
      have t: "tiled cfg False (append_highlight_span (hl_ret h) cfg ?cur t) pos" if "t \<noteq> HighlightEnd" for t
        using key_part_tiled(2) [OF reading(3) r] assms(2) that by simp
      have "hl_inv cfg (key_end (span_at cfg 0 m) pos h) (Suc pos)"
        using reading(2) assms(2) by (intro hl_inv_I [of _ cfg "Suc pos" 0 pos]) (auto simp: key_end_def Let_def reading_def intro!: t)
      then show ?thesis using False reading(1) 2 assms(2) m by (simp add: hl_step_def)
    next
      case 3
      have "reading cfg ?p i (Suc n) (Suc n) (Suc pos)" by (rule reading_char [OF reading(4)])
      then have "hl_inv cfg (other_char (span_at cfg 0 m) pos h) (Suc pos)"
        using reading assms(2) by (intro hl_inv_I [of _ cfg i "Suc n" p]) (auto simp: other_char_def split: if_splits)
      then show ?thesis using False reading(1) 3 assms(2) m by (auto simp: hl_step_def)
    qed
  qed
qed

lemma hl_loop_tiled:
  "hl_inv cfg h pos \<Longrightarrow> pos \<le> length cfg \<Longrightarrow> m = length cfg
    \<Longrightarrow> \<exists>h'. hl_loop (span_at cfg 0 m) [pos..<m] h = Some h' \<and> tiled cfg False (hl_ret h') (length cfg)"
proof (induction "m - pos" arbitrary: pos h)
  case 0
  then show ?case using end_part_tiled [of cfg h pos m] by simp
next
  case (Suc d)
  then have pos: "pos < length cfg" "[pos..<m] = pos # [Suc pos..<m]" by (simp_all add: upt_conv_Cons)
  obtain h' where "hl_step (span_at cfg 0 m) pos h = Some h'" "hl_inv cfg h' (Suc pos)"
    using hl_step_inv [of cfg h pos m] Suc.prems pos(1) by auto
  then show ?case using pos Suc.hyps(1) [of "Suc pos" h'] Suc.hyps(2) Suc.prems by simp
qed

text \<open>
  C12: The spans that \<open>highlight_config\<close> returns tile the text. They are in the order of the text, not empty and
  not overlapping, and between two of them, before the first and behind the last there are only blanks and
  line ends; the array ends with its end marker. On the way nothing is written outside the array, whose size does
  not overflow for texts below \<open>2^50\<close> characters.
\<close>
theorem highlight_config_tiles:
  assumes "length cfg < 2 ^ 50"
  shows "\<exists>spans. highlight_config cfg = Some (spans @ [\<lparr>hs_type = HighlightEnd, hs_start = 0, hs_len = 2 ^ 64 - 1\<rparr>])
    \<and> spans_tile cfg 0 spans (length cfg)"
proof -
  let ?m = "length cfg"
  let ?h = "\<lparr>hl_ret = empty_array, hl_span = span_at cfg 0 0, hl_section = Invalid, hl_field = Invalid, hl_state = OnNone,
               hl_last_space = 0, hl_equals = 0\<rparr>"
  have "hl_inv cfg ?h 0"
    using assms by (intro hl_inv_I [of _ cfg 0 0 0]) (auto simp: tiled_def good_array_def empty_array_def reading_def)
  then obtain h' where h': "hl_loop (span_at cfg 0 ?m) [0..<?m] ?h = Some h'" "tiled cfg False (hl_ret h') ?m"
    using hl_loop_tiled [of cfg ?h 0 ?m] by auto
  have "length (sa_spans (hl_ret h')) < 2 ^ 51" using h'(2) tile_le [of cfg 0 "sa_spans (hl_ret h')" ?m] assms by (simp add: tiled_def)
  then have "sa_spans (append_highlight_span (hl_ret h') cfg \<lparr>sp_s = cfg, sp_len = 2 ^ 64 - 1\<rparr> HighlightEnd)
      = sa_spans (hl_ret h') @ [\<lparr>hs_type = HighlightEnd, hs_start = 0, hs_len = 2 ^ 64 - 1\<rparr>]"
    using append_spans(2) [of "hl_ret h'" "\<lparr>sp_s = cfg, sp_len = 2 ^ 64 - 1\<rparr>" cfg HighlightEnd] h'(2) by (simp add: tiled_def)
  moreover have "highlight_config cfg = map_option (\<lambda>h. sa_spans (append_highlight_span (hl_ret h) cfg \<lparr>sp_s = cfg, sp_len = 2 ^ 64 - 1\<rparr> HighlightEnd))
      (hl_loop (span_at cfg 0 ?m) [0..<?m] ?h)"
    by (simp add: highlight_config_def span_at_def sub_span_def)
  ultimately show ?thesis using h' by (simp add: tiled_def)
qed

definition sample_text :: string where
  "sample_text = ''[Peer]'' @ [newline] @ ''AllowedIPs = 10.0.0.0/8, x # c''"

theorem highlight_config_tiles_witness:
  "\<exists>spans. highlight_config sample_text = Some (spans @ [\<lparr>hs_type = HighlightEnd, hs_start = 0, hs_len = 2 ^ 64 - 1\<rparr>])
    \<and> spans_tile sample_text 0 spans (length sample_text)"
  by (rule highlight_config_tiles) (simp add: sample_text_def)

section \<open>Keys\<close>

lemma or_32: "(c :: int) OR 32 = (if odd (c div 32) then c else c + 32)"
proof -
  have "c OR 32 = set_bit 5 c" by (simp add: set_bit_eq_or)
  also have "\<dots> = (if odd (c div 32) then c else c + 32)" by (simp add: set_bit_eq bit_iff_odd)
  finally show ?thesis .
qed

lemma is_alphabet_iff: "is_alphabet c \<longleftrightarrow> 65 \<le> c_int c \<and> c_int c \<le> 90 \<or> 97 \<le> c_int c \<and> c_int c \<le> 122"
proof -
  have "97 \<le> (if odd (n div 32) then n else n + 32) \<and> (if odd (n div 32) then n else n + 32) \<le> 122 \<longleftrightarrow> 65 \<le> n \<and> n \<le> 90 \<or> 97 \<le> n \<and> n \<le> 122" for n :: int
    by presburger
  then show ?thesis by (simp add: is_alphabet_def or_32)
qed

lemma c_int_chars: "c_int CHR ''+'' = 43" "c_int CHR ''/'' = 47"
  by (simp_all add: c_int_def)

lemma sextet_alphabet: "sextet (decode_base64_char c) \<longleftrightarrow> is_decimal c \<or> is_alphabet c \<or> c = CHR ''/'' \<or> c = CHR ''+''"
  unfolding is_alphabet_iff is_decimal_def decode_base64_char_eq sextet_def Let_def
  using c_int_eq_iff [of c "CHR ''+''"] c_int_eq_iff [of c "CHR ''/''"] by (auto simp: c_int_chars)

lemma last_sextet:
  "sextet (decode_base64_char c) \<and> \<not> bit (decode_base64_char c) 0 \<and> \<not> bit (decode_base64_char c) 1 \<longleftrightarrow> c \<in> set ''AEIMQUYcgkosw480''"
  (is "?l \<longleftrightarrow> _")
proof
  assume l: ?l
  then have s: "sextet (decode_base64_char c)" "decode_base64_char c mod 4 = 0"
    by (auto simp: bit_iff_odd) presburger
  then have "decode_base64_char c \<in> set (map (\<lambda>k. 4 * k) [0..15])"
    by (auto simp: sextet_def image_iff intro!: bexI [of _ "decode_base64_char c div 4"])
  then have "base64_char (decode_base64_char c) \<in> set (map base64_char (map (\<lambda>k. 4 * k) [0..15]))"
    by (metis image_eqI list.set_map)
  also have "map base64_char (map (\<lambda>k. 4 * k) [0..15]) = ''AEIMQUYcgkosw048''" by code_simp
  finally have "c \<in> set ''AEIMQUYcgkosw048''" unfolding base64_char_decode_base64_char [OF s(1)] .
  moreover have "set ''AEIMQUYcgkosw048'' = set ''AEIMQUYcgkosw480''" by (simp add: insert_commute)
  ultimately show "c \<in> set ''AEIMQUYcgkosw480''" by (simp only:)
next
  assume "c \<in> set ''AEIMQUYcgkosw480''"
  moreover have "list_all (\<lambda>c. sextet (decode_base64_char c) \<and> \<not> bit (decode_base64_char c) 0 \<and> \<not> bit (decode_base64_char c) 1) ''AEIMQUYcgkosw480''"
    by code_simp
  ultimately show ?l unfolding list_all_iff by blast
qed

lemma base64_group_ok:
  "\<not> bit (base64_group t j) 31 \<longleftrightarrow> (\<forall>k < 4. sextet (decode_base64_char (t ! (j * 4 + k))))"
proof -
  have four: "(\<forall>k < 4. P k) \<longleftrightarrow> P 0 \<and> P 1 \<and> P 2 \<and> P (3 :: nat)" for P
    by (auto simp: numeral_eq_Suc less_Suc_eq)
  have "\<not> bit (base64_group t j) 31 \<longleftrightarrow> sextet (decode_base64_char (t ! (j * 4))) \<and> sextet (decode_base64_char (t ! (j * 4 + 1)))
      \<and> sextet (decode_base64_char (t ! (j * 4 + 2))) \<and> sextet (decode_base64_char (t ! (j * 4 + 3)))"
    unfolding base64_group_def decode_base64_group
    by (simp only: group_val_sign [OF decode_base64_char_range decode_base64_char_range decode_base64_char_range decode_base64_char_range] not_not)
  then show ?thesis unfolding four by simp
qed

lemma base64_tail_ok:
  "\<not> bit (base64_tail t) 31 \<and> val_byte 0 (base64_tail t) = 0
    \<longleftrightarrow> sextet (decode_base64_char (t ! 40)) \<and> sextet (decode_base64_char (t ! 41)) \<and> t ! 42 \<in> set ''AEIMQUYcgkosw480''"
proof -
  let ?v = "\<lambda>j. decode_base64_char (t ! j)"
  have tail: "base64_tail t = group_val (?v 40) (?v 41) (?v 42) 0"
    by (simp add: base64_tail_def decode_base64_group decode_base64_char_eq [of "CHR ''A''"] c_int_def)
  have "bit (val_byte 0 (base64_tail t)) m \<longleftrightarrow> m = 6 \<and> bit (?v 42) 0 \<or> m = 7 \<and> bit (?v 42) 1" for m
    unfolding bit_val_byte tail bit_group_val by (auto simp: numeral_eq_Suc less_Suc_eq)
  then have "val_byte 0 (base64_tail t) = 0 \<longleftrightarrow> \<not> bit (?v 42) 0 \<and> \<not> bit (?v 42) 1"
    by (metis bit_0_eq bit_eqI bot_apply bot_bool_def)
  moreover have "\<not> bit (base64_tail t) 31 \<longleftrightarrow> sextet (?v 40) \<and> sextet (?v 41) \<and> sextet (?v 42)"
    unfolding tail using group_val_sign [of "?v 40" "?v 41" "?v 42" 0] decode_base64_char_range by auto
  ultimately show ?thesis unfolding last_sextet [symmetric] by blast
qed

lemma all_groups: "(\<forall>j < 10. \<forall>k < 4. P (j * 4 + k)) \<longleftrightarrow> (\<forall>i < 40. P (i :: nat))"
proof (intro iffI allI impI)
  fix i :: nat
  assume a: "\<forall>j < 10. \<forall>k < 4. P (j * 4 + k)" and "i < 40"
  then have "i div 4 < 10" "i = i div 4 * 4 + i mod 4" "i mod 4 < 4" by simp_all
  then show "P i" using a by metis
qed simp

lemma base64_decodes:
  "(\<exists>k. key_from_base64 t = Some k)
    \<longleftrightarrow> length t = 44 \<and> t ! 43 = CHR ''='' \<and> (\<forall>j < 42. sextet (decode_base64_char (t ! j))) \<and> t ! 42 \<in> set ''AEIMQUYcgkosw480''"
proof -
  have all: "(\<forall>j < 42. P j) \<longleftrightarrow> (\<forall>j < 40. P j) \<and> P 40 \<and> P 41" for P :: "nat \<Rightarrow> bool"
  proof -
    have "j < 42 \<longleftrightarrow> j < 40 \<or> j = 40 \<or> j = 41" for j :: nat by linarith
    then show ?thesis by auto
  qed
  have "(\<exists>k. key_from_base64 t = Some k) \<longleftrightarrow> length t = 44 \<and> t ! 43 = CHR ''='' \<and> (\<forall>j < 10. \<not> bit (base64_group t j) 31)
      \<and> (\<not> bit (base64_tail t) 31 \<and> val_byte 0 (base64_tail t) = 0)"
    unfolding key_from_base64_Some_iff by blast
  then show ?thesis
    unfolding base64_group_ok base64_tail_ok all using all_groups [of "\<lambda>j. sextet (decode_base64_char (t ! j))"] by blast
qed

text \<open>
  C39: What the highlighter takes for a key is exactly what the configuration reader takes for one: \<open>is_valid_key\<close>
  agrees with \<open>key_from_base64\<close> of \<open>encoding.c\<close> on every span, although the two have no code in common.
\<close>
theorem is_valid_key_decodes:
  assumes "i + n \<le> length cfg"
  shows "is_valid_key (span_at cfg i n) \<longleftrightarrow> (\<exists>k. key_from_base64 (take n (drop i cfg)) = Some k)"
proof (cases "n = 44")
  case True
  let ?t = "take n (drop i cfg)" and ?s = "span_at cfg i n"
  have c: "ch ?s j = ?t ! j" if "j < n" for j using that assms by simp
  have "list_ex (\<lambda>i. \<not> is_decimal (ch ?s i) \<and> \<not> is_alphabet (ch ?s i) \<and> ch ?s i \<noteq> CHR ''/'' \<and> ch ?s i \<noteq> CHR ''+'') [0..<42]
      \<longleftrightarrow> \<not> (\<forall>j < 42. sextet (decode_base64_char (?t ! j)))"
    using c True by (auto simp: list_ex_iff sextet_alphabet)
  then show ?thesis unfolding is_valid_key_def base64_decodes using True c assms by simp
next
  case False
  then show ?thesis unfolding base64_decodes using assms by (simp add: is_valid_key_def)
qed

theorem is_valid_key_decodes_witness:
  "is_valid_key (span_at (''PublicKey='' @ key_to_base64 (replicate 32 0)) 10 44)
    \<longleftrightarrow> (\<exists>k. key_from_base64 (take 44 (drop 10 (''PublicKey='' @ key_to_base64 (replicate 32 0)))) = Some k)"
  by (rule is_valid_key_decodes) simp

section \<open>Host names\<close>

lemma hostname_loop_iff:
  "length (filter (\<lambda>i. ch s i = CHR ''.'') is) \<le> ne \<Longrightarrow>
   hostname_loop s is nd ne \<longleftrightarrow>
     list_all (\<lambda>i. is_decimal (ch s i) \<or> is_alphabet (ch s i) \<or> ch s i = CHR ''.'' \<or> ch s i = CHR ''-'') is
     \<and> nd + length (filter (\<lambda>i. is_decimal (ch s i) \<or> ch s i = CHR ''.'') is) \<noteq> ne"
proof (induction s "is" nd ne rule: hostname_loop.induct)
  case (2 s i rest nd ne)
  have dot: "\<not> is_decimal CHR ''.''" by (simp add: is_decimal_def c_int_def)
  then show ?case using 2 by (cases "ch s i = CHR ''.''") (auto split: if_splits)
qed simp

lemma length_filter_all: "length (filter P xs) = length xs \<longleftrightarrow> list_all P xs"
proof (induction xs)
  case (Cons x xs)
  have "length (filter P xs) \<noteq> Suc (length xs)" using length_filter_le [of P xs] by linarith
  then show ?case using Cons by simp
qed simp

text \<open>
  C40: The host names that the highlighter accepts: 1 to 63 letters, digits, dots and hyphens that do not begin or
  end with a dot or hyphen and are not digits and dots only. Dots in a row are accepted: the test for them
  in the loop comes after the branch that continues at every dot.
\<close>
theorem is_valid_hostname_accepts:
  assumes "i + n \<le> length cfg"
  shows "is_valid_hostname (span_at cfg i n) \<longleftrightarrow>
    (let t = take n (drop i cfg)
     in t \<noteq> [] \<and> length t \<le> 63 \<and> hd t \<notin> set ''-.'' \<and> last t \<notin> set ''-.''
        \<and> list_all (\<lambda>c. is_decimal c \<or> is_alphabet c \<or> c \<in> set ''.-'') t \<and> \<not> list_all (\<lambda>c. is_decimal c \<or> c = CHR ''.'') t)"
proof (cases "n = 0")
  case True
  then show ?thesis by (simp add: is_valid_hostname_def)
next
  case False
  let ?t = "take n (drop i cfg)" and ?s = "span_at cfg i n"
  have len: "length ?t = n" using assms by simp
  have c: "map (ch ?s) [0..<n] = ?t" using assms by (intro nth_equalityI) simp_all
  have filt: "length (filter (\<lambda>i. P (ch ?s i)) [0..<n]) = length (filter P ?t)" for P
    by (subst c [symmetric]) (simp add: filter_map o_def)
  have all: "list_all (\<lambda>i. P (ch ?s i)) [0..<n] = list_all P ?t" for P
    by (subst c [symmetric]) (simp add: list_all_iff)
  have ends: "ch ?s 0 = hd ?t" "ch ?s (n - 1) = last ?t"
    using assms False by (simp_all add: hd_conv_nth last_conv_nth)
  have "hostname_loop ?s [0..<n] 0 n \<longleftrightarrow> list_all (\<lambda>c. is_decimal c \<or> is_alphabet c \<or> c = CHR ''.'' \<or> c = CHR ''-'') ?t
      \<and> length (filter (\<lambda>c. is_decimal c \<or> c = CHR ''.'') ?t) \<noteq> length ?t"
    using hostname_loop_iff [of ?s "[0..<n]" n 0] length_filter_le [of _ "[0..<n]"] len
      all [of "\<lambda>c. is_decimal c \<or> is_alphabet c \<or> c = CHR ''.'' \<or> c = CHR ''-''"] filt [of "\<lambda>c. is_decimal c \<or> c = CHR ''.''"] by simp
  also have "length (filter (\<lambda>c. is_decimal c \<or> c = CHR ''.'') ?t) \<noteq> length ?t \<longleftrightarrow> \<not> list_all (\<lambda>c. is_decimal c \<or> c = CHR ''.'') ?t"
    by (simp only: length_filter_all)
  finally show ?thesis
    using False len ends unfolding is_valid_hostname_def Let_def by auto
qed

theorem is_valid_hostname_accepts_witness:
  "is_valid_hostname (span_at ''a..b'' 0 4) \<and> list_all (\<lambda>c. is_decimal c \<or> is_alphabet c \<or> c \<in> set ''.-'') ''a..b''"
proof -
  have "is_alphabet CHR ''a''" "is_alphabet CHR ''b''" "\<not> is_decimal CHR ''a''" by (simp_all add: is_alphabet_iff is_decimal_def c_int_def)
  then show ?thesis using is_valid_hostname_accepts [of 0 4 "''a..b''"] by simp
qed

end
