(* ===== verification/Spec2Isabelle.thy ===== *)
theory Spec2Isabelle
  imports Wg LinuxProperties HighlighterFacts
begin

text \<open>
  A verification of the WireGuard configuration tools in C (\<open>src/src\<close>) and of their syntax highlighter (\<open>src/contrib\<close>).

  \<^bold>\<open>The program.\<close> \<open>wg\<close> reads a configuration (a file, or arguments of the command line) into a
  \<open>struct wgdevice\<close>, or asks a backend for the one of a running interface, and either sends it to a backend
  or prints it. There are two backends: a daemon behind a UNIX socket, which speaks the text protocol of
  \<open>ipc-uapi.h\<close>, and the kernel, which speaks netlink (\<open>netlink.h\<close>, \<open>ipc-linux.h\<close>). \<open>ipc.c\<close> chooses between them
  by whether there is a socket for the interface. \<open>wg genkey\<close> and \<open>wg pubkey\<close> make keys and derive public ones with
  the Curve25519 of \<open>curve25519.c\<close>; \<open>wg.c\<close> chooses the command. The highlighter of \<open>src/contrib/highlighter\<close>, which editors
  use, marks the parts of a configuration text.

  \<^bold>\<open>How it is modelled.\<close> C strings are lists of characters without the terminator, a pointer into a string
  is a suffix of it, linked lists are lists, and structs are records with the members of the source. Integers
  keep their width as words where they can wrap, and are \<open>int\<close> or \<open>nat\<close> where the code has checked that they
  cannot. Fallible functions return a sum or an option with one value per error path. Operating system
  calls are fields of environment records (\<open>sysenv\<close>, \<open>uapi_env\<close>, \<open>unix_env\<close>, \<open>kernel\<close>, \<open>ipc_env\<close>, \<open>nl_env\<close>, \<open>show_env\<close>, \<open>rand_env\<close>, \<open>wg_env\<close>), about which
  a theorem assumes only what it states. A use of a NULL pointer or a write outside a buffer is a value of
  the result, so that its absence is a theorem. Loops that may not end are partial functions into an option,
  with \<open>None\<close> for not returning; no fuel is used anywhere.

  \<^bold>\<open>The theories.\<close>

  \<^item> \<open>WG_Prelude\<close>: C strings, searching and splitting, numbers as \<open>strtoul\<close> and \<open>printf\<close> treat them, \<open>memcmp\<close>;
    the locales \<open>codec\<close>, \<open>canonical_codec\<close> and \<open>guarded_step\<close>.
  \<^item> \<open>Ctype\<close>: the branch-free character tests of \<open>ctype.h\<close>, which are the ASCII classes.
  \<^item> \<open>Encoding\<close>: base64 and hexadecimal keys of \<open>encoding.c\<close>. Decoding accepts exactly what encoding gives
    (in hexadecimal in either case) and inverts it; both instantiate the codec locales.
  \<^item> \<open>Containers\<close>: the structs and flags of \<open>containers.h\<close>, their well-formedness, and \<open>free_wgdevice\<close> as a trace of
    reads and releases, which releases each allocation once.
  \<^item> \<open>Bytes\<close>: integers as bytes in memory, in both orders.
  \<^item> \<open>ConfigValues\<close>, \<open>ConfigValueFacts\<close>: the value parsers of \<open>config.c\<close>: ports, marks, keys and key files, endpoints
    with their resolver retries, WebSocket URLs, secrets, masks, lists of allowed IPs.
  \<^item> \<open>Config\<close>, \<open>ConfigDispatch\<close>, \<open>ConfigProperties\<close>: \<open>process_line\<close>, \<open>config_read_init\<close>, \<open>config_read_line\<close>,
    \<open>config_read_finish\<close> and \<open>config_read_cmd\<close>. Every accepted configuration is well-formed; the readers do not
    use NULL pointers, and return unless the resolver may retry for ever.
  \<^item> \<open>Uapi\<close>, \<open>UapiFacts\<close>, \<open>UapiProperties\<close>: \<open>userspace_set_device\<close> and \<open>userspace_get_device\<close> of \<open>ipc-uapi.h\<close>. What is sent
    is read back; what a daemon sends is well-formed once accepted.
  \<^item> \<open>Ipc\<close>: the name buffer of \<open>ipc.c\<close>, the socket directory of \<open>ipc-uapi-unix.h\<close>, and the choice of backend.
  \<^item> \<open>Netlink\<close>: messages and attributes of \<open>netlink.h\<close>, written into a message under construction and read from
    the bytes that arrive, the dispatch of messages to callbacks, and generic netlink sockets.
  \<^item> \<open>Linux\<close>, \<open>LinuxFacts\<close>, \<open>LinuxProperties\<close>: \<open>kernel_get_wireguard_interfaces\<close>, \<open>kernel_set_device\<close> and
    \<open>kernel_get_device\<close> of \<open>ipc-linux.h\<close>. A device of any size is sent in messages that fit the buffer, and
    joined again when it is read.
  \<^item> \<open>Qsort\<close>: the contract of \<open>qsort\<close>, and the locale \<open>comparison\<close> of the functions that may be passed to it,
    on the values they order. The model takes of the results that the standard allows the one that keeps the order of equal elements.
  \<^item> \<open>Showconf\<close>, \<open>ShowconfFacts\<close>: \<open>wg showconf\<close>; what it prints is read as the device that was printed.
  \<^item> \<open>Setconf\<close>: \<open>wg setconf\<close>, \<open>addconf\<close>, \<open>syncconf\<close> and \<open>set\<close>; after \<open>syncconf\<close> the interface has the peers of the file,
    with their preshared keys and keepalive intervals.
  \<^item> \<open>Terminal\<close>: the filter of control sequences of \<open>terminal.c\<close>.
  \<^item> \<open>Show\<close>: \<open>wg show\<close> in its human-readable and script forms. Peers are in the order of their handshakes when no time stamp is
    negative, where the 64-bit differences of the comparison cannot wrap.
  \<^item> \<open>Montgomery\<close>: the reference for Curve25519, the ladder of RFC 7748 over the integers modulo \<open>2^255 - 19\<close>
    (\<open>x25519\<close>), and the locale \<open>field_impl\<close> of an arithmetic with small and large limbs.
  \<^item> \<open>Curve25519\<close>: every function of \<open>curve25519-hacl64.h\<close>, with those of \<open>curve25519.h\<close> and \<open>curve25519.c\<close>, on 64-bit and 128-bit words.
    \<open>Curve25519Facts\<close>: carries, products, squares, sums and differences of limbs do not overflow and are the operations
    modulo the prime. \<open>Curve25519Ladder\<close>: they interpret \<open>field_impl\<close>; the inversion is a power, and the ladder is that of
    the reference. \<open>Curve25519Bytes\<close>: clamping, reading and writing coordinates. \<open>Curve25519Properties\<close>: \<open>curve25519\<close> computes \<open>x25519\<close>.
  \<^item> \<open>Keys\<close>: \<open>genkey.c\<close> and \<open>pubkey.c\<close>. A key is made whenever the random device delivers, and its public key is the one of X25519.
  \<^item> \<open>Wg\<close>: the table of commands and \<open>main\<close> of \<open>wg.c\<close>. No run of the program removes the socket of a running daemon.
  \<^item> \<open>Highlighter\<close>, \<open>HighlighterFacts\<close>: \<open>highlighter.c\<close>. The spans tile the text; its check of keys accepts what the
    decoder of the tools decodes.

  \<^bold>\<open>Bounds.\<close> The sizes of the buffers of the source appear as they are (\<open>IFNAMSIZ\<close> 16, paths of 108 bytes,
  replies line by line, netlink buffers of one page up to 8192 bytes). The theorem about the name buffer is for
  fewer than \<open>2^62\<close> bytes of names, where its capacity cannot wrap. The theorem about netlink messages is for
  pages of at least 4096 bytes: one piece of a peer (at most \<open>piece_room\<close> bytes) then fits behind the
  attributes of the device, which is what makes the loop of \<open>kernel_set_device\<close> progress. Limbs of field elements
  are below \<open>limb_max\<close> before a product and below \<open>limb_red\<close> behind it, which keeps every intermediate value within its word.

  \<^bold>\<open>Not modelled.\<close> Memory allocation never fails in the model, and the text of messages on \<open>stderr\<close> is not
  modelled, only which of them is chosen where that is a result. The backends for FreeBSD, OpenBSD and Windows
  are sequences of system calls on structures of headers that are not in the repository. \<open>wg-quick\<close> is shell
  scripts (and, on Android, calls of other programs and of JNI services). The 32-bit implementation of Curve25519
  (\<open>curve25519-fiat32.h\<close>), which is compiled only where there are no 128-bit integers, is not modelled, nor is the wiping of
  buffers. The reference for Curve25519 is the ladder; that it multiplies points of the curve is not proved here. The
  other tools under \<open>contrib\<close> are examples and scripts, and the embeddable library repeats the netlink code that is modelled
  here. Tests, fuzzers and shell completion are not part of the program.
\<close>

end
